(* ===== verification/Prelude.thy ===== *)
theory Prelude
  imports Main "HOL-Library.Word" "HOL-Library.Monad_Syntax"
begin

text \<open>
  Shared vocabulary of the development: the C types of \<^verbatim>\<open>src/include/kernel.h\<close> as machine words,
  C strings, the error codes of \<^verbatim>\<open>src/include/errno.h\<close>, the collections of facts the component
  theories fill, and generic lemmas on lists, options and words.

  Conventions used everywhere. \<^verbatim>\<open>UCHAR\<close>, \<^verbatim>\<open>USHORT\<close>, \<^verbatim>\<open>UINT\<close>/\<^verbatim>\<open>ULONG\<close>/\<^verbatim>\<open>size_t\<close> are words of 8, 16
  and 32 bits (the kernel is built with \<^verbatim>\<open>-m32\<close>). A system call returns a HOL integer, negative for
  \<open>-errno\<close>. A function that may touch memory outside an object, dereference a null pointer or never
  return has an \<open>option\<close> result, and \<open>None\<close> stands for exactly that.
\<close>

unbundle bit_operations_syntax

section \<open>C types\<close>

type_synonym uchar = "8 word"
type_synonym ushort = "16 word"
type_synonym uint = "32 word"

abbreviation NUL :: char where "NUL \<equiv> CHR 0x00"

text \<open>The value of a (signed) C \<^verbatim>\<open>char\<close>, as comparisons see it.\<close>

definition schar :: "char \<Rightarrow> int" where
  "schar c = (let v = of_char c :: int in if v < 128 then v else v - 256)"

section \<open>Error codes\<close>

datatype errno =
    EGENERIC | EPERM | ENOENT | ESRCH | EINTR | EIO | ENXIO | E2BIG | ENOEXEC | EBADF | ECHILD
  | EAGAIN | ENOMEM | EACCES | EFAULT | ENOTBLK | EBUSY | EEXIST | EXDEV | ENODEV | ENOTDIR
  | EISDIR | EINVAL | ENFILE | EMFILE | ENOTTY | ETXTBSY | EFBIG | ENOSPC | ESPIPE | EROFS
  | EMLINK | EPIPE | EDOM | ERANGE | EDEADLK | ENAMETOOLONG | ENOLCK | ENOSYS | ENOTEMPTY

primrec errno_code :: "errno \<Rightarrow> int" where
  "errno_code EGENERIC = 99"
| "errno_code EPERM = 1"
| "errno_code ENOENT = 2"
| "errno_code ESRCH = 3"
| "errno_code EINTR = 4"
| "errno_code EIO = 5"
| "errno_code ENXIO = 6"
| "errno_code E2BIG = 7"
| "errno_code ENOEXEC = 8"
| "errno_code EBADF = 9"
| "errno_code ECHILD = 10"
| "errno_code EAGAIN = 11"
| "errno_code ENOMEM = 12"
| "errno_code EACCES = 13"
| "errno_code EFAULT = 14"
| "errno_code ENOTBLK = 15"
| "errno_code EBUSY = 16"
| "errno_code EEXIST = 17"
| "errno_code EXDEV = 18"
| "errno_code ENODEV = 19"
| "errno_code ENOTDIR = 20"
| "errno_code EISDIR = 21"
| "errno_code EINVAL = 22"
| "errno_code ENFILE = 23"
| "errno_code EMFILE = 24"
| "errno_code ENOTTY = 25"
| "errno_code ETXTBSY = 26"
| "errno_code EFBIG = 27"
| "errno_code ENOSPC = 28"
| "errno_code ESPIPE = 29"
| "errno_code EROFS = 30"
| "errno_code EMLINK = 31"
| "errno_code EPIPE = 32"
| "errno_code EDOM = 33"
| "errno_code ERANGE = 34"
| "errno_code EDEADLK = 35"
| "errno_code ENAMETOOLONG = 36"
| "errno_code ENOLCK = 37"
| "errno_code ENOSYS = 38"
| "errno_code ENOTEMPTY = 39"

text \<open>The value a system call returns for an error.\<close>

definition err :: "errno \<Rightarrow> int" where
  "err e = - errno_code e"

section \<open>Collections\<close>

named_theorems safe_defs \<open>definitions unfolded in memory-safety proofs\<close>
named_theorems keeps \<open>facts of the form: an operation keeps an invariant\<close>

section \<open>Characters\<close>

lemma of_char_range [simp]: "0 \<le> (of_char c :: int)" "(of_char c :: int) < 256"
proof -
  have "(of_char c :: int) = of_char c mod 256" by simp
  then show "0 \<le> (of_char c :: int)" "(of_char c :: int) < 256"
    by (metis pos_mod_sign zero_less_numeral, metis pos_mod_bound zero_less_numeral)
qed

lemma schar_inject [simp]: "schar a = schar b \<longleftrightarrow> a = b"
proof
  assume eq: "schar a = schar b"
  have "(of_char a :: int) = of_char b"
    using eq of_char_range[of a] of_char_range[of b] unfolding schar_def Let_def
    by (split if_split_asm; split if_split_asm; linarith)
  then show "a = b" by (rule of_char_eqI)
qed simp

lemma schar_NUL [simp]: "schar NUL = 0"
  by (simp add: schar_def)

section \<open>Words\<close>

lemma unat_pred: "n \<noteq> 0 \<Longrightarrow> unat n = Suc (unat (n - 1))" for n :: "'a::len word"
  using unat_minus_one[of n] unat_gt_0[of n] by simp

lemma unat_pred_zero [simp]: "unat (- 1 :: uint) = 4294967295"
  by (simp add: unsigned_minus_1_eq_mask mask_numeral)

lemma word_less_inc: "w \<noteq> - 1 \<Longrightarrow> v < w + 1 \<longleftrightarrow> v \<le> w" for v w :: "'a::len word"
proof -
  assume "w \<noteq> - 1"
  then have "1 + w \<noteq> 0" by (metis add.commute eq_neg_iff_add_eq_0)
  then have "unat (w + 1) = Suc (unat w)" by (simp add: unatSuc add.commute)
  then show ?thesis by (simp add: word_less_nat_alt word_le_nat_alt less_Suc_eq_le)
qed

lemma sint_uint32: "sint w = (if uint w < 2 ^ 31 then uint w else uint w - 2 ^ 32)" for w :: uint
proof -
  have r: "0 \<le> uint w" "uint w < 2 ^ 32" using uint_lt2p[of w] by auto
  have "take_bit 32 (uint w) = uint w" using r by (simp add: take_bit_int_eq_self)
  moreover have "bit (uint w) 31 \<longleftrightarrow> 2 ^ 31 \<le> uint w"
  proof -
    have "uint w div 2 ^ 31 = (if uint w < 2 ^ 31 then 0 else 1)"
      using r by (auto simp: div_pos_pos_trivial intro: int_div_pos_eq[where r = "uint w - 2 ^ 31"])
    then show ?thesis by (simp add: bit_iff_odd)
  qed
  ultimately show ?thesis
    by (simp add: sint_uint signed_take_bit_eq_take_bit_minus)
qed

lemma unat_neg_sint: "sint w < 0 \<Longrightarrow> int (unat (- w)) = - sint w" for w :: uint
proof -
  assume neg: "sint w < 0"
  have r: "uint w < 2 ^ 32" using uint_lt2p[of w] by auto
  from neg have s: "sint w = uint w - 2 ^ 32" "0 < uint w"
    by (auto simp: sint_uint32 split: if_splits)
  have "uint (- w) = (- uint w) mod 2 ^ 32" by (simp add: uint_word_ariths)
  also have "\<dots> = 2 ^ 32 - uint w"
    using r s(2) by (simp add: zmod_zminus1_eq_if mod_pos_pos_trivial)
  finally show ?thesis using s(1) by simp
qed

lemma unat_neg_nat: "sint w < 0 \<Longrightarrow> unat (- w) = nat (- sint w)" for w :: uint
  using unat_neg_sint[of w] by linarith

lemma unat_nonneg_nat: "\<not> sint w < 0 \<Longrightarrow> unat w = nat (sint w)" for w :: uint
  using uint_lt2p[of w] by (auto simp: sint_uint32 split: if_splits)

end
