(* ===== verification/CString.thy ===== *)
theory CString
  imports Prelude
begin

text \<open>
  The string and memory routines of \<^verbatim>\<open>src/lib/string.c\<close> and \<^verbatim>\<open>src/lib/memory.c\<close>.

  A pointer into an object is the list of the bytes from the pointer to the end of the object, so
  incrementing it takes the tail and dereferencing the empty list is an access outside the object:
  the result is then \<open>None\<close>. A null pointer is the \<open>None\<close> of a \<open>cstr option\<close> argument. A store
  through a pointer returns the new bytes of the object. The routines that only walk over a
  terminated string (\<^verbatim>\<open>strchr\<close>, \<^verbatim>\<open>strtok_save\<close>) take the bytes before the terminator instead.
\<close>

type_synonym cstr = "char list"

definition terminated :: "cstr \<Rightarrow> bool" where
  "terminated s \<longleftrightarrow> NUL \<in> set s"

definition content :: "cstr \<Rightarrow> string" where
  "content s = takeWhile (\<lambda>c. c \<noteq> NUL) s"

section \<open>memory.c\<close>

fun memcpy :: "'a list \<Rightarrow> 'a list \<Rightarrow> nat \<Rightarrow> 'a list option" where
  "memcpy ts ss 0 = Some ts"
| "memcpy (t # ts) (s # ss) (Suc n) = map_option ((#) s) (memcpy ts ss n)"
| "memcpy _ _ (Suc n) = None"

fun memset :: "'a list \<Rightarrow> 'a \<Rightarrow> nat \<Rightarrow> 'a list option" where
  "memset ts v 0 = Some ts"
| "memset (t # ts) v (Suc n) = map_option ((#) v) (memset ts v n)"
| "memset [] v (Suc n) = None"

definition memsetw :: "ushort list \<Rightarrow> int \<Rightarrow> nat \<Rightarrow> ushort list option" where
  "memsetw ts v n = memset ts (word_of_int v) n"

fun memcmp :: "cstr \<Rightarrow> cstr \<Rightarrow> nat \<Rightarrow> int option" where
  "memcmp s1 s2 0 = Some 0"
| "memcmp (a # s1) (b # s2) (Suc n) =
     (if a \<noteq> b then Some (of_char a - of_char b) else memcmp s1 s2 n)"
| "memcmp _ _ (Suc n) = None"

section \<open>string.c\<close>

fun strcmp_loop :: "cstr \<Rightarrow> cstr \<Rightarrow> int option" where
  "strcmp_loop (a # s1) (b # s2) =
     (if a \<noteq> NUL \<and> b \<noteq> NUL then
        if schar a < schar b then Some (- 1)
        else if schar a > schar b then Some 1
        else strcmp_loop s1 s2
      else if a \<noteq> b then Some (if schar a < schar b then - 1 else 1)
      else Some 0)"
| "strcmp_loop _ _ = None"

definition strcmp :: "cstr option \<Rightarrow> cstr option \<Rightarrow> int option" where
  "strcmp p1 p2 = (case (p1, p2) of (Some s1, Some s2) \<Rightarrow> strcmp_loop s1 s2 | _ \<Rightarrow> Some 0)"

text \<open>
  The third conjunct \<^verbatim>\<open>(n--)\<close> of the loop condition is evaluated only where both characters are
  not the terminator, and it decrements \<open>n\<close> also when \<open>n\<close> is already 0.
\<close>

fun strncmp_loop :: "cstr \<Rightarrow> cstr \<Rightarrow> uint \<Rightarrow> int option" where
  "strncmp_loop (a # s1) (b # s2) n =
     (if a \<noteq> NUL \<and> b \<noteq> NUL \<and> n \<noteq> 0 then
        if schar a < schar b then Some (- 1)
        else if schar a > schar b then Some 1
        else strncmp_loop s1 s2 (n - 1)
      else
        let n' = (if a \<noteq> NUL \<and> b \<noteq> NUL then n - 1 else n)
        in if n' \<noteq> 0 \<and> a \<noteq> b then Some (if schar a < schar b then - 1 else 1) else Some 0)"
| "strncmp_loop _ _ n = None"

definition strncmp :: "cstr option \<Rightarrow> cstr option \<Rightarrow> uint \<Rightarrow> int option" where
  "strncmp p1 p2 n = (case (p1, p2) of (Some s1, Some s2) \<Rightarrow> strncmp_loop s1 s2 n | _ \<Rightarrow> Some 0)"

fun strlen :: "cstr \<Rightarrow> nat option" where
  "strlen (c # s) = (if c \<noteq> NUL then map_option Suc (strlen s) else Some 0)"
| "strlen [] = None"

text \<open>The offset of the first occurrence; \<open>None\<close> is the null pointer.\<close>

fun strchr :: "string \<Rightarrow> char \<Rightarrow> nat option" where
  "strchr [] chr = None"
| "strchr (c # s) chr = (if c \<noteq> chr then map_option Suc (strchr s chr) else Some 0)"

fun strcpy :: "cstr \<Rightarrow> cstr \<Rightarrow> cstr option" where
  "strcpy (d # ds) (c # s) =
     (if c \<noteq> NUL then map_option ((#) c) (strcpy ds s) else Some (NUL # ds))"
| "strcpy _ _ = None"

text \<open>
  \<^verbatim>\<open>while (*src && num--)\<close> decrements \<open>num\<close> past 0 when it stops because of \<open>num\<close>; the second loop
  \<^verbatim>\<open>while (num--)\<close> then starts from that value.
\<close>

fun strncpy :: "cstr \<Rightarrow> cstr \<Rightarrow> uint \<Rightarrow> cstr option" where
  "strncpy ds (c # s) n =
     (if c = NUL then memset ds NUL (unat n)
      else if n = 0 then memset ds NUL (unat (n - 1))
      else case ds of [] \<Rightarrow> None | d # ds' \<Rightarrow> map_option ((#) c) (strncpy ds' s (n - 1)))"
| "strncpy ds [] n = None"

subsection \<open>strtok\<close>

fun strtok_inner :: "string \<Rightarrow> string \<Rightarrow> bool \<Rightarrow> string \<times> bool" where
  "strtok_inner s [] skip = (s, skip)"
| "strtok_inner [] (d # del) skip = ([], skip)"
| "strtok_inner (c # s) (d # del) skip =
     (if c = d then strtok_inner s del False else strtok_inner (c # s) del skip)"

lemma strtok_inner_length:
  "strtok_inner s del skip = (s', skip') \<Longrightarrow>
     length s' \<le> length s \<and> (skip \<and> \<not> skip' \<longrightarrow> length s' < length s)"
  by (induction s del skip rule: strtok_inner.induct) (auto split: if_splits)

function strtok_skip :: "string \<Rightarrow> string \<Rightarrow> string" where
  "strtok_skip s delim =
     (case strtok_inner s delim True of (s', skip) \<Rightarrow> if skip then s' else strtok_skip s' delim)"
  by pat_completeness auto
termination
  by (relation "measure (\<lambda>(s, d). length s)") (auto, metis strtok_inner_length)

definition strtok_end :: "string \<Rightarrow> string \<Rightarrow> nat" where
  "strtok_end s delim =
     fold (\<lambda>d tmp. case strchr s d of Some occ \<Rightarrow> if occ < tmp then occ else tmp | None \<Rightarrow> tmp)
       delim (length s)"

text \<open>
  The result is the returned pointer and the new value of \<^verbatim>\<open>*ptr\<close>, both as the strings they point
  to: the terminator stored at \<^verbatim>\<open>tmp\<close> ends the token, the saved pointer starts behind it.
\<close>

definition strtok_save ::
    "string option \<Rightarrow> string option \<Rightarrow> string option \<Rightarrow> string option \<times> string option" where
  "strtok_save s0 delim0 ptr =
     (case delim0 of None \<Rightarrow> (s0, ptr) | Some delim \<Rightarrow>
        if delim = [] then (s0, ptr)
        else case (case s0 of None \<Rightarrow> ptr | Some s \<Rightarrow> Some s) of
          None \<Rightarrow> (None, ptr)
        | Some s1 \<Rightarrow>
            let s = strtok_skip s1 delim in
            if s = [] then (None, ptr)
            else
              let tmp = strtok_end s delim in
              if tmp < length s then (Some (take tmp s), Some (drop (Suc tmp) s))
              else (Some s, None))"

text \<open>Calling \<^verbatim>\<open>strtok\<close> until it returns the null pointer, with fuel for the number of calls.\<close>

fun strtok_all :: "nat \<Rightarrow> string option \<Rightarrow> string \<Rightarrow> string option \<Rightarrow> string list" where
  "strtok_all 0 s delim ptr = []"
| "strtok_all (Suc n) s delim ptr =
     (case strtok_save s (Some delim) ptr of
        (None, _) \<Rightarrow> []
      | (Some t, ptr') \<Rightarrow> t # (if ptr' = None then [] else strtok_all n None delim ptr'))"

text \<open>Reference: the maximal runs of characters that are not delimiters.\<close>

function (sequential) tokens :: "(char \<Rightarrow> bool) \<Rightarrow> string \<Rightarrow> string list" where
  "tokens p [] = []"
| "tokens p (c # s) =
     (if p c then tokens p s
      else (c # takeWhile (\<lambda>x. \<not> p x) s) # tokens p (dropWhile (\<lambda>x. \<not> p x) s))"
  by pat_completeness auto
termination
  by (relation "measure (\<lambda>(p, s). length s)") (auto simp: length_dropWhile_le less_Suc_eq_le)

section \<open>Strings and their content\<close>

lemma content_Cons [simp]: "content (c # s) = (if c = NUL then [] else c # content s)"
  by (simp add: content_def)

lemma content_Nil [simp]: "content [] = []"
  by (simp add: content_def)

lemma terminated_Cons [simp]: "terminated (c # s) \<longleftrightarrow> c = NUL \<or> terminated s"
  by (auto simp: terminated_def)

lemma not_terminated_Nil [simp]: "\<not> terminated []"
  by (simp add: terminated_def)

lemma content_no_NUL: "NUL \<notin> set (content s)"
  by (auto simp: content_def dest: set_takeWhileD)

lemma content_append_NUL: "NUL \<notin> set t \<Longrightarrow> content (t @ NUL # r) = t"
  by (induction t) auto

lemma memcpy_eq:
  "memcpy ts ss n = (if n \<le> length ts \<and> n \<le> length ss then Some (take n ss @ drop n ts) else None)"
  by (induction ts ss n rule: memcpy.induct) auto

lemma memset_eq:
  "memset ts v n = (if n \<le> length ts then Some (replicate n v @ drop n ts) else None)"
  by (induction ts v n rule: memset.induct) auto

lemma memcmp_zero_iff:
  "n \<le> length s1 \<Longrightarrow> n \<le> length s2 \<Longrightarrow> memcmp s1 s2 n = Some 0 \<longleftrightarrow> take n s1 = take n s2"
  by (induction s1 s2 n rule: memcmp.induct) auto

lemma strlen_eq: "strlen s = (if terminated s then Some (length (content s)) else None)"
  by (induction s rule: strlen.induct) auto

lemma strchr_Some:
  "strchr s c = Some k \<longleftrightarrow> k < length s \<and> k = length (takeWhile (\<lambda>x. x \<noteq> c) s)"
  by (induction s c arbitrary: k rule: strchr.induct) auto

lemma strchr_None: "strchr s c = None \<longleftrightarrow> c \<notin> set s"
  by (induction s c rule: strchr.induct) auto

lemma strcpy_eq:
  "strcpy d s = (if terminated s \<and> length (content s) < length d
     then Some (content s @ NUL # drop (Suc (length (content s))) d) else None)"
  by (induction d s rule: strcpy.induct) auto

section \<open>Comparison\<close>

text \<open>
  The order \<^verbatim>\<open>strcmp\<close> decides: lexicographic on the signed character values, the terminator (0)
  included, so that a string is not below its extension by a byte of 128 or more.
\<close>

definition str_key :: "cstr \<Rightarrow> int list" where
  "str_key s = map schar (content s) @ [0]"

definition str_less :: "cstr \<Rightarrow> cstr \<Rightarrow> bool" where
  "str_less s t \<longleftrightarrow> (str_key s, str_key t) \<in> lexord {(u, v). u < v}"

lemma str_key_inject: "str_key s = str_key t \<longleftrightarrow> content s = content t"
  by (auto simp: str_key_def inj_on_def dest: map_injective[OF _ injI])

lemma str_key_Cons:
  "str_key (c # s) = (if c = NUL then [0] else schar c # str_key s)"
  by (simp add: str_key_def)

lemma schar_NUL_iff [simp]: "schar c = 0 \<longleftrightarrow> c = NUL"
  using schar_inject[of c NUL] by simp

lemma str_less_Cons:
  "str_less (a # s) (b # t) \<longleftrightarrow>
     schar a < schar b \<or> a = b \<and> a \<noteq> NUL \<and> str_less s t"
  by (cases "a = NUL"; cases "b = NUL") (simp_all add: str_less_def str_key_Cons)

lemma strcmp_loop_eq:
  "terminated s \<Longrightarrow> terminated t \<Longrightarrow>
     strcmp_loop s t = Some (if content s = content t then 0 else if str_less s t then - 1 else 1)"
proof (induction s t rule: strcmp_loop.induct)
  case (1 a s b t)
  consider "a = b" | "schar a < schar b" | "schar b < schar a"
    using schar_inject[of a b] linorder_less_linear[of "schar a" "schar b"] by blast
  then show ?case
  proof cases
    case 1
    with "1.IH" "1.prems" show ?thesis by (cases "a = NUL") (simp_all add: str_less_Cons)
  next
    case 2
    then have "a \<noteq> b" by auto
    with 2 show ?thesis by (cases "a = NUL"; cases "b = NUL") (simp_all add: str_less_Cons)
  next
    case 3
    then have "a \<noteq> b" "\<not> schar a < schar b" by auto
    with 3 show ?thesis by (cases "a = NUL"; cases "b = NUL") (simp_all add: str_less_Cons)
  qed
qed auto

section \<open>The bounded variants\<close>

lemma strncpy_fits:
  assumes "terminated s" and "length (content s) \<le> unat n" and "unat n \<le> length d"
  shows "strncpy d s n = Some (content s @ replicate (unat n - length (content s)) NUL @ drop (unat n) d)"
  using assms
proof (induction d s n rule: strncpy.induct)
  case (1 ds c s n)
  show ?case
  proof (cases "c = NUL")
    case True
    with 1 show ?thesis by (simp add: memset_eq)
  next
    case False
    with 1 obtain d ds' m where *: "ds = d # ds'" "unat n = Suc m"
      by (cases ds; cases "unat n") auto
    then have "n \<noteq> 0" by auto
    with * have "unat (n - 1) = m" using unat_pred[of n] by simp
    with \<open>n \<noteq> 0\<close> 1 * False show ?thesis by auto
  qed
qed auto

lemma strncpy_overrun:
  assumes "\<forall>i\<le>unat n. i < length s \<and> s ! i \<noteq> NUL" and "length d < unat n + 4294967295"
  shows "strncpy d s n = None"
  using assms
proof (induction d s n rule: strncpy.induct)
  case (1 ds c s n)
  have c: "c \<noteq> NUL" using 1(2) by force
  show ?case
  proof (cases "n = 0")
    case True
    with c 1(3) show ?thesis by (simp add: memset_eq)
  next
    case False
    then have m: "unat n = Suc (unat (n - 1))"
      by (rule unat_pred)
    have "\<forall>i\<le>unat (n - 1). i < length s \<and> s ! i \<noteq> NUL"
      using 1(2) m by (metis Suc_le_mono Suc_less_eq length_Cons nth_Cons_Suc)
    with 1(1)[OF c False] 1(3) c False m show ?thesis by (auto split: list.splits)
  qed
qed auto

lemma strncmp_loop_wraps:
  assumes "\<forall>i\<le>unat n. i < length s \<and> i < length t \<and> s ! i \<noteq> NUL \<and> t ! i \<noteq> NUL"
    and "\<forall>i<unat n. s ! i = t ! i"
  shows "strncmp_loop s t n =
     Some (if s ! unat n = t ! unat n then 0 else if schar (s ! unat n) < schar (t ! unat n) then - 1 else 1)"
  using assms(1,2)
proof (induction s t n rule: strncmp_loop.induct)
  case (1 a s b t n)
  have ab: "a \<noteq> NUL" "b \<noteq> NUL" using 1(2) by force+
  show ?case
  proof (cases "n = 0")
    case True
    with ab show ?thesis by auto
  next
    case False
    then have m: "unat n = Suc (unat (n - 1))"
      by (rule unat_pred)
    have eq: "a = b" using 1(3) m by force
    have "\<forall>i\<le>unat (n - 1). i < length s \<and> i < length t \<and> s ! i \<noteq> NUL \<and> t ! i \<noteq> NUL"
      using 1(2) m by (metis Suc_le_mono Suc_less_eq length_Cons nth_Cons_Suc)
    moreover have "\<forall>i<unat (n - 1). s ! i = t ! i"
      using 1(3) m by (metis Suc_less_eq nth_Cons_Suc)
    ultimately show ?thesis using 1(1) ab False eq m by simp
  qed
qed auto

section \<open>Tokens\<close>

lemma strtok_inner_False: "strtok_inner s del False = (s', skip') \<Longrightarrow> \<not> skip'"
  by (induction s del False arbitrary: skip' rule: strtok_inner.induct) (auto split: if_splits)

lemma strtok_inner_drops:
  "strtok_inner s del skip = (s', skip') \<Longrightarrow>
     \<exists>us. s = us @ s' \<and> set us \<subseteq> set del \<and> (skip' \<longrightarrow> us = [])"
proof (induction s del skip rule: strtok_inner.induct)
  case (3 c s d del skip)
  show ?case
  proof (cases "c = d")
    case True
    with 3 obtain us where "s = us @ s'" "set us \<subseteq> set del" by auto
    moreover have "\<not> skip'"
      using 3(3) True by (auto dest: strtok_inner_False)
    ultimately show ?thesis using True by (intro exI[of _ "c # us"]) auto
  next
    case False
    with 3 show ?thesis by auto
  qed
qed auto

lemma strtok_inner_stop:
  "strtok_inner s del skip = (s', True) \<Longrightarrow> s' = s \<and> (s = [] \<or> hd s \<notin> set del)"
  by (induction s del skip rule: strtok_inner.induct)
    (auto split: if_splits dest: strtok_inner_False)

declare strtok_skip.simps [simp del]

lemma strtok_skip_eq: "strtok_skip s delim = dropWhile (\<lambda>c. c \<in> set delim) s"
proof (induction s delim rule: strtok_skip.induct)
  case (1 s delim)
  obtain s' skip where i: "strtok_inner s delim True = (s', skip)" by fastforce
  show ?case
  proof (cases skip)
    case True
    with i have "s' = s" "s = [] \<or> hd s \<notin> set delim"
      using strtok_inner_stop[of s delim True s'] by auto
    with i True show ?thesis
      by (cases s) (simp_all add: strtok_skip.simps[of _ delim])
  next
    case False
    obtain us where "s = us @ s'" "set us \<subseteq> set delim"
      using strtok_inner_drops[OF i] by blast
    then have "dropWhile (\<lambda>c. c \<in> set delim) s = dropWhile (\<lambda>c. c \<in> set delim) s'"
      by (auto intro: dropWhile_append2)
    with 1[OF i[symmetric] False] i False show ?thesis
      by (simp add: strtok_skip.simps[of s])
  qed
qed

lemma length_takeWhile_conj:
  "length (takeWhile (\<lambda>x. P x \<and> Q x) s) = min (length (takeWhile P s)) (length (takeWhile Q s))"
  by (induction s) auto

lemma strtok_end_eq: "strtok_end s delim = length (takeWhile (\<lambda>c. c \<notin> set delim) s)"
proof -
  have "t \<le> length s \<Longrightarrow>
    fold (\<lambda>d tmp. case strchr s d of Some occ \<Rightarrow> if occ < tmp then occ else tmp | None \<Rightarrow> tmp) delim t
      = min t (length (takeWhile (\<lambda>c. c \<notin> set delim) s))" for t
  proof (induction delim arbitrary: t)
    case Nil
    then show ?case by (simp add: takeWhile_eq_all_conv[THEN iffD2])
  next
    case (Cons d del)
    define w where "w = length (takeWhile (\<lambda>x. x \<noteq> d) s)"
    have "(case strchr s d of Some occ \<Rightarrow> if occ < t then occ else t | None \<Rightarrow> t) = min t w"
    proof (cases "strchr s d")
      case None
      then have "w = length s"
        by (metis (mono_tags, lifting) strchr_None takeWhile_eq_all_conv w_def)
      with None Cons.prems show ?thesis by simp
    next
      case (Some k)
      then have "k = w" by (simp add: strchr_Some w_def)
      with Some show ?thesis by (simp add: min_def)
    qed
    with Cons show ?case
      by (simp add: length_takeWhile_conj w_def min.assoc)
  qed
  then show ?thesis by (simp add: strtok_end_def length_takeWhile_le)
qed

lemma tokens_skip: "tokens p (dropWhile p s) = tokens p s"
  by (induction s) auto

lemma tokens_split:
  "s \<noteq> [] \<Longrightarrow> \<not> p (hd s) \<Longrightarrow>
     tokens p s = takeWhile (\<lambda>x. \<not> p x) s # tokens p (drop (Suc (length (takeWhile (\<lambda>x. \<not> p x) s))) s)"
proof -
  assume "s \<noteq> []" "\<not> p (hd s)"
  then have "tokens p s = takeWhile (\<lambda>x. \<not> p x) s # tokens p (dropWhile (\<lambda>x. \<not> p x) s)"
    by (cases s) auto
  moreover have "tokens p (dropWhile (\<lambda>x. \<not> p x) s) =
      tokens p (drop (Suc (length (takeWhile (\<lambda>x. \<not> p x) s))) s)"
  proof (cases "dropWhile (\<lambda>x. \<not> p x) s")
    case Nil
    then have "takeWhile (\<lambda>x. \<not> p x) s = s"
      by (metis append_Nil2 takeWhile_dropWhile_id)
    then have "drop (Suc (length (takeWhile (\<lambda>x. \<not> p x) s))) s = []"
      by (simp only: drop_eq_Nil)
    then show ?thesis by (simp only: Nil)
  next
    case (Cons y ys)
    then have "p y" by (metis (lifting) dropWhile_eq_Cons_conv)
    moreover have "drop (Suc (length (takeWhile (\<lambda>x. \<not> p x) s))) s = ys"
      using Cons by (metis dropWhile_eq_drop drop_Suc list.sel(3) tl_drop)
    ultimately show ?thesis using Cons by simp
  qed
  ultimately show ?thesis by simp
qed

lemma strtok_save_cases:
  assumes "delim \<noteq> []" and "(case s0 of None \<Rightarrow> ptr | Some s \<Rightarrow> Some s) = Some s1"
  shows "strtok_save s0 (Some delim) ptr =
    (case tokens (\<lambda>c. c \<in> set delim) s1 of
       [] \<Rightarrow> (None, ptr)
     | t # ts \<Rightarrow>
        (Some t,
         let s = dropWhile (\<lambda>c. c \<in> set delim) s1
         in if length t < length s then Some (drop (Suc (length t)) s) else None))"
proof -
  let ?p = "\<lambda>c. c \<in> set delim"
  define s where "s = dropWhile ?p s1"
  have tk: "tokens ?p s1 = tokens ?p s" by (simp add: s_def tokens_skip)
  show ?thesis
  proof (cases "s = []")
    case True
    with assms tk show ?thesis
      by (simp add: strtok_save_def strtok_skip_eq s_def[symmetric] del: dropWhile_eq_Nil_conv)
  next
    case False
    then have "\<not> ?p (hd s)" unfolding s_def by (rule hd_dropWhile)
    from tokens_split[of s ?p, OF False this] tk
    obtain k where k: "k = length (takeWhile (\<lambda>x. x \<notin> set delim) s)"
      and ts: "tokens ?p s1 = take k s # tokens ?p (drop (Suc k) s)"
      by (metis (no_types, lifting) takeWhile_eq_take)
    have "k \<le> length s" by (simp add: k length_takeWhile_le)
    moreover have "strtok_skip s1 delim = s" by (simp add: s_def strtok_skip_eq)
    moreover have "strtok_end s delim = k" by (simp add: k strtok_end_eq)
    ultimately show ?thesis
      using assms False ts by (auto simp: strtok_save_def Let_def s_def[symmetric])
  qed
qed

lemma strtok_all_eq:
  assumes "delim \<noteq> []"
  shows "length s1 < n \<Longrightarrow> (case s0 of None \<Rightarrow> ptr | Some s \<Rightarrow> Some s) = Some s1 \<Longrightarrow>
     strtok_all n s0 delim ptr = tokens (\<lambda>c. c \<in> set delim) s1"
proof (induction n arbitrary: s0 s1 ptr)
  case 0
  then show ?case by simp
next
  case (Suc n)
  let ?p = "\<lambda>c. c \<in> set delim"
  define s where "s = dropWhile ?p s1"
  have len: "length s \<le> length s1" by (simp add: s_def length_dropWhile_le)
  note save = strtok_save_cases[OF assms Suc.prems(2), folded s_def]
  show ?case
  proof (cases "s = []")
    case True
    then have "tokens ?p s1 = []" by (metis s_def tokens.simps(1) tokens_skip)
    with save show ?thesis by simp
  next
    case False
    then have "\<not> ?p (hd s)" unfolding s_def by (rule hd_dropWhile)
    from tokens_split[of s ?p, OF False this]
    obtain t where t: "tokens ?p s1 = t # tokens ?p (drop (Suc (length t)) s)"
      by (metis s_def tokens_skip)
    show ?thesis
    proof (cases "length t < length s")
      case True
      then have "length (drop (Suc (length t)) s) < n"
        using len Suc.prems(1) by simp
      from Suc.IH[OF this, of "Some (drop (Suc (length t)) s)" None] save t True show ?thesis by (simp add: Let_def)
    next
      case F: False
      with save t show ?thesis by (simp add: Let_def)
    qed
  qed
qed

section \<open>Properties\<close>

text \<open>
  C33: on two terminated strings \<^verbatim>\<open>strcmp\<close> stays inside both objects and returns 0 exactly when the
  contents are equal, and otherwise -1 or 1 according to the lexicographic order on the signed
  character values.
\<close>

theorem strcmp_decides:
  assumes "terminated s" and "terminated t"
  shows "strcmp (Some s) (Some t) =
    Some (if content s = content t then 0 else if str_less s t then - 1 else 1)"
  using strcmp_loop_eq[OF assms] by (simp add: strcmp_def)

theorem strcmp_decides_witness:
  "strcmp (Some (''ab'' @ [NUL])) (Some (''abc'' @ [NUL])) = Some (- 1)"
proof -
  have "terminated (''ab'' @ [NUL])" "terminated (''abc'' @ [NUL])" by simp_all
  from strcmp_decides[OF this] show ?thesis
    by (simp add: str_less_Cons schar_def)
qed

text \<open>
  \<^verbatim>\<open>strncpy(dest, src, num)\<close> stores the string padded with zeros up to \<open>num\<close> bytes when it has
  at most \<open>num\<close> characters. When it has more, the counter wraps below zero and the padding loop
  writes \<open>2^32 - 1\<close> further bytes: whatever the destination (any object shorter than that), the
  call leaves it.
\<close>

lemma strncpy_fits_or_overruns:
  assumes "terminated s" and "unat n \<le> length d" and "length d < unat n + 4294967295"
  shows "strncpy d s n =
    (if length (content s) \<le> unat n
     then Some (content s @ replicate (unat n - length (content s)) NUL @ drop (unat n) d)
     else None)"
proof (cases "length (content s) \<le> unat n")
  case True
  with strncpy_fits[OF assms(1) True assms(2)] show ?thesis by simp
next
  case False
  have "i < length s \<and> s ! i \<noteq> NUL" if "i \<le> unat n" for i
  proof -
    from that False have "i < length (content s)" by simp
    then show ?thesis
      using content_no_NUL[of s] length_takeWhile_le[of "\<lambda>c. c \<noteq> NUL" s]
      by (metis (no_types, lifting) content_def nth_mem order_less_le_trans takeWhile_nth)
  qed
  with strncpy_overrun[OF _ assms(3)] False show ?thesis by simp
qed

lemma strncpy_fits_or_overruns_witness:
  "strncpy ''xxxx'' (''abc'' @ [NUL]) 4 = Some (''abc'' @ [NUL])
   \<and> strncpy ''xxxx'' (''abc'' @ [NUL]) 2 = None"
proof -
  have t: "terminated (''abc'' @ [NUL])" by simp
  have "unat (4 :: uint) \<le> length ''xxxx''" "length ''xxxx'' < unat (4 :: uint) + 4294967295"
    "unat (2 :: uint) \<le> length ''xxxx''" "length ''xxxx'' < unat (2 :: uint) + 4294967295"
    by simp_all
  note strncpy_fits_or_overruns[OF t this(1,2)] strncpy_fits_or_overruns[OF t this(3,4)]
  then show ?thesis by (simp del: strncpy.simps)
qed

text \<open>
  \<^verbatim>\<open>strncmp\<close> compares one character too many: on strings that agree on their first \<open>n\<close>
  characters and are longer than \<open>n\<close>, the result is that of comparing the characters at index
  \<open>n\<close>, where a comparison bounded by \<open>n\<close> would be 0.
\<close>

lemma strncmp_compares_one_more:
  assumes "\<forall>i\<le>unat n. i < length s \<and> i < length t \<and> s ! i \<noteq> NUL \<and> t ! i \<noteq> NUL"
    and "take (unat n) s = take (unat n) t"
  shows "strncmp (Some s) (Some t) n =
     Some (if s ! unat n = t ! unat n then 0
           else if schar (s ! unat n) < schar (t ! unat n) then - 1 else 1)"
proof -
  have "\<forall>i<unat n. s ! i = t ! i"
    using assms(2) by (metis nth_take)
  with strncmp_loop_wraps[OF assms(1) this] show ?thesis by (simp add: strncmp_def)
qed

lemma strncmp_compares_one_more_witness:
  "strncmp (Some ''abc'') (Some ''abd'') 2 = Some (- 1)"
proof -
  have u: "unat (2 :: uint) = 2" by simp
  have i: "i \<le> 2 \<longleftrightarrow> i = 0 \<or> i = 1 \<or> i = 2" for i :: nat by arith
  have h: "\<forall>i\<le>unat (2 :: uint). i < length ''abc'' \<and> i < length ''abd'' \<and> ''abc'' ! i \<noteq> NUL \<and> ''abd'' ! i \<noteq> NUL"
    by (auto simp: u i)
  have "take (unat (2 :: uint)) ''abc'' = take (unat (2 :: uint)) ''abd''" by simp
  from strncmp_compares_one_more[OF h this] show ?thesis by (simp add: schar_def u)
qed

text \<open>
  C19: calling \<^verbatim>\<open>strtok\<close> on a string and then on the saved pointer until it returns null yields
  the maximal runs of non-delimiters of the string, in order; as many calls as the string has
  characters and one more are enough.
\<close>

theorem strtok_yields_tokens:
  assumes "delim \<noteq> []" and "length s < n"
  shows "strtok_all n (Some s) delim ptr = tokens (\<lambda>c. c \<in> set delim) s"
  by (rule strtok_all_eq[OF assms]) simp

theorem strtok_yields_tokens_witness:
  "strtok_all 9 (Some '' ls,-l '') '' ,'' None = [''ls'', ''-l'']"
proof -
  have "'' ,'' \<noteq> []" "length '' ls,-l '' < 9" by simp_all
  from strtok_yields_tokens[OF this] show ?thesis by simp
qed

end
