(* ===== verification/Vsprintf.thy ===== *)
theory Vsprintf
  imports CString
begin

text \<open>
  The formatter of \<^verbatim>\<open>src/lib/vsprintf.c\<close> (the user library has a copy of the same text).

  The output pointer \<^verbatim>\<open>str\<close> is the list of characters stored so far. The bits of \<^verbatim>\<open>flags\<close> are a set.
  The variable arguments are a list, one entry per \<^verbatim>\<open>va_arg\<close>; a missing argument, or one of another
  kind than the conversion takes, gives \<open>None\<close>. Field widths and precisions are integers; the
  decimal digits of a width are accumulated in 32 bits, as \<^verbatim>\<open>skip_atoi\<close> does.
\<close>

datatype fmt_flag = ZEROPAD | SIGN | PLUS | SPACE | LEFT | SPECIAL | SMALL

datatype vararg = VInt uint | VStr "string option" | VRef

definition is_digit :: "char \<Rightarrow> bool" where
  "is_digit c \<longleftrightarrow> schar c \<ge> schar CHR ''0'' \<and> schar c \<le> schar CHR ''9''"

fun skip_atoi :: "string \<Rightarrow> uint \<Rightarrow> uint \<times> string" where
  "skip_atoi (c # s) i =
     (if is_digit c then skip_atoi s (i * 10 + word_of_int (schar c - schar CHR ''0'')) else (i, c # s))"
| "skip_atoi [] i = (i, [])"

definition digit_table :: "bool \<Rightarrow> string" where
  "digit_table small =
     (if small then ''0123456789abcdefghijklmnopqrstuvwxyz''
      else ''0123456789ABCDEFGHIJKLMNOPQRSTUVWXYZ'')"

text \<open>The digits collected in \<^verbatim>\<open>tmp\<close>, least significant first; \<^verbatim>\<open>do_div\<close> divides unsigned.\<close>

function num_tmp :: "string \<Rightarrow> nat \<Rightarrow> nat \<Rightarrow> string" where
  "num_tmp digits base n =
     (if n = 0 \<or> base < 2 then [] else digits ! (n mod base) # num_tmp digits base (n div base))"
  by pat_completeness auto
termination
  by (relation "measure (\<lambda>(d, b, n). n)") (auto intro: div_less_dividend)

declare num_tmp.simps [simp del]

text \<open>\<^verbatim>\<open>while (size-- > 0) *str++ = c;\<close> gives the stored characters and the final \<^verbatim>\<open>size\<close>.\<close>

definition emit_size :: "int \<Rightarrow> char \<Rightarrow> string \<times> int" where
  "emit_size sz c = (replicate (nat sz) c, if sz > 0 then - 1 else sz - 1)"

text \<open>The sign character, the characters the \<^verbatim>\<open>SPECIAL\<close> prefix takes, and the digits of a number.\<close>

definition number_sign :: "uint \<Rightarrow> fmt_flag set \<Rightarrow> string" where
  "number_sign w fl =
     (if SIGN \<in> fl \<and> sint w < 0 then ''-'' else if PLUS \<in> fl then ''+''
      else if SPACE \<in> fl then '' '' else [])"

definition number_special :: "int \<Rightarrow> fmt_flag set \<Rightarrow> string" where
  "number_special base fl =
     (if SPECIAL \<in> fl
      then if base = 8 then ''0'' else if base = 16 then [CHR ''0'', digit_table (SMALL \<in> fl) ! 33] else []
      else [])"

definition number_digits :: "uint \<Rightarrow> int \<Rightarrow> fmt_flag set \<Rightarrow> string" where
  "number_digits w base fl =
     (let num = (if SIGN \<in> fl \<and> sint w < 0 then - w else w)
      in if num = 0 then ''0'' else num_tmp (digit_table (SMALL \<in> fl)) (nat base) (unat num))"

text \<open>\<^verbatim>\<open>number\<close>; the null result for a base it does not support is \<open>None\<close>.\<close>

definition number :: "uint \<Rightarrow> int \<Rightarrow> int \<Rightarrow> int \<Rightarrow> fmt_flag set \<Rightarrow> string option" where
  "number num base size0 precision0 fl =
    (let type = (if LEFT \<in> fl then fl - {ZEROPAD} else fl)
     in if base < 2 \<or> base > 36 then None
     else
      (let c = (if ZEROPAD \<in> type then CHR ''0'' else CHR '' '');
           sign = number_sign num fl;
           size1 = (if sign \<noteq> [] then size0 - 1 else size0);
           size2 = size1 - int (length (number_special base fl));
           tmp = number_digits num base fl;
           i = int (length tmp);
           precision = (if i > precision0 then i else precision0);
           size3 = size2 - precision;
           (o1, size4) = (if ZEROPAD \<notin> type \<and> LEFT \<notin> type then emit_size size3 CHR '' '' else ([], size3));
           (o2, size5) = (if LEFT \<notin> type then emit_size size4 c else ([], size4));
           zeros = replicate (nat (precision - i)) CHR ''0'';
           (o3, size6) = emit_size size5 CHR '' ''
       in Some (o1 @ sign @ number_special base fl @ o2 @ zeros @ rev tmp @ o3)))"

fun fmt_flags :: "string \<Rightarrow> fmt_flag set \<Rightarrow> string \<times> fmt_flag set" where
  "fmt_flags (c # s) fl =
     (if c = CHR ''-'' then fmt_flags s (insert LEFT fl)
      else if c = CHR ''+'' then fmt_flags s (insert PLUS fl)
      else if c = CHR '' '' then fmt_flags s (insert SPACE fl)
      else if c = CHR ''#'' then fmt_flags s (insert SPECIAL fl)
      else if c = CHR ''0'' then fmt_flags s (insert ZEROPAD fl)
      else (c # s, fl))"
| "fmt_flags [] fl = ([], fl)"

text \<open>The head of the format, the terminator at its end.\<close>

definition fmt_hd :: "string \<Rightarrow> char" where
  "fmt_hd s = (case s of [] \<Rightarrow> NUL | c # _ \<Rightarrow> c)"

text \<open>
  Field width and precision. For \<^verbatim>\<open>*\<close> the argument is taken and the format pointer stays on the
  asterisk, as in the source.
\<close>

definition fmt_width ::
    "string \<Rightarrow> vararg list \<Rightarrow> fmt_flag set \<Rightarrow> (string \<times> vararg list \<times> fmt_flag set \<times> int) option" where
  "fmt_width s args fl =
     (if is_digit (fmt_hd s) then (case skip_atoi s 0 of (i, s') \<Rightarrow> Some (s', args, fl, sint i))
      else if fmt_hd s = CHR ''*'' then
        (case args of
           VInt w # args' \<Rightarrow>
             Some (if sint w < 0 then (s, args', insert LEFT fl, - sint w) else (s, args', fl, sint w))
         | _ \<Rightarrow> None)
      else Some (s, args, fl, - 1))"

definition fmt_precision :: "string \<Rightarrow> vararg list \<Rightarrow> (string \<times> vararg list \<times> int) option" where
  "fmt_precision s args =
     (if fmt_hd s = CHR ''.'' then
        let s1 = tl s in
        if is_digit (fmt_hd s1) then (case skip_atoi s1 0 of (i, s') \<Rightarrow> Some (s', args, max 0 (sint i)))
        else if fmt_hd s1 = CHR ''*'' then
          (case args of VInt w # args' \<Rightarrow> Some (s1, args', max 0 (sint w)) | _ \<Rightarrow> None)
        else Some (s1, args, 0)
      else Some (s, args, - 1))"

definition fmt_qualifier :: "string \<Rightarrow> string" where
  "fmt_qualifier s =
     (if fmt_hd s = CHR ''h'' \<or> fmt_hd s = CHR ''l'' \<or> fmt_hd s = CHR ''L'' then tl s else s)"

text \<open>\<^verbatim>\<open>%c\<close> with \<^verbatim>\<open>while (--field_width > 0)\<close>, and \<^verbatim>\<open>%s\<close> with \<^verbatim>\<open>while (len < field_width--)\<close>.\<close>

definition fmt_char :: "uint \<Rightarrow> int \<Rightarrow> fmt_flag set \<Rightarrow> string" where
  "fmt_char w fw fl =
     (let (o1, fw1) = (if LEFT \<notin> fl then (replicate (nat (fw - 1)) CHR '' '', if fw > 0 then 0 else fw - 1)
                       else ([], fw))
      in o1 @ [char_of (uint w)] @ replicate (nat (fw1 - 1)) CHR '' '')"

definition fmt_string :: "string \<Rightarrow> int \<Rightarrow> int \<Rightarrow> fmt_flag set \<Rightarrow> string" where
  "fmt_string s fw precision fl =
     (let len0 = int (length s);
          len = (if precision < 0 then len0 else if len0 > precision then precision else len0);
          (o1, fw1) = (if LEFT \<notin> fl then (replicate (nat (fw - len)) CHR '' '', if fw > len then len - 1 else fw - 1)
                       else ([], fw))
      in o1 @ take (nat len) s @ replicate (nat (fw1 - len)) CHR '' '')"

text \<open>
  The conversion switch: the text it stores, the remaining arguments, the format behind the
  conversion and, for \<^verbatim>\<open>%n\<close>, that the number of characters so far is stored.
\<close>

definition fmt_number :: "vararg list \<Rightarrow> int \<Rightarrow> int \<Rightarrow> int \<Rightarrow> fmt_flag set \<Rightarrow> string \<Rightarrow>
    (string \<times> vararg list \<times> string \<times> bool) option" where
  "fmt_number args base fw precision fl s' =
     (case args of
        VInt w # args' \<Rightarrow>
          (case number w base fw precision fl of None \<Rightarrow> None | Some t \<Rightarrow> Some (t, args', s', False))
      | _ \<Rightarrow> None)"

definition fmt_conv :: "string \<Rightarrow> vararg list \<Rightarrow> fmt_flag set \<Rightarrow> int \<Rightarrow> int \<Rightarrow>
    (string \<times> vararg list \<times> string \<times> bool) option" where
  "fmt_conv s args fl fw precision =
     (let c = fmt_hd s; s' = tl s in
      if c = CHR ''c'' then
        (case args of VInt w # args' \<Rightarrow> Some (fmt_char w fw fl, args', s', False) | _ \<Rightarrow> None)
      else if c = CHR ''s'' then
        (case args of
           VStr None # args' \<Rightarrow> Some ([], args', s', False)
         | VStr (Some t) # args' \<Rightarrow> Some (fmt_string t fw precision fl, args', s', False)
         | _ \<Rightarrow> None)
      else if c = CHR ''o'' then fmt_number args 8 fw precision fl s'
      else if c = CHR ''p'' then
        (if fw = - 1 then fmt_number args 16 8 precision (insert ZEROPAD fl) s'
         else fmt_number args 16 fw precision fl s')
      else if c = CHR ''x'' then fmt_number args 16 fw precision (insert SMALL fl) s'
      else if c = CHR ''X'' then fmt_number args 16 fw precision fl s'
      else if c = CHR ''d'' \<or> c = CHR ''i'' then fmt_number args 10 fw precision (insert SIGN fl) s'
      else if c = CHR ''u'' then fmt_number args 10 fw precision fl s'
      else if c = CHR ''n'' then
        (case args of VRef # args' \<Rightarrow> Some ([], args', s', True) | _ \<Rightarrow> None)
      else
        Some ((if c \<noteq> CHR ''%'' then ''%'' else []) @ (if c \<noteq> NUL then [c] else []), args, s', False))"

definition fmt_spec :: "string \<Rightarrow> vararg list \<Rightarrow> (string \<times> vararg list \<times> string \<times> bool) option" where
  "fmt_spec s args =
     (case fmt_flags s {} of (s1, fl1) \<Rightarrow> do {
        (s2, args2, fl2, fw) \<leftarrow> fmt_width s1 args fl1;
        (s3, args3, precision) \<leftarrow> fmt_precision s2 args2;
        fmt_conv (fmt_qualifier s3) args3 fl2 fw precision
      })"

subsection \<open>The format pointer only moves forward\<close>

lemma length_fmt_flags: "fmt_flags s fl = (s', fl') \<Longrightarrow> length s' \<le> length s"
  by (induction s fl rule: fmt_flags.induct) (auto split: if_splits)

lemma length_skip_atoi: "skip_atoi s i = (j, s') \<Longrightarrow> length s' \<le> length s"
  by (induction s i rule: skip_atoi.induct) (auto split: if_splits)

lemma length_fmt_width: "fmt_width s args fl = Some (s', r) \<Longrightarrow> length s' \<le> length s"
  by (auto simp: fmt_width_def dest: length_skip_atoi split: if_splits prod.splits list.splits vararg.splits)

lemma length_fmt_precision: "fmt_precision s args = Some (s', r) \<Longrightarrow> length s' \<le> length s"
  by (auto simp: fmt_precision_def Let_def dest: length_skip_atoi
      split: if_splits prod.splits list.splits vararg.splits)

lemma length_fmt_conv: "fmt_conv s args fl fw p = Some (t, args', s', st) \<Longrightarrow> length s' \<le> length s"
  by (auto simp: fmt_conv_def fmt_number_def Let_def
      split: if_splits list.splits vararg.splits option.splits)

lemma length_fmt_spec: "fmt_spec s args = Some (t, args', s', st) \<Longrightarrow> length s' \<le> length s"
  unfolding fmt_spec_def
  by (auto split: prod.splits Option.bind_splits if_splits
      dest!: length_fmt_flags length_fmt_width length_fmt_precision length_fmt_conv
      simp: fmt_qualifier_def)

text \<open>
  \<^verbatim>\<open>vsprintf\<close>: the stored text and the values stored by \<^verbatim>\<open>%n\<close>, in order. The returned length and
  the final terminator are functions of the text.
\<close>

function vsprintf_loop :: "string \<Rightarrow> vararg list \<Rightarrow> string \<Rightarrow> nat list \<Rightarrow> (string \<times> nat list) option" where
  "vsprintf_loop [] args str ns = Some (str, ns)"
| "vsprintf_loop (c # s) args str ns =
     (if c \<noteq> CHR ''%'' then vsprintf_loop s args (str @ [c]) ns
      else case fmt_spec s args of
        None \<Rightarrow> None
      | Some (t, args', s', st) \<Rightarrow>
          vsprintf_loop s' args' (str @ t) (if st then ns @ [length str] else ns))"
  by pat_completeness auto
termination
  by (relation "measure (\<lambda>(s, a, t, n). length s)") (auto dest: length_fmt_spec simp: less_Suc_eq_le)

definition vsprintf :: "string \<Rightarrow> vararg list \<Rightarrow> (string \<times> nat list) option" where
  "vsprintf fmt args = vsprintf_loop fmt args [] []"

section \<open>Digits\<close>

text \<open>Reading digits back: the position in the digit table, and the value in a base.\<close>

definition digit_val :: "string \<Rightarrow> char \<Rightarrow> nat" where
  "digit_val digits c = length (takeWhile (\<lambda>d. d \<noteq> c) digits)"

definition num_value :: "string \<Rightarrow> nat \<Rightarrow> string \<Rightarrow> nat" where
  "num_value digits base ds = foldl (\<lambda>a c. a * base + digit_val digits c) 0 ds"

lemma digit_val_nth: "distinct ds \<Longrightarrow> k < length ds \<Longrightarrow> digit_val ds (ds ! k) = k"
  unfolding digit_val_def
proof (induction ds arbitrary: k)
  case (Cons d ds)
  then show ?case by (cases k) (auto simp: nth_mem)
qed simp

lemma digit_table_props [simp]: "distinct (digit_table b)" "length (digit_table b) = 36"
  "digit_table b ! 0 = CHR ''0''"
  by (simp_all add: digit_table_def)

lemma num_value_tmp:
  "2 \<le> base \<Longrightarrow> base \<le> 36 \<Longrightarrow> num_value (digit_table b) base (rev (num_tmp (digit_table b) base n)) = n"
proof (induction "digit_table b" base n rule: num_tmp.induct)
  case (1 base n)
  show ?case
  proof (cases "n = 0")
    case True
    then show ?thesis by (simp add: num_tmp.simps num_value_def)
  next
    case False
    with 1 have "num_value (digit_table b) base (rev (num_tmp (digit_table b) base (n div base))) = n div base"
      by simp
    moreover have "n mod base < 36"
      using 1(2,3) mod_less_divisor[of base n] by linarith
    ultimately show ?thesis
      using False 1(2) by (simp add: num_tmp.simps[of _ _ n] num_value_def digit_val_nth)
  qed
qed

lemma num_tmp_length: "2 \<le> base \<Longrightarrow> n < 2 ^ k \<Longrightarrow> length (num_tmp digits base n) \<le> k"
proof (induction k arbitrary: n)
  case 0
  then show ?case by (simp add: num_tmp.simps)
next
  case (Suc k)
  have "n div base \<le> n div 2" using Suc.prems(1) by (rule div_le_mono2[rotated]) simp
  also have "\<dots> < 2 ^ k" using Suc.prems(2) by auto
  finally have "length (num_tmp digits base (n div base)) \<le> k"
    using Suc by simp
  then show ?case by (simp add: num_tmp.simps[of _ _ n])
qed

lemma num_tmp_last:
  "2 \<le> base \<Longrightarrow> base \<le> 36 \<Longrightarrow> n \<noteq> 0 \<Longrightarrow> last (num_tmp (digit_table b) base n) \<noteq> CHR ''0''"
proof (induction "digit_table b" base n rule: num_tmp.induct)
  case (1 base n)
  show ?case
  proof (cases "n div base = 0")
    case True
    then have *: "n mod base = n" "n < base"
      using 1(2) by (auto simp: div_eq_0_iff)
    then have "digit_table b ! n \<noteq> digit_table b ! 0"
      using 1(2-4) by (subst nth_eq_iff_index_eq) auto
    with * True 1(2,4) show ?thesis
      by (simp add: num_tmp.simps[of _ _ n] num_tmp.simps[of _ _ 0])
  next
    case False
    with 1 show ?thesis
      by (auto simp: num_tmp.simps[of _ _ n] num_tmp.simps[of _ _ "n div base"])
  qed
qed

lemma num_tmp_nonempty: "2 \<le> base \<Longrightarrow> n \<noteq> 0 \<Longrightarrow> num_tmp digits base n \<noteq> []"
  by (simp add: num_tmp.simps)

section \<open>number\<close>

lemma length_number_sign: "length (number_sign w fl) = (if number_sign w fl = [] then 0 else 1)"
  by (simp add: number_sign_def)

lemma number_length:
  assumes "2 \<le> base" "base \<le> 36"
  shows "\<exists>t. number w base sz p fl = Some t \<and>
    int (length t) = max sz (int (length (number_sign w fl) + length (number_special base fl)) +
      max p (int (length (number_digits w base fl))))"
proof -
  define sg sp ds where d: "sg = number_sign w fl" "sp = number_special base fl" "ds = number_digits w base fl"
  have "length sg = (if sg = [] then 0 else 1)" by (simp add: d length_number_sign)
  then show ?thesis
    using assms by (auto simp: number_def emit_size_def Let_def d[symmetric] max_def)
qed

lemma number_plain:
  assumes "2 \<le> base" "base \<le> 36" and "ZEROPAD \<notin> fl" "LEFT \<notin> fl" "SPECIAL \<notin> fl"
  shows "number w base (- 1) (- 1) fl = Some (number_sign w fl @ rev (number_digits w base fl))"
proof -
  have "number_special base fl = []" using assms by (simp add: number_special_def)
  then show ?thesis
    using assms by (auto simp: number_def emit_size_def Let_def)
qed

lemma number_digits_props:
  assumes "2 \<le> base" "base \<le> 36"
  shows "num_value (digit_table (SMALL \<in> fl)) (nat base) (rev (number_digits w base fl)) =
      (if SIGN \<in> fl then nat \<bar>sint w\<bar> else unat w)"
    and "length (number_digits w base fl) \<le> 32"
    and "number_digits w base fl = ''0'' \<or> hd (rev (number_digits w base fl)) \<noteq> CHR ''0''"
proof -
  define num where "num = (if SIGN \<in> fl \<and> sint w < 0 then - w else w)"
  have ds: "number_digits w base fl =
      (if num = 0 then ''0'' else num_tmp (digit_table (SMALL \<in> fl)) (nat base) (unat num))"
    by (simp add: number_digits_def num_def Let_def)
  have b: "2 \<le> nat base" "nat base \<le> 36" using assms by auto
  have v: "unat num = (if SIGN \<in> fl then nat \<bar>sint w\<bar> else unat w)"
    by (cases "sint w < 0") (simp_all add: num_def unat_neg_nat unat_nonneg_nat)
  have "digit_val (digit_table b) CHR ''0'' = 0" for b
    using digit_val_nth[of "digit_table b" 0] by simp
  then show "num_value (digit_table (SMALL \<in> fl)) (nat base) (rev (number_digits w base fl)) =
      (if SIGN \<in> fl then nat \<bar>sint w\<bar> else unat w)"
    using num_value_tmp[OF b] v by (auto simp: ds num_value_def)
  have "unat num < 2 ^ 32" using unsigned_less[of num] by simp
  then show "length (number_digits w base fl) \<le> 32"
    using num_tmp_length[OF b(1)] by (simp add: ds)
  show "number_digits w base fl = ''0'' \<or> hd (rev (number_digits w base fl)) \<noteq> CHR ''0''"
    using num_tmp_last[OF b, of "unat num"] by (simp add: ds hd_rev unat_eq_zero)
qed

section \<open>Properties\<close>

text \<open>
  \<^verbatim>\<open>number\<close> in a base from 2 to 36 always produces a text; its length is the field width or, if
  that is more, the sign, the \<^verbatim>\<open>0x\<close> prefix and the digits padded to the precision. The digits
  themselves are at most 32, so the local array \<^verbatim>\<open>tmp[36]\<close> is never exceeded.
\<close>

lemma number_width:
  assumes "2 \<le> base" and "base \<le> 36"
  shows "\<exists>t. number w base field_width precision fl = Some t \<and>
    int (length t) = max field_width (int (length (number_sign w fl) + length (number_special base fl)) +
      max precision (int (length (number_digits w base fl)))) \<and>
    length (number_digits w base fl) \<le> 32"
  using number_length[OF assms] number_digits_props(2)[OF assms] by blast

lemma number_width_witness:
  "\<exists>t. number 255 16 8 (- 1) {ZEROPAD, SPECIAL} = Some t \<and>
    int (length t) = max 8 (int (length (number_sign 255 {ZEROPAD, SPECIAL}) +
      length (number_special 16 {ZEROPAD, SPECIAL})) +
      max (- 1) (int (length (number_digits 255 16 {ZEROPAD, SPECIAL})))) \<and>
    length (number_digits 255 16 {ZEROPAD, SPECIAL}) \<le> 32"
  by (rule number_width) simp_all



text \<open>
  A width given by an asterisk does not work: the argument is consumed but the format pointer
  stays on the asterisk, which is then printed as an unknown conversion, and the conversion letter
  behind it as plain text.
\<close>

lemma vsprintf_star_width:
  "vsprintf ''%*d'' (VInt width # args) = Some (''%*d'', [])"
  by (cases "sint width < 0")
    (simp_all add: vsprintf_def fmt_spec_def fmt_width_def fmt_precision_def fmt_qualifier_def
      fmt_conv_def fmt_number_def fmt_hd_def is_digit_def schar_def)

end
