(* ===== verification/Tty.thy ===== *)
theory Tty
  imports Vsprintf
begin

text \<open>
  The console driver \<^verbatim>\<open>src/drivers/tty/tty.c\<close>: the ring of screen lines a terminal writes into, the
  escape sequence parser, the copy of the visible lines to the video memory and the terminal's side
  of the keyboard buffer.

  The fields of \<^verbatim>\<open>struct _tty\<close> are those of the record \<open>tty\<close>. The cursor coordinates are signed
  C characters: an assignment converts with \<open>to_schar\<close>. An access to \<^verbatim>\<open>mem\<close> or \<^verbatim>\<open>escape_seq\<close> outside
  the array gives \<open>None\<close>.
\<close>

definition TTY_WIDTH :: nat where "TTY_WIDTH = 80"
definition TTY_HEIGHT :: nat where "TTY_HEIGHT = 25"
definition TTY_LINES :: nat where "TTY_LINES = 75"
definition TTY_ESCAPE_LEN :: nat where "TTY_ESCAPE_LEN = 128"
definition TTY_INBUF_LEN :: nat where "TTY_INBUF_LEN = 16"
definition NR_TTYS :: nat where "NR_TTYS = 4"
definition TTY_COL_BRIGHT :: uchar where "TTY_COL_BRIGHT = 8"
definition TTY_COL_FG_DEF :: uchar where "TTY_COL_FG_DEF = 7"
definition TTY_COL_BG_DEF :: uchar where "TTY_COL_BG_DEF = 0"

lemmas tty_consts = TTY_WIDTH_def TTY_HEIGHT_def TTY_LINES_def TTY_ESCAPE_LEN_def TTY_INBUF_LEN_def

record tty =
  is_esc :: bool
  show_cursor :: bool
  echo :: bool
  nr :: nat
  width :: nat
  height :: nat
  memlines :: nat
  viewln :: nat
  scrln :: nat
  esc_ind :: nat
  attr :: ushort
  mem :: "ushort list"
  in_s :: nat
  in_e :: nat
  cursor_x :: int
  cursor_y :: int
  saved_x :: int
  saved_y :: int
  input_buffer :: "ushort list"
  escape_seq :: "char list"

text \<open>Conversion to a signed 8-bit \<^verbatim>\<open>char\<close>, and the width of a \<^verbatim>\<open>USHORT\<close> counter.\<close>

definition to_schar :: "int \<Rightarrow> int" where
  "to_schar n = (n + 128) mod 256 - 128"

definition inc16 :: "nat \<Rightarrow> nat" where
  "inc16 n = Suc n mod 65536"

definition TTY_POS :: "tty \<Rightarrow> int \<Rightarrow> int \<Rightarrow> int" where
  "TTY_POS t x y =
     int (width t) *
       (int (scrln t) + y - (if int (scrln t) + y \<ge> int (memlines t) then int (memlines t) else 0)) + x"

definition TTY_ESCAPE_END :: "char \<Rightarrow> bool" where
  "TTY_ESCAPE_END c \<longleftrightarrow> schar c > 0x40 \<and> schar c < 0x7E"

definition TTY_ESCAPE_CHR :: "char \<Rightarrow> bool" where
  "TTY_ESCAPE_CHR c \<longleftrightarrow> TTY_ESCAPE_END c \<or> c = CHR '';'' \<or> c = CHR ''?'' \<or> is_digit c"

text \<open>Stores into the screen memory.\<close>

definition tty_store :: "tty \<Rightarrow> int \<Rightarrow> ushort \<Rightarrow> tty option" where
  "tty_store t pos v =
     (if 0 \<le> pos \<and> nat pos < length (mem t) then Some (t\<lparr>mem := (mem t)[nat pos := v]\<rparr>) else None)"

definition tty_memsetw :: "tty \<Rightarrow> int \<Rightarrow> ushort \<Rightarrow> int \<Rightarrow> tty option" where
  "tty_memsetw t pos v count =
     (if 0 \<le> pos \<and> 0 \<le> count then
        case memset (drop (nat pos) (mem t)) v (nat count) of
          None \<Rightarrow> None
        | Some r \<Rightarrow> if nat pos \<le> length (mem t) then Some (t\<lparr>mem := take (nat pos) (mem t) @ r\<rparr>) else None
      else None)"

section \<open>Numbers in escape sequences\<close>

fun atoi_loop :: "string \<Rightarrow> uint \<Rightarrow> uint" where
  "atoi_loop [] res = res"
| "atoi_loop (c # s) res =
     atoi_loop s (if is_digit c then 10 * res + word_of_int (schar c - schar CHR ''0'') else res)"

definition atoi :: "string \<Rightarrow> int" where
  "atoi s = sint (atoi_loop s 0)"

section \<open>Colours\<close>

definition ansi_col_map :: "uchar list" where
  "ansi_col_map = [0, 4, 2, 6, 1, 5, 3, 7]"

definition tty_select_graphic_rendition :: "tty \<Rightarrow> int \<Rightarrow> tty" where
  "tty_select_graphic_rendition t n =
    (let fg = ucast (drop_bit 8 (attr t) AND 0xFF) :: uchar;
         bg = ucast (drop_bit 12 (attr t) AND 0xFF) :: uchar;
         (fg', bg') =
           (if n = 0 then (TTY_COL_FG_DEF, TTY_COL_BG_DEF)
            else if n \<ge> 30 \<and> n \<le> 37 then (ansi_col_map ! nat (n - 30), bg)
            else if n = 39 then (TTY_COL_FG_DEF, bg)
            else if n \<ge> 40 \<and> n \<le> 47 then (fg, ansi_col_map ! nat (n - 40))
            else if n = 49 then (fg, TTY_COL_BG_DEF)
            else if n \<ge> 90 \<and> n \<le> 97 then (ansi_col_map ! nat (n - 90) OR TTY_COL_BRIGHT, bg)
            else if n = 99 then (TTY_COL_FG_DEF OR TTY_COL_BRIGHT, bg)
            else if n \<ge> 100 \<and> n \<le> 107 then (fg, ansi_col_map ! nat (n - 100) OR TTY_COL_BRIGHT)
            else if n = 109 then (fg, TTY_COL_BG_DEF OR TTY_COL_BRIGHT)
            else (fg, bg))
     in t\<lparr>attr := push_bit 12 (ucast bg') OR push_bit 8 (ucast fg')\<rparr>)"

text \<open>The loop of command \<^verbatim>\<open>m\<close>: one rendition per field between semicolons.\<close>

function tty_sgr :: "tty \<Rightarrow> string \<Rightarrow> tty" where
  "tty_sgr t params =
     (case strchr params CHR '';'' of
        None \<Rightarrow> tty_select_graphic_rendition t (atoi params)
      | Some sep \<Rightarrow> tty_sgr (tty_select_graphic_rendition t (atoi (take sep params))) (drop (Suc sep) params))"
  by pat_completeness auto
termination
  by (relation "measure (\<lambda>(t, p). length p)") (auto simp: strchr_Some)

declare tty_sgr.simps [simp del]

section \<open>Escape sequences\<close>

text \<open>The loops of \<^verbatim>\<open>J\<close>: whole lines from \<open>m\<close> on, \<open>k\<close> of them.\<close>

fun tty_clear_lines :: "nat \<Rightarrow> int \<Rightarrow> ushort \<Rightarrow> tty \<Rightarrow> tty option" where
  "tty_clear_lines 0 m v t = Some t"
| "tty_clear_lines (Suc k) m v t =
     Option.bind (tty_memsetw t (TTY_POS t 0 m) v (int (width t))) (tty_clear_lines k (m + 1) v)"

definition tty_erase :: "tty \<Rightarrow> int \<Rightarrow> bool \<Rightarrow> tty option" where
  "tty_erase t n whole =
    (let tmp = attr t OR 0x20; x = cursor_x t; y = cursor_y t in
     if n = 0 then do {
       t1 \<leftarrow> tty_memsetw t (TTY_POS t x y) tmp (int (width t) - x);
       if whole then tty_clear_lines (nat (int (height t) - (y + 1))) (y + 1) tmp t1 else Some t1
     }
     else if n = 1 then do {
       t1 \<leftarrow> tty_memsetw t (TTY_POS t 0 y) tmp (x + 1);
       if whole then tty_clear_lines (nat y) 0 tmp t1 else Some t1
     }
     else if n = 2 then
       (if whole then tty_clear_lines (height t) 0 tmp t
        else tty_memsetw t (TTY_POS t 0 y) tmp (int (width t)))
     else Some t)"

definition tty_up :: "tty \<Rightarrow> int \<Rightarrow> tty" where
  "tty_up t n = t\<lparr>cursor_y := (if n \<ge> cursor_y t then 0 else to_schar (cursor_y t - n))\<rparr>"

definition tty_down :: "tty \<Rightarrow> int \<Rightarrow> tty" where
  "tty_down t n =
     t\<lparr>cursor_y := to_schar (if cursor_y t + n \<ge> int (height t) then int (height t) - 1 else cursor_y t + n)\<rparr>"

definition tty_goto :: "tty \<Rightarrow> string \<Rightarrow> int \<Rightarrow> tty" where
  "tty_goto t params n0 =
    (let (n, m) =
       (case strchr params CHR '';'' of
          Some sep \<Rightarrow>
            (if take sep params = [] then 1 else atoi (take sep params),
             if drop (Suc sep) params = [] then 1 else atoi (drop (Suc sep) params))
        | None \<Rightarrow> (n0, 1));
         n' = (if n < 1 then 1 else if n > int (width t) then int (width t) else n);
         m' = (if m < 1 then 1 else if m > int (height t) then int (height t) else m)
     in t\<lparr>cursor_x := to_schar (n' - 1), cursor_y := to_schar (m' - 1)\<rparr>)"

definition tty_command :: "tty \<Rightarrow> string \<Rightarrow> char \<Rightarrow> tty option" where
  "tty_command t params cmd =
    (let n = (if params = [] then 1 else atoi params) in
     if cmd = CHR ''A'' then Some (tty_up t n)
     else if cmd = CHR ''B'' then Some (tty_down t n)
     else if cmd = CHR ''C'' then
       Some (t\<lparr>cursor_x := to_schar (if cursor_x t + n \<ge> int (width t) then int (width t) - 1 else cursor_x t + n)\<rparr>)
     else if cmd = CHR ''D'' then
       Some (t\<lparr>cursor_x := (if n \<ge> cursor_x t then 0 else to_schar (cursor_x t - n))\<rparr>)
     else if cmd = CHR ''E'' then Some ((tty_down t n)\<lparr>cursor_x := 0\<rparr>)
     else if cmd = CHR ''F'' then Some ((tty_up t n)\<lparr>cursor_x := 0\<rparr>)
     else if cmd = CHR ''G'' then
       Some (t\<lparr>cursor_x := to_schar ((if n = 0 then 1 else if n > int (width t) then int (width t) else n) - 1)\<rparr>)
     else if cmd = CHR ''H'' \<or> cmd = CHR ''f'' then Some (tty_goto t params n)
     else if cmd = CHR ''J'' \<or> cmd = CHR ''K'' then
       tty_erase t (if params = [] then 0 else n) (cmd = CHR ''J'')
     else if cmd = CHR ''m'' then Some (tty_sgr t params)
     else if cmd = CHR ''s'' then Some (t\<lparr>saved_x := cursor_x t, saved_y := cursor_y t\<rparr>)
     else if cmd = CHR ''u'' then Some (t\<lparr>cursor_x := saved_x t, cursor_y := saved_y t\<rparr>)
     else if cmd = CHR ''l'' then Some (if params = ''?25'' then t\<lparr>show_cursor := False\<rparr> else t)
     else if cmd = CHR ''h'' then Some (if params = ''?25'' then t\<lparr>show_cursor := True\<rparr> else t)
     else if cmd = CHR ''e'' then Some (t\<lparr>echo := (n \<noteq> 0)\<rparr>)
     else Some t)"

text \<open>\<^verbatim>\<open>tty_interpret_escape\<close>: the last character is the command, it is replaced by a terminator.
  (The commands with two parameters also overwrite the separator in the escape buffer; the buffer is
  cleared before it is read again, so that store is left out.)\<close>

definition tty_interpret_escape :: "tty \<Rightarrow> tty option" where
  "tty_interpret_escape t =
     (if esc_ind t < length (escape_seq t) then
        let cmd = escape_seq t ! esc_ind t;
            t1 = t\<lparr>escape_seq := (escape_seq t)[esc_ind t := NUL]\<rparr>
        in tty_command t1 (content (drop 1 (escape_seq t1))) cmd
      else None)"

section \<open>Writing\<close>

definition tty_esc_char :: "char \<Rightarrow> tty \<Rightarrow> tty option" where
  "tty_esc_char c t =
    (do {
       t1 \<leftarrow>
         (if esc_ind t = 0 then Some (if c \<noteq> CHR ''['' then t\<lparr>is_esc := False\<rparr> else t)
          else if esc_ind t \<ge> TTY_ESCAPE_LEN \<or> \<not> TTY_ESCAPE_CHR c then Some (t\<lparr>is_esc := False\<rparr>)
          else if esc_ind t < length (escape_seq t) then
            (let t2 = t\<lparr>escape_seq := (escape_seq t)[esc_ind t := c]\<rparr> in
             if TTY_ESCAPE_END c then tty_interpret_escape (t2\<lparr>is_esc := False\<rparr>) else Some t2)
          else None);
       Some (t1\<lparr>esc_ind := inc16 (esc_ind t1)\<rparr>)
     })"

definition tty_plain_char :: "char \<Rightarrow> tty \<Rightarrow> tty option" where
  "tty_plain_char c t =
    (if c = NUL then Some t
     else if c = CHR 0x08 then
       (let t1 = (if cursor_x t \<noteq> 0 then t\<lparr>cursor_x := to_schar (cursor_x t - 1)\<rparr> else t)
        in tty_store t1 (TTY_POS t1 (cursor_x t1) (cursor_y t1)) (attr t1 OR 0x20))
     else if c = CHR 0x09 then
       (let x = to_schar ((cursor_x t + 8) AND 0xF8)
        in Some (t\<lparr>cursor_x := (if x \<ge> int (width t) then to_schar (int (width t) - 1) else x)\<rparr>))
     else if c = CHR 0x0A then Some (t\<lparr>cursor_x := 0, cursor_y := to_schar (cursor_y t + 1)\<rparr>)
     else if c = CHR 0x0B \<or> c = CHR 0x0C then Some (t\<lparr>cursor_y := to_schar (cursor_y t + 1)\<rparr>)
     else if c = CHR 0x0D then Some (t\<lparr>cursor_x := 0\<rparr>)
     else if c = CHR 0x1B then
       Some (t\<lparr>is_esc := True, esc_ind := 0,
               escape_seq := CHR ''['' # replicate (TTY_ESCAPE_LEN - 1) NUL\<rparr>)
     else
       map_option (\<lambda>t1. t1\<lparr>cursor_x := to_schar (cursor_x t1 + 1)\<rparr>)
         (tty_store t (TTY_POS t (cursor_x t) (cursor_y t)) (attr t OR word_of_int (of_char c))))"

text \<open>The end of each round of the loop: wrap the line, scroll the screen.\<close>

definition tty_wrap :: "tty \<Rightarrow> tty" where
  "tty_wrap t =
     (if cursor_x t \<ge> int (width t) then t\<lparr>cursor_x := 0, cursor_y := to_schar (cursor_y t + 1)\<rparr> else t)"

definition tty_scroll :: "tty \<Rightarrow> tty option" where
  "tty_scroll t =
     (if cursor_y t = int (height t) then
        let s = inc16 (scrln t);
            s' = (if s = memlines t then 0 else s);
            t1 = t\<lparr>cursor_y := to_schar (cursor_y t - 1), scrln := s', viewln := s'\<rparr>
        in tty_memsetw t1 (TTY_POS t1 0 (int (height t1) - 1)) (attr t1 OR 0x20) (int (width t1))
      else Some t)"

definition tty_putc :: "char \<Rightarrow> tty \<Rightarrow> tty option" where
  "tty_putc c t =
     Option.bind (if is_esc t then tty_esc_char c t else tty_plain_char c t) (\<lambda>t1. tty_scroll (tty_wrap t1))"

fun tty_puts :: "string \<Rightarrow> tty \<Rightarrow> tty option" where
  "tty_puts [] t = Some t"
| "tty_puts (c # s) t = Option.bind (tty_putc c t) (tty_puts s)"

definition do_tty_write :: "tty \<Rightarrow> string \<Rightarrow> tty option" where
  "do_tty_write t buffer = tty_puts buffer (t\<lparr>viewln := scrln t\<rparr>)"

section \<open>The screen\<close>

text \<open>
  \<^verbatim>\<open>print_tty\<close>: the video memory after the copy. The line ring is copied in one piece, or in two
  when the window wraps around its end. \<^verbatim>\<open>tty_showcusor\<close> programs the cursor position.
\<close>

definition print_tty :: "tty \<Rightarrow> ushort list \<Rightarrow> ushort list option" where
  "print_tty t video =
     (let below = memlines t - viewln t in
      if below < height t then do {
        v1 \<leftarrow> memcpy video (drop (viewln t * width t) (mem t)) (below * width t);
        v2 \<leftarrow> memcpy (drop (below * width t) v1) (mem t) ((height t - below) * width t);
        Some (take (below * width t) v1 @ v2)
      }
      else memcpy video (drop (viewln t * width t) (mem t)) (height t * width t))"

definition tty_showcusor :: "tty \<Rightarrow> (ushort \<times> uchar) list" where
  "tty_showcusor t =
     (let pos = word_of_int (if show_cursor t \<and> viewln t = scrln t
                  then cursor_y t * int (width t) + cursor_x t else int (height t * width t)) :: ushort
      in [(0x3D4, 0x0F), (0x3D5, ucast (pos AND 0xFF)), (0x3D4, 0x0E), (0x3D5, ucast (drop_bit 8 pos))])"

section \<open>Creation and the input buffer\<close>

text \<open>\<^verbatim>\<open>create_tty\<close>; the fields it leaves uninitialised are arguments.\<close>

definition create_tty :: "nat \<Rightarrow> nat \<Rightarrow> ushort list \<Rightarrow> char list \<Rightarrow> tty" where
  "create_tty n ind inbuf esc =
     \<lparr>is_esc = False, show_cursor = False, echo = False, nr = n, width = TTY_WIDTH, height = TTY_HEIGHT,
      memlines = TTY_LINES, viewln = 0, scrln = 0, esc_ind = ind,
      attr = push_bit 12 (ucast TTY_COL_BG_DEF) OR push_bit 8 (ucast TTY_COL_FG_DEF),
      mem = replicate (TTY_WIDTH * TTY_LINES) 0, in_s = 0, in_e = 0, cursor_x = 0, cursor_y = 0,
      saved_x = 0, saved_y = 0, input_buffer = inbuf, escape_seq = esc\<rparr>"

text \<open>
  One round of \<^verbatim>\<open>tty_read\<close> with a non-empty buffer: the character and the terminal behind it (the
  echo goes through \<^verbatim>\<open>tty_write\<close>). With an empty buffer the loop spins, here \<open>None\<close>.
\<close>

definition tty_read_char :: "tty \<Rightarrow> (char \<times> tty) option" where
  "tty_read_char t =
     (if in_e t \<noteq> in_s t \<and> in_s t < length (input_buffer t) then do {
        let c = char_of (uint (input_buffer t ! in_s t));
        let t1 = t\<lparr>in_s := inc16 (in_s t)\<rparr>;
        t2 \<leftarrow> (if echo t1 then do_tty_write t1 [c] else Some t1);
        Some (c, if in_s t2 = TTY_INBUF_LEN then t2\<lparr>in_s := 0\<rparr> else t2)
      } else None)"

fun tty_read :: "nat \<Rightarrow> tty \<Rightarrow> (string \<times> tty) option" where
  "tty_read 0 t = Some ([], t)"
| "tty_read (Suc n) t = do {
     (c, t1) \<leftarrow> tty_read_char t;
     (s, t2) \<leftarrow> tty_read n t1;
     Some (c # s, t2)
   }"

text \<open>The buffer's other end, in \<^verbatim>\<open>irq_tty_keyboard\<close> of \<^verbatim>\<open>kbd.c\<close>: store, and drop the oldest when full.\<close>

definition tty_input :: "ushort \<Rightarrow> tty \<Rightarrow> tty option" where
  "tty_input key t =
     (if in_e t < length (input_buffer t) then
        let t1 = t\<lparr>input_buffer := (input_buffer t)[in_e t := key], in_e := inc16 (in_e t)\<rparr>;
            t2 = (if in_e t1 = TTY_INBUF_LEN then t1\<lparr>in_e := 0\<rparr> else t1);
            t3 = (if in_e t2 = in_s t2 then
                    (let s = inc16 (in_s t2) in t2\<lparr>in_s := (if s = TTY_INBUF_LEN then 0 else s)\<rparr>)
                  else t2)
        in Some t3
      else None)"

section \<open>Shape and bounds\<close>

text \<open>What no operation changes, and the bounds that make every access fall inside the arrays.\<close>

definition tty_shape :: "tty \<Rightarrow> bool" where
  "tty_shape t \<longleftrightarrow> width t = 80 \<and> height t = 25 \<and> memlines t = 75 \<and> length (mem t) = 6000 \<and>
     scrln t < 75 \<and> viewln t < 75 \<and> length (escape_seq t) = 128 \<and> (is_esc t \<longrightarrow> esc_ind t \<le> 128) \<and>
     0 \<le> saved_x t \<and> saved_x t < 80 \<and> 0 \<le> saved_y t \<and> saved_y t < 25"

definition tty_inv :: "tty \<Rightarrow> bool" where
  "tty_inv t \<longleftrightarrow> tty_shape t \<and> 0 \<le> cursor_x t \<and> cursor_x t < 80 \<and> 0 \<le> cursor_y t \<and> cursor_y t < 25"

text \<open>Between the character and the wrapping: the cursor may stand behind the line or the screen.\<close>

definition tty_mid :: "tty \<Rightarrow> bool" where
  "tty_mid t \<longleftrightarrow> tty_shape t \<and> 0 \<le> cursor_x t \<and> 0 \<le> cursor_y t \<and>
     (cursor_x t \<le> 80 \<and> cursor_y t < 25 \<or> cursor_x t < 80 \<and> cursor_y t \<le> 25)"

definition esc_digits :: "tty \<Rightarrow> nat" where
  "esc_digits t = length (filter is_digit (escape_seq t))"

lemma to_schar_id [simp]: "- 128 \<le> n \<Longrightarrow> n < 128 \<Longrightarrow> to_schar n = n"
  by (simp add: to_schar_def)

lemma tty_inv_mid: "tty_inv t \<Longrightarrow> tty_mid t"
  by (simp add: tty_inv_def tty_mid_def)

lemma TTY_POS_bounds:
  assumes "tty_shape t" "0 \<le> x" "0 \<le> y" "y < 25"
  shows "0 \<le> TTY_POS t x y" "TTY_POS t x y \<le> 5920 + x"
  using assms by (auto simp: TTY_POS_def tty_shape_def)

lemma tty_store_ok:
  assumes "0 \<le> pos" "pos < int (length (mem t))"
  shows "tty_store t pos v = Some (t\<lparr>mem := (mem t)[nat pos := v]\<rparr>)"
  using assms by (simp add: tty_store_def)

lemma tty_memsetw_ok:
  assumes "0 \<le> pos" "0 \<le> count" "pos + count \<le> int (length (mem t))"
  shows "tty_memsetw t pos v count =
    Some (t\<lparr>mem := take (nat pos) (mem t) @ replicate (nat count) v @ drop (nat pos + nat count) (mem t)\<rparr>)"
proof -
  have "nat pos + nat count \<le> length (mem t)" using assms by simp
  then have "nat count \<le> length (mem t) - nat pos" "nat pos \<le> length (mem t)" by auto
  with assms(1,2) show ?thesis by (simp add: tty_memsetw_def memset_eq add.commute)
qed

lemma tty_memsetw_ex:
  assumes "0 \<le> pos" "0 \<le> count" "pos + count \<le> int (length (mem t))"
  shows "\<exists>m. tty_memsetw t pos v count = Some (t\<lparr>mem := m\<rparr>) \<and> length m = length (mem t)"
proof -
  have "nat pos + nat count \<le> length (mem t)" using assms by simp
  then have "length (take (nat pos) (mem t) @ replicate (nat count) v @ drop (nat pos + nat count) (mem t)) =
      length (mem t)" by simp
  with tty_memsetw_ok[OF assms] show ?thesis by blast
qed

lemma tty_shape_mem [simp]: "length m = length (mem t) \<Longrightarrow> tty_shape (t\<lparr>mem := m\<rparr>) = tty_shape t"
  by (simp add: tty_shape_def)

lemma tty_inv_mem [simp]: "length m = length (mem t) \<Longrightarrow> tty_inv (t\<lparr>mem := m\<rparr>) = tty_inv t"
  by (simp add: tty_inv_def)

lemma tty_shape_cursor [simp]:
  "tty_shape (t\<lparr>cursor_x := x\<rparr>) = tty_shape t" "tty_shape (t\<lparr>cursor_y := y\<rparr>) = tty_shape t"
  "tty_shape (t\<lparr>attr := a\<rparr>) = tty_shape t" "tty_shape (t\<lparr>show_cursor := b\<rparr>) = tty_shape t"
  "tty_shape (t\<lparr>echo := b\<rparr>) = tty_shape t"
  by (simp_all add: tty_shape_def)

lemma esc_digits_frame [simp]:
  "esc_digits (t\<lparr>cursor_x := x\<rparr>) = esc_digits t" "esc_digits (t\<lparr>cursor_y := y\<rparr>) = esc_digits t"
  "esc_digits (t\<lparr>mem := m\<rparr>) = esc_digits t" "esc_digits (t\<lparr>viewln := v\<rparr>) = esc_digits t"
  "esc_digits (t\<lparr>scrln := v\<rparr>) = esc_digits t" "esc_digits (t\<lparr>is_esc := b\<rparr>) = esc_digits t"
  "esc_digits (t\<lparr>esc_ind := i\<rparr>) = esc_digits t"
  by (simp_all add: esc_digits_def)

section \<open>Numbers\<close>

lemma is_digit_val: "is_digit c \<Longrightarrow> 0 \<le> schar c - schar CHR ''0'' \<and> schar c - schar CHR ''0'' \<le> 9"
  by (simp add: is_digit_def schar_def)

lemma atoi_loop_bound:
  "uint res < 10 ^ k \<Longrightarrow> k + length (filter is_digit s) \<le> 9 \<Longrightarrow>
     uint (atoi_loop s res) < 10 ^ (k + length (filter is_digit s))"
proof (induction s arbitrary: res k)
  case Nil
  then show ?case by simp
next
  case (Cons c s)
  show ?case
  proof (cases "is_digit c")
    case True
    let ?d = "schar c - schar CHR ''0''"
    let ?r = "10 * res + word_of_int ?d :: uint"
    have d: "0 \<le> ?d" "?d \<le> 9" using is_digit_val[OF True] by auto
    have k: "k \<le> 8" using Cons.prems(2) True by simp
    have p: "(10::int) ^ Suc k \<le> 10 ^ 9" using k by (intro power_increasing) auto
    have b: "10 * uint res + ?d < 10 ^ Suc k" using Cons.prems(1) d by simp
    have "uint ?r = (10 * uint res + ?d) mod 2 ^ 32"
      by (simp add: uint_word_ariths uint_word_of_int mod_simps)
    also have "\<dots> = 10 * uint res + ?d"
      using b d p by (intro mod_pos_pos_trivial) auto
    finally have "uint ?r < 10 ^ Suc k" using b by simp
    from Cons.IH[OF this] Cons.prems(2) True show ?thesis by simp
  next
    case False
    with Cons show ?thesis by simp
  qed
qed

lemma atoi_bound:
  assumes "length (filter is_digit s) \<le> 9"
  shows "0 \<le> atoi s" "atoi s < 10 ^ 9"
proof -
  have "uint (atoi_loop s 0) < 10 ^ (0 + length (filter is_digit s))"
    using atoi_loop_bound[of 0 0 s] assms by simp
  also have "\<dots> \<le> 10 ^ 9" using assms by (intro power_increasing) auto
  finally have "uint (atoi_loop s 0) < 10 ^ 9" .
  then show "0 \<le> atoi s" "atoi s < 10 ^ 9" by (auto simp: atoi_def sint_uint32)
qed

section \<open>Safety of the commands\<close>

lemma tty_sgr_frame: "\<exists>a. tty_sgr t params = t\<lparr>attr := a\<rparr>"
proof (induction t params rule: tty_sgr.induct)
  case (1 t params)
  have r: "\<exists>a. tty_select_graphic_rendition t n = t\<lparr>attr := a\<rparr>" for n
    unfolding tty_select_graphic_rendition_def Let_def split_def by (rule exI, rule refl)
  show ?case
  proof (cases "strchr params CHR '';''")
    case None
    with r show ?thesis by (simp add: tty_sgr.simps[of t params])
  next
    case (Some sep)
    obtain a where "tty_select_graphic_rendition t (atoi (take sep params)) = t\<lparr>attr := a\<rparr>"
      using r by blast
    with 1[OF Some] Some show ?thesis by (auto simp: tty_sgr.simps[of t params])
  qed
qed

lemma tty_clear_lines_ok:
  "tty_shape t \<Longrightarrow> 0 \<le> m \<Longrightarrow> m + int k \<le> 25 \<Longrightarrow>
     \<exists>r. tty_clear_lines k m v t = Some (t\<lparr>mem := r\<rparr>) \<and> length r = length (mem t)"
proof (induction k arbitrary: m t)
  case 0
  then show ?case by (intro exI[of _ "mem t"]) simp
next
  case (Suc k)
  have "0 \<le> TTY_POS t 0 m" "TTY_POS t 0 m \<le> 5920"
    using TTY_POS_bounds[of t 0 m] Suc.prems by auto
  then obtain r where r: "tty_memsetw t (TTY_POS t 0 m) v (int (width t)) = Some (t\<lparr>mem := r\<rparr>)"
      "length r = length (mem t)"
    using tty_memsetw_ex[of "TTY_POS t 0 m" "int (width t)" t v] Suc.prems by (auto simp: tty_shape_def)
  obtain r' where "tty_clear_lines k (m + 1) v (t\<lparr>mem := r\<rparr>) = Some (t\<lparr>mem := r'\<rparr>)" "length r' = length r"
    using Suc.IH[of "t\<lparr>mem := r\<rparr>" "m + 1"] Suc.prems r by auto
  with r show ?case by auto
qed

lemma tty_erase_ok:
  assumes "tty_inv t"
  shows "\<exists>r. tty_erase t n whole = Some (t\<lparr>mem := r\<rparr>) \<and> length r = length (mem t)"
proof -
  let ?x = "cursor_x t" and ?y = "cursor_y t" and ?v = "attr t OR 0x20"
  have sh: "tty_shape t" and b: "0 \<le> ?x" "?x < 80" "0 \<le> ?y" "?y < 25"
    and w: "width t = 80" "height t = 25" "length (mem t) = 6000"
    using assms by (auto simp: tty_inv_def tty_shape_def)
  have cl: "\<exists>r'. tty_clear_lines k m ?v (t\<lparr>mem := r\<rparr>) = Some (t\<lparr>mem := r'\<rparr>) \<and> length r' = length (mem t)"
    if "length r = length (mem t)" "0 \<le> m" "m + int k \<le> 25" for k m r
    using tty_clear_lines_ok[of "t\<lparr>mem := r\<rparr>" m k ?v] that sh by auto
  have pos: "0 \<le> TTY_POS t x ?y" "TTY_POS t x ?y \<le> 5920 + x" if "0 \<le> x" for x
    using TTY_POS_bounds[OF sh that b(3,4)] by auto
  obtain r0 where r0: "tty_memsetw t (TTY_POS t ?x ?y) ?v (80 - ?x) = Some (t\<lparr>mem := r0\<rparr>)"
      "length r0 = length (mem t)"
    using tty_memsetw_ex[of "TTY_POS t ?x ?y" "80 - ?x" t ?v] pos[of ?x] b w by auto
  obtain r1 where r1: "tty_memsetw t (TTY_POS t 0 ?y) ?v (?x + 1) = Some (t\<lparr>mem := r1\<rparr>)"
      "length r1 = length (mem t)"
    using tty_memsetw_ex[of "TTY_POS t 0 ?y" "?x + 1" t ?v] pos[of 0] b w by auto
  obtain r2 where r2: "tty_memsetw t (TTY_POS t 0 ?y) ?v 80 = Some (t\<lparr>mem := r2\<rparr>)"
      "length r2 = length (mem t)"
    using tty_memsetw_ex[of "TTY_POS t 0 ?y" 80 t ?v] pos[of 0] w by auto
  have c0: "\<exists>r'. tty_clear_lines (nat (25 - (?y + 1))) (?y + 1) ?v (t\<lparr>mem := r0\<rparr>) = Some (t\<lparr>mem := r'\<rparr>) \<and>
      length r' = length (mem t)"
    using cl[OF r0(2), of "?y + 1" "nat (25 - (?y + 1))"] b by auto
  have c1: "\<exists>r'. tty_clear_lines (nat ?y) 0 ?v (t\<lparr>mem := r1\<rparr>) = Some (t\<lparr>mem := r'\<rparr>) \<and>
      length r' = length (mem t)"
    using cl[OF r1(2), of 0 "nat ?y"] b by auto
  have c2: "\<exists>r'. tty_clear_lines 25 0 ?v t = Some (t\<lparr>mem := r'\<rparr>) \<and> length r' = length (mem t)"
    using tty_clear_lines_ok[OF sh, of 0 25 ?v] by auto
  consider "n = 0" "whole" | "n = 0" "\<not> whole" | "n = 1" "whole" | "n = 1" "\<not> whole"
    | "n = 2" "whole" | "n = 2" "\<not> whole" | "n \<noteq> 0" "n \<noteq> 1" "n \<noteq> 2" by blast
  then show ?thesis
  proof cases
    case 1
    with r0(1) c0 show ?thesis by (simp add: tty_erase_def w Let_def)
  next
    case 2
    with r0 show ?thesis unfolding tty_erase_def by (intro exI[of _ r0]) (simp add: w)
  next
    case 3
    with r1(1) c1 show ?thesis by (simp add: tty_erase_def w)
  next
    case 4
    with r1 show ?thesis unfolding tty_erase_def by (intro exI[of _ r1]) (simp add: w)
  next
    case 5
    with c2 show ?thesis by (simp add: tty_erase_def w)
  next
    case 6
    with r2 show ?thesis unfolding tty_erase_def by (intro exI[of _ r2]) (simp add: w)
  next
    case 7
    then show ?thesis unfolding tty_erase_def by (intro exI[of _ "mem t"]) simp
  qed
qed


text \<open>The parser's part of the state, which no command touches.\<close>

definition same_esc :: "tty \<Rightarrow> tty \<Rightarrow> bool" where
  "same_esc t t' \<longleftrightarrow> is_esc t' = is_esc t \<and> escape_seq t' = escape_seq t \<and> esc_ind t' = esc_ind t"

definition cmd_ok :: "tty \<Rightarrow> tty \<Rightarrow> bool" where
  "cmd_ok t t' \<longleftrightarrow> tty_inv t' \<and> same_esc t t'"

lemma cmd_ok_cursor:
  assumes "tty_inv t" "0 \<le> x" "x < 80" "0 \<le> y" "y < 25"
  shows "cmd_ok t (t\<lparr>cursor_x := x, cursor_y := y\<rparr>)"
  using assms by (simp add: cmd_ok_def tty_inv_def same_esc_def)

lemma cmd_ok_x: "tty_inv t \<Longrightarrow> 0 \<le> x \<Longrightarrow> x < 80 \<Longrightarrow> cmd_ok t (t\<lparr>cursor_x := x\<rparr>)"
  by (simp add: cmd_ok_def tty_inv_def same_esc_def)

lemma cmd_ok_y: "tty_inv t \<Longrightarrow> 0 \<le> y \<Longrightarrow> y < 25 \<Longrightarrow> cmd_ok t (t\<lparr>cursor_y := y\<rparr>)"
  by (simp add: cmd_ok_def tty_inv_def same_esc_def)

lemma cmd_ok_line_start: "cmd_ok t t' \<Longrightarrow> cmd_ok t (t'\<lparr>cursor_x := 0\<rparr>)"
  by (simp add: cmd_ok_def tty_inv_def same_esc_def)

lemma tty_up_ok: "tty_inv t \<Longrightarrow> 0 \<le> n \<Longrightarrow> cmd_ok t (tty_up t n)"
  unfolding tty_up_def by (rule cmd_ok_y) (auto simp: tty_inv_def)

lemma tty_down_ok: "tty_inv t \<Longrightarrow> 0 \<le> n \<Longrightarrow> cmd_ok t (tty_down t n)"
  unfolding tty_down_def by (rule cmd_ok_y) (auto simp: tty_inv_def tty_shape_def)

lemma tty_goto_ok: "tty_inv t \<Longrightarrow> cmd_ok t (tty_goto t params n)"
  unfolding tty_goto_def Let_def split_def by (rule cmd_ok_cursor) (auto simp: tty_inv_def tty_shape_def)

lemma tty_sgr_ok: "tty_inv t \<Longrightarrow> cmd_ok t (tty_sgr t params)"
  using tty_sgr_frame[of t params] by (auto simp: cmd_ok_def tty_inv_def same_esc_def)

lemma tty_erase_cmd_ok: "tty_inv t \<Longrightarrow> \<exists>t'. tty_erase t n whole = Some t' \<and> cmd_ok t t'"
  using tty_erase_ok[of t n whole] by (auto simp: cmd_ok_def same_esc_def)

lemma tty_modes_ok:
  assumes "tty_inv t"
  shows "cmd_ok t t" "cmd_ok t (t\<lparr>saved_x := cursor_x t, saved_y := cursor_y t\<rparr>)"
    "cmd_ok t (t\<lparr>show_cursor := b\<rparr>)" "cmd_ok t (t\<lparr>echo := b\<rparr>)"
    "cmd_ok t (t\<lparr>cursor_x := saved_x t, cursor_y := saved_y t\<rparr>)"
  using assms by (simp_all add: cmd_ok_def tty_inv_def tty_shape_def same_esc_def)

lemma tty_command_ok:
  assumes inv: "tty_inv t" and digits: "length (filter is_digit params) \<le> 9"
  shows "\<exists>t'. tty_command t params cmd = Some t' \<and> cmd_ok t t'"
proof -
  have n: "0 \<le> atoi params" using atoi_bound[OF digits] by simp
  have c: "0 \<le> cursor_x t" "cursor_x t < 80" "width t = 80"
    using inv by (auto simp: tty_inv_def tty_shape_def)
  have right: "cmd_ok t (t\<lparr>cursor_x := to_schar (if cursor_x t + n \<ge> int (width t) then int (width t) - 1 else cursor_x t + n)\<rparr>)"
    if "0 \<le> n" for n using c that by (intro cmd_ok_x inv) auto
  have left: "cmd_ok t (t\<lparr>cursor_x := (if n \<ge> cursor_x t then 0 else to_schar (cursor_x t - n))\<rparr>)"
    if "0 \<le> n" for n using c that by (intro cmd_ok_x inv) auto
  have column: "cmd_ok t (t\<lparr>cursor_x := to_schar ((if n = 0 then 1 else if n > int (width t) then int (width t) else n) - 1)\<rparr>)"
    if "0 \<le> n" for n using c that by (intro cmd_ok_x inv) auto
  let ?n = "if params = [] then 1 else atoi params"
  have n': "0 \<le> ?n" using n by simp
  note ok = tty_up_ok[OF inv n'] tty_down_ok[OF inv n'] right[OF n'] left[OF n'] column[OF n']
    tty_goto_ok[OF inv] tty_sgr_ok[OF inv] tty_modes_ok[OF inv]
    cmd_ok_line_start[OF tty_up_ok[OF inv n']] cmd_ok_line_start[OF tty_down_ok[OF inv n']]
  define P where "P r \<longleftrightarrow> (\<exists>t'. r = Some t' \<and> cmd_ok t t')" for r
  have P_if: "P (if b then r else r') \<longleftrightarrow> (b \<longrightarrow> P r) \<and> (\<not> b \<longrightarrow> P r')" for b r r' by simp
  have P_Some: "P (Some t') \<longleftrightarrow> cmd_ok t t'" for t' by (simp add: P_def)
  have P_erase: "P (tty_erase t k whole)" for k whole using tty_erase_cmd_ok[OF inv] by (simp add: P_def)
  have "P (tty_command t params cmd)"
    unfolding tty_command_def Let_def P_if P_Some
    by (intro conjI impI ok P_erase) (simp_all only: ok if_split simp_thms)
  then show ?thesis by (simp only: P_def)
qed

section \<open>Safety of a write\<close>

text \<open>
  The number of digits an escape sequence may hold: \<open>None\<close> outside a sequence, \<open>Some k\<close> after \<open>k\<close>
  digits of one. Nine digits keep \<^verbatim>\<open>atoi\<close> from overflowing.
\<close>

fun few_digits :: "nat option \<Rightarrow> string \<Rightarrow> bool" where
  "few_digits k [] = True"
| "few_digits None (c # s) = few_digits (if c = CHR 0x1B then Some 0 else None) s"
| "few_digits (Some k) (c # s) =
     (if c = CHR 0x1B then few_digits (Some 0) s
      else if is_digit c then k < 9 \<and> few_digits (Some (Suc k)) s
      else if c = CHR '';'' \<or> c = CHR ''?'' \<or> c = CHR ''['' then few_digits (Some k) s
      else few_digits None s)"

text \<open>The parser's state agrees with such a count.\<close>

definition esc_count :: "nat option \<Rightarrow> tty \<Rightarrow> bool" where
  "esc_count k t \<longleftrightarrow> (is_esc t \<longrightarrow> (\<exists>n. k = Some n \<and> n \<le> 9 \<and> esc_digits t \<le> n))"

lemma filter_list_update:
  "length (filter P (xs[i := v])) \<le> length (filter P xs) + (if P v then 1 else 0)"
proof (induction xs arbitrary: i)
  case (Cons x xs)
  show ?case
  proof (cases i)
    case 0
    then show ?thesis by simp
  next
    case (Suc j)
    then show ?thesis using Cons[of j] by (simp split: if_splits)
  qed
qed simp

lemma filter_content: "length (filter P (content xs)) \<le> length (filter P xs)"
  unfolding content_def by (induction xs) auto

lemma filter_drop: "length (filter P (drop n xs)) \<le> length (filter P xs)"
proof -
  have "filter P xs = filter P (take n xs) @ filter P (drop n xs)"
    by (metis append_take_drop_id filter_append)
  then show ?thesis by simp
qed

lemma not_digit_NUL [simp]: "\<not> is_digit NUL"
  by (simp add: is_digit_def schar_def)

lemma tty_interpret_escape_ok:
  assumes inv: "tty_inv t" and i: "esc_ind t < 128" and d: "esc_digits t \<le> 9"
  shows "\<exists>t'. tty_interpret_escape t = Some t' \<and> tty_inv t' \<and> is_esc t' = is_esc t \<and> esc_ind t' = esc_ind t"
proof -
  let ?t = "t\<lparr>escape_seq := (escape_seq t)[esc_ind t := NUL]\<rparr>"
  have inv1: "tty_inv ?t" using inv by (simp add: tty_inv_def tty_shape_def)
  have "length (filter is_digit (content (drop 1 (escape_seq ?t)))) \<le> length (filter is_digit (escape_seq ?t))"
    using filter_content filter_drop le_trans by blast
  also have "\<dots> \<le> esc_digits t"
    using filter_list_update[of is_digit "escape_seq t" "esc_ind t" NUL] by (simp add: esc_digits_def)
  finally have "length (filter is_digit (content (drop 1 (escape_seq ?t)))) \<le> 9" using d by simp
  from tty_command_ok[OF inv1 this, of "escape_seq t ! esc_ind t"]
  show ?thesis using inv i by (auto simp: tty_interpret_escape_def Let_def cmd_ok_def same_esc_def tty_inv_def tty_shape_def)
qed

lemma tty_shape_noesc:
  "tty_shape t \<Longrightarrow> tty_shape (t\<lparr>is_esc := False\<rparr>)" "tty_shape t \<Longrightarrow> length e = 128 \<Longrightarrow> tty_shape (t\<lparr>escape_seq := e\<rparr>)"
  "tty_shape t \<Longrightarrow> \<not> is_esc t \<or> i \<le> 128 \<Longrightarrow> tty_shape (t\<lparr>esc_ind := i\<rparr>)"
  by (auto simp: tty_shape_def)

lemma tty_inv_noesc:
  "tty_inv t \<Longrightarrow> tty_inv (t\<lparr>is_esc := False\<rparr>)" "tty_inv t \<Longrightarrow> length e = 128 \<Longrightarrow> tty_inv (t\<lparr>escape_seq := e\<rparr>)"
  "tty_inv t \<Longrightarrow> \<not> is_esc t \<or> i \<le> 128 \<Longrightarrow> tty_inv (t\<lparr>esc_ind := i\<rparr>)"
  by (simp_all add: tty_inv_def tty_shape_noesc)

fun next_count :: "nat option \<Rightarrow> char \<Rightarrow> nat option" where
  "next_count None c = (if c = CHR 0x1B then Some 0 else None)"
| "next_count (Some k) c =
     (if c = CHR 0x1B then Some 0 else if is_digit c then Some (Suc k)
      else if c = CHR '';'' \<or> c = CHR ''?'' \<or> c = CHR ''['' then Some k else None)"

lemma not_digit_ESC [simp]: "\<not> is_digit CHR 0x1B"
  by (simp add: is_digit_def schar_def)

lemma few_digits_next: "few_digits k (c # s) \<Longrightarrow> few_digits (next_count k c) s"
  by (cases k) (simp_all split: if_splits)

lemma few_digits_digit: "few_digits (Some n) (c # s) \<Longrightarrow> is_digit c \<Longrightarrow> n < 9"
  by (cases "c = CHR 0x1B") simp_all

lemma tty_esc_char_ok:
  assumes inv: "tty_inv t" and e: "is_esc t" and k: "esc_count k t" and f: "few_digits k (c # s)"
  shows "\<exists>t'. tty_esc_char c t = Some t' \<and> tty_inv t' \<and> esc_count (next_count k c) t'"
proof -
  obtain n where n: "k = Some n" "n \<le> 9" "esc_digits t \<le> n" using k e by (auto simp: esc_count_def)
  have len: "length (escape_seq t) = 128" "esc_ind t \<le> 128" using inv e by (auto simp: tty_inv_def tty_shape_def)
  have i16: "inc16 (esc_ind t) = Suc (esc_ind t)" using len by (simp add: inc16_def)
  consider (first) "esc_ind t = 0" "c \<noteq> CHR ''[''" | (bracket) "esc_ind t = 0" "c = CHR ''[''"
    | (stop) "esc_ind t \<noteq> 0" "esc_ind t \<ge> 128 \<or> \<not> TTY_ESCAPE_CHR c"
    | (final) "esc_ind t \<noteq> 0" "esc_ind t < 128" "TTY_ESCAPE_END c"
    | (param) "esc_ind t \<noteq> 0" "esc_ind t < 128" "TTY_ESCAPE_CHR c" "\<not> TTY_ESCAPE_END c"
    unfolding TTY_ESCAPE_CHR_def by linarith
  then show ?thesis
  proof cases
    case first
    then show ?thesis using inv
      by (auto simp: tty_esc_char_def esc_count_def inc16_def intro!: tty_inv_noesc)
  next
    case bracket
    then show ?thesis using inv n
      by (auto simp: tty_esc_char_def esc_count_def inc16_def is_digit_def schar_def intro!: tty_inv_noesc)
  next
    case stop
    then show ?thesis using inv
      by (auto simp: tty_esc_char_def esc_count_def TTY_ESCAPE_LEN_def intro!: tty_inv_noesc)
  next
    case final
    let ?t = "t\<lparr>escape_seq := (escape_seq t)[esc_ind t := c], is_esc := False\<rparr>"
    have nd: "\<not> is_digit c" using final(3) by (simp add: TTY_ESCAPE_END_def is_digit_def schar_def)
    have "esc_digits ?t \<le> 9"
      using filter_list_update[of is_digit "escape_seq t" "esc_ind t" c] nd n by (simp add: esc_digits_def)
    moreover have "tty_inv ?t" using inv len by (intro tty_inv_noesc) simp_all
    ultimately obtain t' where "tty_interpret_escape ?t = Some t'" "tty_inv t'" "\<not> is_esc t'"
      using tty_interpret_escape_ok[of ?t] final by auto
    then show ?thesis using final len
      by (auto simp: tty_esc_char_def esc_count_def TTY_ESCAPE_LEN_def TTY_ESCAPE_CHR_def intro!: tty_inv_noesc)
  next
    case param
    let ?t = "t\<lparr>escape_seq := (escape_seq t)[esc_ind t := c]\<rparr>"
    have "tty_inv ?t" using inv len by (intro tty_inv_noesc) simp_all
    then have "tty_inv (?t\<lparr>esc_ind := Suc (esc_ind t)\<rparr>)" using param(2) by (intro tty_inv_noesc(3)) simp_all
    moreover have "esc_count (next_count k c) (?t\<lparr>esc_ind := Suc (esc_ind t)\<rparr>)"
      using filter_list_update[of is_digit "escape_seq t" "esc_ind t" c] n param(3,4)
        few_digits_digit[of n c s] f
      by (auto simp: esc_count_def esc_digits_def TTY_ESCAPE_CHR_def is_digit_def schar_def split: if_splits)
    ultimately show ?thesis using param len i16
      by (simp add: tty_esc_char_def TTY_ESCAPE_LEN_def Let_def)
  qed
qed

lemma tab_stop:
  assumes "0 \<le> x" "x < 80"
  shows "0 \<le> ((x + 8) AND 0xF8 :: int)" "(x + 8) AND 0xF8 < (128 :: int)"
proof -
  show "0 \<le> ((x + 8) AND 0xF8 :: int)" by simp
  have "(x + 8) AND 0xF8 \<le> x + 8" using assms by (intro AND_upper1) simp
  then show "(x + 8) AND 0xF8 < (128 :: int)" using assms by simp
qed

lemma tty_mid_mem [simp]: "length m = length (mem t) \<Longrightarrow> tty_mid (t\<lparr>mem := m\<rparr>) = tty_mid t"
  by (simp add: tty_mid_def)

lemma tty_mid_x: "tty_inv t \<Longrightarrow> 0 \<le> x \<Longrightarrow> x \<le> 80 \<Longrightarrow> tty_mid (t\<lparr>cursor_x := x\<rparr>)"
  by (simp add: tty_inv_def tty_mid_def)

lemma tty_mid_y: "tty_inv t \<Longrightarrow> 0 \<le> y \<Longrightarrow> y \<le> 25 \<Longrightarrow> tty_mid (t\<lparr>cursor_y := y\<rparr>)"
  by (simp add: tty_inv_def tty_mid_def)

text \<open>Storing a printable character at the cursor.\<close>

lemma tty_store_cursor:
  assumes "tty_inv t"
  shows "\<exists>m. tty_store t (TTY_POS t (cursor_x t) (cursor_y t)) v = Some (t\<lparr>mem := m\<rparr>) \<and> length m = length (mem t)"
proof -
  let ?p = "TTY_POS t (cursor_x t) (cursor_y t)"
  have "0 \<le> ?p" "?p < int (length (mem t))"
    using TTY_POS_bounds[of t "cursor_x t" "cursor_y t"] assms by (auto simp: tty_inv_def tty_shape_def)
  from tty_store_ok[OF this, of v] show ?thesis by (intro exI[of _ "(mem t)[nat ?p := v]"]) simp
qed

definition TTY_CONTROL :: "char set" where
  "TTY_CONTROL = {NUL, CHR 0x08, CHR 0x09, CHR 0x0A, CHR 0x0B, CHR 0x0C, CHR 0x0D, CHR 0x1B}"

lemma tty_plain_printable:
  assumes "c \<notin> TTY_CONTROL"
  shows "tty_plain_char c t =
       map_option (\<lambda>t1. t1\<lparr>cursor_x := to_schar (cursor_x t1 + 1)\<rparr>)
         (tty_store t (TTY_POS t (cursor_x t) (cursor_y t)) (attr t OR word_of_int (of_char c)))"
  using assms by (simp add: tty_plain_char_def TTY_CONTROL_def)

definition plain_ok :: "nat option \<Rightarrow> tty \<Rightarrow> bool" where
  "plain_ok k t' \<longleftrightarrow> tty_mid t' \<and> esc_count k t'"

lemma tty_backspace_ok:
  assumes inv: "tty_inv t" and e: "\<not> is_esc t"
  shows "\<exists>t'. tty_plain_char CHR 0x08 t = Some t' \<and> plain_ok k t'"
proof -
  let ?t = "if cursor_x t \<noteq> 0 then t\<lparr>cursor_x := to_schar (cursor_x t - 1)\<rparr> else t"
  have i: "tty_inv ?t" "\<not> is_esc ?t" using inv e by (auto simp: tty_inv_def)
  obtain m where "tty_store ?t (TTY_POS ?t (cursor_x ?t) (cursor_y ?t)) (attr ?t OR 0x20) = Some (?t\<lparr>mem := m\<rparr>)"
      "length m = length (mem ?t)"
    using tty_store_cursor[OF i(1)] by blast
  moreover from this have "plain_ok k (?t\<lparr>mem := m\<rparr>)"
    using tty_inv_mid[OF i(1)] i(2) by (simp add: plain_ok_def esc_count_def)
  ultimately show ?thesis by (simp add: tty_plain_char_def Let_def)
qed

lemma tty_printable_ok:
  assumes inv: "tty_inv t" and e: "\<not> is_esc t" and c: "c \<notin> TTY_CONTROL"
  shows "\<exists>t'. tty_plain_char c t = Some t' \<and> plain_ok k t'"
proof -
  obtain m where m: "tty_store t (TTY_POS t (cursor_x t) (cursor_y t)) (attr t OR word_of_int (of_char c)) =
      Some (t\<lparr>mem := m\<rparr>)" "length m = length (mem t)"
    using tty_store_cursor[OF inv] by blast
  have "0 \<le> cursor_x t" "cursor_x t < 80" using inv by (auto simp: tty_inv_def)
  then have "tty_mid ((t\<lparr>mem := m\<rparr>)\<lparr>cursor_x := to_schar (cursor_x t + 1)\<rparr>)"
    using inv m(2) by (intro tty_mid_x) simp_all
  with m e show ?thesis by (simp add: tty_plain_printable[OF c] plain_ok_def esc_count_def)
qed

lemma tty_motion_ok:
  assumes inv: "tty_inv t" and e: "\<not> is_esc t"
    and c: "c \<in> {NUL, CHR 0x09, CHR 0x0A, CHR 0x0B, CHR 0x0C, CHR 0x0D}"
  shows "\<exists>t'. tty_plain_char c t = Some t' \<and> plain_ok k t'"
proof -
  have b: "0 \<le> cursor_x t" "cursor_x t < 80" "0 \<le> cursor_y t" "cursor_y t < 25" "width t = 80"
    using inv by (auto simp: tty_inv_def tty_shape_def)
  have p: "plain_ok k t'" if "tty_mid t'" "is_esc t' = is_esc t" for t'
    using that e by (simp add: plain_ok_def esc_count_def)
  have tab: "plain_ok k (t\<lparr>cursor_x := (if x \<ge> int (width t) then to_schar (int (width t) - 1) else x)\<rparr>)"
    if "0 \<le> x" for x using b that by (intro p tty_mid_x inv) auto
  have nl: "plain_ok k (t\<lparr>cursor_y := to_schar (cursor_y t + 1)\<rparr>)"
    using b by (intro p tty_mid_y inv) auto
  have crnl: "plain_ok k (t\<lparr>cursor_x := 0, cursor_y := to_schar (cursor_y t + 1)\<rparr>)"
    using b inv by (intro p) (auto simp: tty_mid_def tty_inv_def)
  have cr: "plain_ok k (t\<lparr>cursor_x := 0\<rparr>)" by (intro p tty_mid_x inv) auto
  have nul: "plain_ok k t" by (intro p tty_inv_mid inv refl)
  have t: "0 \<le> to_schar ((cursor_x t + 8) AND 0xF8)"
    using tab_stop[OF b(1,2)] to_schar_id[of "(cursor_x t + 8) AND 0xF8"] by linarith
  have f: "\<exists>t'. r = Some t' \<and> plain_ok k t'" if "r = Some u" "plain_ok k u" for r u using that by blast
  consider "c = NUL" | "c = CHR 0x09" | "c = CHR 0x0A" | "c = CHR 0x0B" | "c = CHR 0x0C" | "c = CHR 0x0D"
    using c by blast
  then show ?thesis
  proof cases
    case 1 show ?thesis by (rule f[OF _ nul]) (simp add: tty_plain_char_def 1)
  next
    case 2 show ?thesis by (rule f[OF _ tab[OF t]]) (simp add: tty_plain_char_def Let_def 2)
  next
    case 3 show ?thesis by (rule f[OF _ crnl]) (simp add: tty_plain_char_def 3)
  next
    case 4 show ?thesis by (rule f[OF _ nl]) (simp add: tty_plain_char_def 4)
  next
    case 5 show ?thesis by (rule f[OF _ nl]) (simp add: tty_plain_char_def 5)
  next
    case 6 show ?thesis by (rule f[OF _ cr]) (simp add: tty_plain_char_def 6)
  qed
qed

lemma tty_escape_ok:
  assumes inv: "tty_inv t"
  shows "\<exists>t'. tty_plain_char CHR 0x1B t = Some t' \<and> plain_ok (Some 0) t'"
proof -
  let ?t = "t\<lparr>is_esc := True, esc_ind := 0, escape_seq := CHR ''['' # replicate (TTY_ESCAPE_LEN - 1) NUL\<rparr>"
  have "tty_mid ?t" using inv by (simp add: tty_mid_def tty_inv_def tty_shape_def TTY_ESCAPE_LEN_def)
  moreover have "esc_digits ?t = 0" by (simp add: esc_digits_def is_digit_def schar_def)
  ultimately show ?thesis by (simp add: tty_plain_char_def plain_ok_def esc_count_def)
qed

lemma tty_plain_char_ok:
  assumes "tty_inv t" "\<not> is_esc t"
  shows "\<exists>t'. tty_plain_char c t = Some t' \<and> plain_ok (next_count k c) t'"
proof -
  consider "c = CHR 0x1B" | "c = CHR 0x08" | "c \<notin> TTY_CONTROL"
    | "c \<in> {NUL, CHR 0x09, CHR 0x0A, CHR 0x0B, CHR 0x0C, CHR 0x0D}"
    by (auto simp: TTY_CONTROL_def)
  then show ?thesis
  proof cases
    case 1
    then show ?thesis using tty_escape_ok[OF assms(1)] by (cases k) auto
  qed (use assms tty_backspace_ok tty_printable_ok tty_motion_ok in blast)+
qed

lemma tty_wrap_scroll_ok:
  assumes "tty_mid t"
  shows "\<exists>t'. tty_scroll (tty_wrap t) = Some t' \<and> tty_inv t' \<and> same_esc t t'"
proof -
  define u where "u = tty_wrap t"
  have u: "tty_shape u" "0 \<le> cursor_x u" "cursor_x u < 80" "0 \<le> cursor_y u" "cursor_y u \<le> 25" "same_esc t u"
    using assms by (auto simp: u_def tty_wrap_def tty_mid_def same_esc_def tty_shape_def)
  show ?thesis
  proof (cases "cursor_y u = 25")
    case True
    let ?s = "if inc16 (scrln u) = memlines u then 0 else inc16 (scrln u)"
    let ?v = "u\<lparr>cursor_y := to_schar (cursor_y u - 1), scrln := ?s, viewln := ?s\<rparr>"
    have v: "tty_inv ?v" using u True by (auto simp: tty_inv_def tty_shape_def inc16_def)
    obtain m where "tty_memsetw ?v (TTY_POS ?v 0 24) (attr ?v OR 0x20) 80 = Some (?v\<lparr>mem := m\<rparr>)"
        "length m = length (mem ?v)"
      using tty_memsetw_ex[of "TTY_POS ?v 0 24" 80 ?v "attr ?v OR 0x20"] TTY_POS_bounds[of ?v 0 24] v
      by (auto simp: tty_inv_def tty_shape_def)
    moreover have "same_esc t (?v\<lparr>mem := m\<rparr>)" using u(6) by (simp add: same_esc_def)
    moreover have "width u = 80" "height u = 25" using u(1) by (auto simp: tty_shape_def)
    ultimately show ?thesis using True v by (simp add: u_def[symmetric] tty_scroll_def Let_def)
  next
    case False
    with u have "tty_scroll u = Some u" "tty_inv u" by (auto simp: tty_scroll_def tty_shape_def tty_inv_def)
    with u(6) show ?thesis by (simp add: u_def)
  qed
qed

lemma esc_count_same: "same_esc t t' \<Longrightarrow> esc_count k t' = esc_count k t"
  by (simp add: same_esc_def esc_count_def esc_digits_def)

lemma tty_putc_ok:
  assumes "tty_inv t" "esc_count k t" "few_digits k (c # s)"
  shows "\<exists>t'. tty_putc c t = Some t' \<and> tty_inv t' \<and> esc_count (next_count k c) t'"
proof -
  obtain u where u: "(if is_esc t then tty_esc_char c t else tty_plain_char c t) = Some u"
      "tty_mid u" "esc_count (next_count k c) u"
    using tty_esc_char_ok[OF assms(1) _ assms(2,3)] tty_plain_char_ok[OF assms(1), of c k] tty_inv_mid
    by (cases "is_esc t") (auto simp: plain_ok_def)
  obtain t' where "tty_scroll (tty_wrap u) = Some t'" "tty_inv t'" "same_esc u t'"
    using tty_wrap_scroll_ok[OF u(2)] by blast
  with u show ?thesis by (auto simp: tty_putc_def esc_count_same)
qed

lemma tty_puts_ok:
  "tty_inv t \<Longrightarrow> esc_count k t \<Longrightarrow> few_digits k s \<Longrightarrow> \<exists>t'. tty_puts s t = Some t' \<and> tty_inv t'"
proof (induction s arbitrary: t k)
  case (Cons c s)
  then obtain t' where "tty_putc c t = Some t'" "tty_inv t'" "esc_count (next_count k c) t'"
    using tty_putc_ok by blast
  with Cons.IH[of t' "next_count k c"] few_digits_next[OF Cons.prems(3)] show ?case by simp
qed simp

lemma tty_inv_create:
  "length esc = 128 \<Longrightarrow> tty_inv (create_tty n i inbuf esc)"
  by (simp add: tty_inv_def tty_shape_def create_tty_def tty_consts)

text \<open>
  C11: writing to a terminal whose parser is outside an escape sequence never touches memory outside
  the line ring or the escape buffer and keeps the cursor on the screen, as long as no escape sequence
  of the buffer has more than nine digits.
\<close>

theorem tty_write_safe:
  assumes "tty_inv t" "\<not> is_esc t" "few_digits None buffer"
  shows "\<exists>t'. do_tty_write t buffer = Some t' \<and> tty_inv t'"
  unfolding do_tty_write_def using assms
  by (intro tty_puts_ok[of _ None]) (auto simp: tty_inv_def tty_shape_def esc_count_def)

theorem tty_write_safe_witness:
  "\<exists>t'. do_tty_write (create_tty 0 0 [] (replicate 128 NUL)) (CHR 0x1B # ''[2J'' @ CHR 0x1B # ''[999;12345Hhi'' @ [CHR 0x0A]) = Some t' \<and> tty_inv t'"
  by (rule tty_write_safe) (simp add: tty_inv_create, simp add: create_tty_def, simp add: is_digit_def schar_def)

section \<open>Plain text\<close>

definition tty_cell :: "ushort \<Rightarrow> char \<Rightarrow> ushort" where
  "tty_cell a c = a OR word_of_int (of_char c)"

lemma tty_putc_printable:
  assumes inv: "tty_inv t" and e: "\<not> is_esc t" and c: "c \<notin> TTY_CONTROL" and x: "cursor_x t + 1 < 80"
  shows "tty_putc c t = Some (t\<lparr>mem := (mem t)[nat (TTY_POS t (cursor_x t) (cursor_y t)) := tty_cell (attr t) c],
           cursor_x := cursor_x t + 1\<rparr>)"
proof -
  let ?p = "TTY_POS t (cursor_x t) (cursor_y t)"
  let ?u = "t\<lparr>mem := (mem t)[nat ?p := tty_cell (attr t) c], cursor_x := cursor_x t + 1\<rparr>"
  have b: "0 \<le> cursor_x t" "0 \<le> cursor_y t" "cursor_y t < 25" "width t = 80" "height t = 25"
    using inv by (auto simp: tty_inv_def tty_shape_def)
  have "0 \<le> ?p" "?p < int (length (mem t))"
    using TTY_POS_bounds[of t "cursor_x t" "cursor_y t"] inv by (auto simp: tty_inv_def tty_shape_def)
  from tty_store_ok[OF this] have "tty_plain_char c t = Some ?u"
    using b x by (simp add: tty_plain_printable[OF c] tty_cell_def)
  moreover have "tty_wrap ?u = ?u" using b x by (simp add: tty_wrap_def)
  moreover have "tty_scroll ?u = Some ?u" using b by (simp add: tty_scroll_def)
  ultimately show ?thesis using e by (simp add: tty_putc_def)
qed

lemma tty_puts_text:
  assumes "tty_inv t" "\<not> is_esc t" "\<forall>c \<in> set s. c \<notin> TTY_CONTROL" "cursor_x t + int (length s) < 80"
  shows "tty_puts s t = Some (t\<lparr>mem := (let p = nat (TTY_POS t (cursor_x t) (cursor_y t)) in
             take p (mem t) @ map (tty_cell (attr t)) s @ drop (p + length s) (mem t)),
           cursor_x := cursor_x t + int (length s)\<rparr>)"
  using assms
proof (induction s arbitrary: t)
  case Nil
  then show ?case by simp
next
  case (Cons c s)
  let ?p = "TTY_POS t (cursor_x t) (cursor_y t)"
  let ?u = "t\<lparr>mem := (mem t)[nat ?p := tty_cell (attr t) c], cursor_x := cursor_x t + 1\<rparr>"
  have b: "0 \<le> ?p" "?p < int (length (mem t))"
    using TTY_POS_bounds[of t "cursor_x t" "cursor_y t"] Cons.prems(1) by (auto simp: tty_inv_def tty_shape_def)
  have inv: "tty_inv ?u" "\<not> is_esc ?u" using Cons.prems by (auto simp: tty_inv_def)
  have "TTY_POS ?u (cursor_x ?u) (cursor_y ?u) = ?p + 1" by (simp add: TTY_POS_def)
  then have pos: "nat (TTY_POS ?u (cursor_x ?u) (cursor_y ?u)) = Suc (nat ?p)" using b(1) by linarith
  have lst: "take (Suc n) (m[n := v]) = take n m @ [v]" "drop (Suc n + k) (m[n := v]) = drop (Suc n + k) m"
    if "n < length m" for n k and m :: "ushort list" and v
    using that by (simp_all add: take_Suc_conv_app_nth)
  have n: "nat ?p < length (mem t)" using b by simp
  have "tty_puts s ?u = Some (?u\<lparr>mem := take (nat ?p) (mem t) @ tty_cell (attr t) c # map (tty_cell (attr t)) s @
      drop (Suc (nat ?p) + length s) (mem t), cursor_x := cursor_x ?u + int (length s)\<rparr>)"
    using Cons.IH[OF inv] Cons.prems lst[OF n] unfolding pos Let_def by simp
  then show ?case
    using tty_putc_printable[of t c] Cons.prems by (simp add: Let_def)
qed

text \<open>
  Text without control characters that fits behind the cursor is stored, in the current colours,
  in the cells from the cursor on; every other cell of the line ring is kept, the cursor moves behind
  the text and the view returns to the writing position.
\<close>

lemma tty_write_text:
  assumes "tty_inv t" "\<not> is_esc t" "\<forall>c \<in> set s. c \<notin> TTY_CONTROL" "cursor_x t + int (length s) < 80"
  shows "do_tty_write t s = Some (t\<lparr>viewln := scrln t,
           mem := (let p = nat (TTY_POS t (cursor_x t) (cursor_y t)) in
             take p (mem t) @ map (tty_cell (attr t)) s @ drop (p + length s) (mem t)),
           cursor_x := cursor_x t + int (length s)\<rparr>)"
proof -
  have "tty_inv (t\<lparr>viewln := scrln t\<rparr>)" using assms(1) by (simp add: tty_inv_def tty_shape_def)
  from tty_puts_text[OF this _ assms(3)] assms(2,4) show ?thesis
    by (simp add: do_tty_write_def TTY_POS_def Let_def)
qed

lemma tty_write_text_witness:
  "\<exists>t'. do_tty_write (create_tty 1 0 [] (replicate 128 NUL)) ''ok'' = Some t' \<and> take 3 (mem t') = [0x76F, 0x76B, 0] \<and>
     cursor_x t' = 2"
proof -
  have i: "tty_inv (create_tty 1 0 [] (replicate 128 NUL))" by (simp add: tty_inv_create)
  show ?thesis
    by (subst tty_write_text[OF i])
      (simp_all add: create_tty_def TTY_CONTROL_def TTY_POS_def tty_cell_def tty_consts
        TTY_COL_FG_DEF_def TTY_COL_BG_DEF_def)
qed

section \<open>The visible window\<close>

lemma print_tty_rows:
  assumes "tty_inv t" "2000 \<le> length video"
  shows "\<exists>v. print_tty t video = Some v \<and> length v = length video \<and> drop 2000 v = drop 2000 video \<and>
    (\<forall>r < 25. \<forall>c < 80. v ! (r * 80 + c) = mem t ! (((viewln t + r) mod 75) * 80 + c))"
proof -
  have s: "width t = 80" "height t = 25" "memlines t = 75" "length (mem t) = 6000" "viewln t < 75"
    using assms(1) by (auto simp: tty_inv_def tty_shape_def)
  define b where "b = 75 - viewln t"
  have vb: "viewln t = 75 - b" "0 < b" "b \<le> 75" using s(5) by (auto simp: b_def)
  show ?thesis
  proof (cases "b < 25")
    case True
    let ?v = "take (b * 80) (drop (viewln t * 80) (mem t)) @ take ((25 - b) * 80) (mem t) @ drop 2000 video"
    define d where "d = 25 - b"
    have "b + d = 25" using True by (simp add: d_def)
    then have e: "25 - b = d" "d * 80 + b * 80 = 2000" "b * 80 \<le> 6000" by linarith+
    have e0: "(75 - b) * 80 = 6000 - b * 80" by (simp add: diff_mult_distrib)
    have l: "b * 80 \<le> length video" "d * 80 \<le> length video - b * 80" "b \<le> 75" "d \<le> 75"
      using e(2) assms(2) True by linarith+
    have "print_tty t video = Some ?v"
      using True s l by (simp add: print_tty_def Let_def b_def[symmetric] memcpy_eq vb(1) e e0)
    moreover have la: "length (take (b * 80) (drop (viewln t * 80) (mem t))) = b * 80"
      and lb: "length (take ((25 - b) * 80) (mem t)) = d * 80"
      using e(3) l by (simp_all add: s vb(1) e e0)
    moreover have "?v ! (r * 80 + c) = mem t ! (((viewln t + r) mod 75) * 80 + c)" if "r < 25" "c < 80" for r c
    proof (cases "r < b")
      case True
      then have "(viewln t + r) mod 75 = viewln t + r" using vb by simp
      with True that vb s show ?thesis by (simp add: nth_append algebra_simps)
    next
      case False
      then have m: "(viewln t + r) mod 75 = r - b" using vb that by (simp add: mod_if)
      define k where "k = (r - b) * 80 + c"
      have k: "r * 80 + c = length (take (b * 80) (drop (viewln t * 80) (mem t))) + k"
        "k < length (take ((25 - b) * 80) (mem t))"
        using False that la lb d_def unfolding k_def by linarith+
      have "?v ! (r * 80 + c) = take ((25 - b) * 80) (mem t) ! k"
        unfolding k(1) nth_append_length_plus using k(2) by (simp only: nth_append if_True)
      with k(2) show ?thesis unfolding m by (simp add: k_def)
    qed
    ultimately show ?thesis using s assms(2) True vb by (intro exI[of _ ?v]) simp
  next
    case False
    let ?v = "take 2000 (drop (viewln t * 80) (mem t)) @ drop 2000 video"
    have "print_tty t video = Some ?v"
      using False s assms(2) vb by (simp add: print_tty_def Let_def b_def[symmetric] memcpy_eq)
    moreover have "?v ! (r * 80 + c) = mem t ! (((viewln t + r) mod 75) * 80 + c)" if "r < 25" "c < 80" for r c
      using False that s vb by (simp add: nth_append algebra_simps)
    ultimately show ?thesis using s assms(2) False vb by (intro exI[of _ ?v]) simp
  qed
qed

text \<open>
  After \<open>print_tty\<close> the first 25 rows of the video memory are the 25 lines of the ring that start
  at \<open>viewln\<close>, taken modulo the 75 lines of the ring; the rest of the video memory is untouched.
\<close>

lemma print_tty_window:
  assumes "tty_inv t" "2000 \<le> length video"
  shows "\<exists>v. print_tty t video = Some v \<and> length v = length video \<and> drop 2000 v = drop 2000 video \<and>
    (\<forall>r < 25. \<forall>c < 80. v ! (r * 80 + c) = mem t ! (((viewln t + r) mod 75) * 80 + c))"
  using assms by (rule print_tty_rows)

lemma print_tty_window_witness:
  "\<exists>v. print_tty (create_tty 1 0 [] (replicate 128 NUL)) (replicate 2000 1) = Some v \<and> v ! 1999 = 0"
proof -
  let ?t = "create_tty 1 0 [] (replicate 128 NUL)"
  have "tty_inv ?t" by (simp add: tty_inv_create)
  from print_tty_window[OF this, of "replicate 2000 1"] obtain v where
    v: "print_tty ?t (replicate 2000 1) = Some v" and
    w: "\<forall>r < 25. \<forall>c < 80. v ! (r * 80 + c) = mem ?t ! (((viewln ?t + r) mod 75) * 80 + c)" by auto
  from w[rule_format, of 24 79] have "v ! 1999 = 0" by (simp add: create_tty_def tty_consts)
  with v show ?thesis by blast
qed

section \<open>Control sequences\<close>

definition TTY_PARAM :: "char \<Rightarrow> bool" where
  "TTY_PARAM c \<longleftrightarrow> TTY_ESCAPE_CHR c \<and> \<not> TTY_ESCAPE_END c"

text \<open>With the cursor on the screen the end of the round changes nothing.\<close>

lemma tty_round_end:
  assumes "tty_inv t"
  shows "tty_wrap t = t" "tty_scroll t = Some t"
  using assms by (simp_all add: tty_wrap_def tty_scroll_def tty_inv_def tty_shape_def)

lemma tty_putc_start:
  assumes inv: "tty_inv t" and "\<not> is_esc t"
  shows "tty_puts [CHR 0x1B, CHR ''[''] t =
    Some (t\<lparr>is_esc := True, esc_ind := 1, escape_seq := CHR ''['' # replicate 127 NUL\<rparr>)"
proof -
  let ?u = "t\<lparr>is_esc := True, esc_ind := 0, escape_seq := CHR ''['' # replicate 127 NUL\<rparr>"
  have u: "tty_inv ?u" "tty_inv (?u\<lparr>esc_ind := 1\<rparr>)" using inv by (simp_all add: tty_inv_def tty_shape_def)
  have "tty_putc CHR 0x1B t = Some ?u"
    using assms tty_round_end[OF u(1)] by (simp add: tty_putc_def tty_plain_char_def TTY_ESCAPE_LEN_def)
  moreover have "tty_putc CHR ''['' ?u = Some (?u\<lparr>esc_ind := 1\<rparr>)"
    using tty_round_end[OF u(2)] by (simp add: tty_putc_def tty_esc_char_def inc16_def)
  ultimately show ?thesis by simp
qed

lemma tty_putc_param:
  assumes inv: "tty_inv t" and "is_esc t" "0 < esc_ind t" "esc_ind t < 128" "TTY_PARAM c"
  shows "tty_putc c t = Some (t\<lparr>escape_seq := (escape_seq t)[esc_ind t := c], esc_ind := Suc (esc_ind t)\<rparr>)"
proof -
  let ?u = "t\<lparr>escape_seq := (escape_seq t)[esc_ind t := c], esc_ind := Suc (esc_ind t)\<rparr>"
  have u: "tty_inv ?u" using inv assms(4) by (simp add: tty_inv_def tty_shape_def)
  have len: "length (escape_seq t) = 128" using inv by (simp add: tty_inv_def tty_shape_def)
  have "tty_esc_char c t = Some ?u"
    using assms len by (simp add: tty_esc_char_def TTY_PARAM_def TTY_ESCAPE_LEN_def Let_def inc16_def)
  with tty_round_end[OF u] assms(2) show ?thesis by (simp add: tty_putc_def)
qed

lemma tty_puts_params:
  assumes "tty_inv t" "is_esc t" "0 < esc_ind t" "esc_ind t + length p \<le> 128" "list_all TTY_PARAM p"
  shows "tty_puts p t = Some (t\<lparr>escape_seq := take (esc_ind t) (escape_seq t) @ p @ drop (esc_ind t + length p) (escape_seq t),
           esc_ind := esc_ind t + length p\<rparr>)"
  using assms
proof (induction p arbitrary: t)
  case (Cons c p)
  let ?i = "esc_ind t" and ?e = "escape_seq t"
  let ?u = "t\<lparr>escape_seq := ?e[?i := c], esc_ind := Suc ?i\<rparr>"
  have len: "length ?e = 128" using Cons.prems(1) by (simp add: tty_inv_def tty_shape_def)
  have u: "tty_inv ?u" using Cons.prems by (simp add: tty_inv_def tty_shape_def)
  have t: "take (Suc ?i) (?e[?i := c]) = take ?i ?e @ [c]" using Cons.prems(4) len
    by (simp add: take_Suc_conv_app_nth)
  have d: "drop (Suc ?i + length p) (?e[?i := c]) = drop (Suc ?i + length p) ?e" by simp
  have c: "tty_putc c t = Some ?u" using Cons.prems by (intro tty_putc_param) simp_all
  have "tty_puts p ?u = Some (?u\<lparr>escape_seq := (take ?i ?e @ [c]) @ p @ drop (Suc ?i + length p) ?e,
           esc_ind := Suc ?i + length p\<rparr>)"
    using Cons.IH[OF u] Cons.prems(2,4,5) t d by simp
  with c show ?case by simp
qed simp

lemma tty_puts_append: "tty_puts (s @ s') t = Option.bind (tty_puts s t) (tty_puts s')"
  by (induction s arbitrary: t) (auto split: bind_splits)

lemma tty_param_not_NUL: "TTY_PARAM c \<Longrightarrow> c \<noteq> NUL"
  by (auto simp: TTY_PARAM_def TTY_ESCAPE_CHR_def TTY_ESCAPE_END_def is_digit_def schar_def)

lemma tty_putc_command:
  assumes inv: "tty_inv t" and esc: "is_esc t" "esc_ind t = Suc (length p)"
    and seq: "escape_seq t = CHR ''['' # p @ r" and p: "list_all TTY_PARAM p" and r: "r \<noteq> []"
    and cmd: "TTY_ESCAPE_END cmd"
  shows "tty_putc cmd t =
    Option.bind (tty_command (t\<lparr>is_esc := False, escape_seq := CHR ''['' # p @ NUL # tl r\<rparr>) p cmd)
      (\<lambda>u. tty_scroll (tty_wrap (u\<lparr>esc_ind := inc16 (esc_ind u)\<rparr>)))"
proof -
  have len: "length (escape_seq t) = 128" using inv by (simp add: tty_inv_def tty_shape_def)
  then have i: "esc_ind t < 128" using esc(2) seq r by (cases r) auto
  have up: "(escape_seq t)[esc_ind t := c] = CHR ''['' # p @ c # tl r" for c
    using esc(2) seq r by (cases r) (simp_all add: list_update_append)
  have "NUL \<notin> set p" using p tty_param_not_NUL by (auto simp: list_all_iff)
  then have content: "content (drop 1 (CHR ''['' # p @ NUL # tl r)) = p" by (simp add: content_append_NUL)
  have "TTY_ESCAPE_CHR cmd" using cmd by (simp add: TTY_ESCAPE_CHR_def)
  let ?t = "t\<lparr>escape_seq := CHR ''['' # p @ cmd # tl r, is_esc := False\<rparr>"
  have e1: "tty_esc_char cmd t =
      Option.bind (tty_interpret_escape ?t) (\<lambda>u. Some (u\<lparr>esc_ind := inc16 (esc_ind u)\<rparr>))"
    using i esc(2) len cmd \<open>TTY_ESCAPE_CHR cmd\<close> by (simp add: tty_esc_char_def TTY_ESCAPE_LEN_def Let_def up[unfolded esc(2)])
  have e2: "tty_interpret_escape ?t =
      tty_command (t\<lparr>is_esc := False, escape_seq := CHR ''['' # p @ NUL # tl r\<rparr>) p cmd"
    using content by (simp add: tty_interpret_escape_def Let_def esc(2) list_update_append)
  show ?thesis unfolding tty_putc_def using esc(1) e1 e2 by simp
qed

text \<open>
  C34: a control sequence of the form ESC [ parameters command, written while the parser is idle, runs
  that command once on exactly those parameters, and nothing else happens to the terminal.
\<close>

theorem tty_csi_dispatch:
  assumes inv: "tty_inv t" and e: "\<not> is_esc t" and p: "list_all TTY_PARAM p" "length p \<le> 126"
    and cmd: "TTY_ESCAPE_END cmd"
  shows "do_tty_write t (CHR 0x1B # CHR ''['' # p @ [cmd]) =
    Option.bind (tty_command (t\<lparr>viewln := scrln t, esc_ind := Suc (length p), is_esc := False,
        escape_seq := CHR ''['' # p @ replicate (127 - length p) NUL\<rparr>) p cmd)
      (\<lambda>u. tty_scroll (tty_wrap (u\<lparr>esc_ind := inc16 (esc_ind u)\<rparr>)))"
proof -
  define t0 where "t0 = t\<lparr>viewln := scrln t\<rparr>"
  define t1 where "t1 = t0\<lparr>is_esc := True, esc_ind := 1, escape_seq := CHR ''['' # replicate 127 NUL\<rparr>"
  define t2 where "t2 = t1\<lparr>escape_seq := CHR ''['' # p @ replicate (127 - length p) NUL, esc_ind := Suc (length p)\<rparr>"
  have inv0: "tty_inv t0" "\<not> is_esc t0" using inv e by (simp_all add: t0_def tty_inv_def tty_shape_def)
  have inv1: "tty_inv t1" using inv0 by (simp add: t1_def tty_inv_def tty_shape_def)
  have inv2: "tty_inv t2" using inv1 p(2) by (simp add: t2_def tty_inv_def tty_shape_def)
  have s1: "tty_puts [CHR 0x1B, CHR ''[''] t0 = Some t1" using tty_putc_start[OF inv0] by (simp add: t1_def)
  have s2: "tty_puts p t1 = Some t2"
    using tty_puts_params[OF inv1, of p] p by (simp add: t1_def t2_def)
  obtain k where k: "127 - length p = Suc k" using p(2) by (cases "127 - length p") auto
  have s3: "tty_putc cmd t2 = Option.bind
      (tty_command (t2\<lparr>is_esc := False, escape_seq := CHR ''['' # p @ NUL # replicate k NUL\<rparr>) p cmd)
      (\<lambda>u. tty_scroll (tty_wrap (u\<lparr>esc_ind := inc16 (esc_ind u)\<rparr>)))"
    using tty_putc_command[OF inv2 _ _ _ p(1) _ cmd, of "replicate (127 - length p) NUL"] k
    by (simp add: t2_def t1_def)
  have "do_tty_write t ([CHR 0x1B, CHR ''[''] @ p @ [cmd]) = tty_putc cmd t2"
    unfolding do_tty_write_def t0_def[symmetric] tty_puts_append s1 by (cases "tty_putc cmd t2") (simp_all add: s2)
  then show ?thesis using s3 k by (simp add: t2_def t1_def t0_def)
qed

theorem tty_csi_dispatch_witness:
  "\<exists>t'. do_tty_write (create_tty 1 0 [] (replicate 128 NUL)) (CHR 0x1B # ''[5B'') = Some t' \<and> cursor_y t' = 5"
proof -
  let ?t = "create_tty 1 0 [] (replicate 128 NUL)"
  have i: "tty_inv ?t" by (simp add: tty_inv_create)
  have "do_tty_write ?t (CHR 0x1B # CHR ''['' # ''5'' @ ''B'') = Option.bind (tty_command (?t\<lparr>viewln := scrln ?t, esc_ind := Suc (length ''5''), is_esc := False,
        escape_seq := CHR ''['' # ''5'' @ replicate (127 - length ''5'') NUL\<rparr>) ''5'' CHR ''B'')
      (\<lambda>u. tty_scroll (tty_wrap (u\<lparr>esc_ind := inc16 (esc_ind u)\<rparr>)))"
    by (rule tty_csi_dispatch[OF i])
      (simp_all add: create_tty_def TTY_PARAM_def TTY_ESCAPE_CHR_def TTY_ESCAPE_END_def is_digit_def schar_def)
  then show ?thesis
    by (simp add: tty_command_def tty_down_def atoi_def is_digit_def schar_def create_tty_def tty_consts
      tty_wrap_def tty_scroll_def)
qed

text \<open>
  The parameter of a control sequence is not checked for overflow. On a fresh screen the request
  to move the cursor 4294967096 columns to the left, which \<^verbatim>\<open>atoi\<close> reads as minus 200, moves it to a
  negative column, and the next character is stored in front of the screen memory.
\<close>

lemma tty_csi_overflow:
  assumes inv: "tty_inv t" and e: "\<not> is_esc t" and home: "cursor_x t = 0" "cursor_y t = 0" "scrln t = 0"
  shows "do_tty_write t (CHR 0x1B # ''[4294967096D'' @ ''A'') = None"
proof -
  let ?p = "''4294967096''"
  let ?t = "t\<lparr>viewln := scrln t, esc_ind := Suc (length ?p), is_esc := False,
        escape_seq := CHR ''['' # ?p @ replicate (127 - length ?p) NUL\<rparr>"
  have w: "width t = 80" "height t = 25" "memlines t = 75" using inv by (auto simp: tty_inv_def tty_shape_def)
  have "atoi ?p = -200" by (simp add: atoi_def is_digit_def schar_def)
  then have "tty_command ?t ?p CHR ''D'' = Some (?t\<lparr>cursor_x := -56\<rparr>)"
    using home by (simp add: tty_command_def to_schar_def)
  with tty_csi_dispatch[OF inv e, of ?p "CHR ''D''"]
  have d: "tty_puts (CHR 0x1B # CHR ''['' # ?p @ ''D'') (t\<lparr>viewln := scrln t\<rparr>) = Some (?t\<lparr>cursor_x := -56, esc_ind := 12\<rparr>)"
    using w home by (simp add: do_tty_write_def TTY_PARAM_def TTY_ESCAPE_CHR_def TTY_ESCAPE_END_def is_digit_def
        schar_def tty_wrap_def tty_scroll_def inc16_def)
  have "tty_putc CHR ''A'' (?t\<lparr>cursor_x := -56, esc_ind := 12\<rparr>) = None"
    using w home by (simp add: tty_putc_def tty_plain_char_def tty_store_def TTY_POS_def)
  with d show ?thesis
    using tty_puts_append[of "CHR 0x1B # CHR ''['' # ?p @ ''D''" "''A''" "t\<lparr>viewln := scrln t\<rparr>"]
    by (simp add: do_tty_write_def)
qed

lemma tty_csi_overflow_witness:
  "do_tty_write (create_tty 1 0 [] (replicate 128 NUL)) (CHR 0x1B # ''[4294967096D'' @ ''A'') = None"
proof -
  let ?t = "create_tty 1 0 [] (replicate 128 NUL)"
  have "tty_inv ?t" by (simp add: tty_inv_create)
  then show ?thesis by (rule tty_csi_overflow) (simp_all add: create_tty_def)
qed

text \<open>
  Cursor positioning takes its first parameter as the column and the second as the row, where the
  control sequence (CUP) has them the other way round.
\<close>

lemma tty_goto_swaps:
  "tty_goto t ''3;7'' n =
     t\<lparr>cursor_x := to_schar (min 3 (int (width t)) - 1), cursor_y := to_schar (min 7 (int (height t)) - 1)\<rparr>"
  by (simp add: tty_goto_def atoi_def is_digit_def schar_def min_def)

end
