(* ===== verification/Keyboard.thy ===== *)
theory Keyboard
  imports Tty
begin

text \<open>
  The keyboard interrupt handler \<^verbatim>\<open>src/drivers/tty/kbd.c\<close> with the German key table, and the ring buffer
  between it and \<^verbatim>\<open>tty_read\<close>. The buffer's contract, a queue of bounded capacity that drops its oldest
  entry, is the locale \<open>bounded_queue\<close>; the terminal's ring buffer is interpreted in it.
\<close>

section \<open>The key table\<close>

definition KEYMAP_STATES :: nat where "KEYMAP_STATES = 6"
definition CTRL :: ushort where "CTRL = 0x200"
definition SHIFT :: ushort where "SHIFT = 0x400"
definition ALT :: ushort where "ALT = 0x800"
definition CALOCK :: ushort where "CALOCK = 0x10D"
definition KEYUP :: uchar where "KEYUP = 0x80"

lemmas key_consts = KEYMAP_STATES_def CTRL_def SHIFT_def ALT_def CALOCK_def KEYUP_def

text \<open>One row per scan code: plain, Shift, Alt, AltGr, Alt+Shift, Ctrl.\<close>

definition german_keymap :: "ushort list" where
  "german_keymap = concat
     [
      [0, 0, 0, 0, 0, 0], [0x1B, 0x1B, 0x9B, 0x1B, 0x1B, 0x1B],
      [0x31, 0x21, 0xB1, 0x31, 0x21, 0x1], [0x32, 0x22, 0xB2, 0xFD, 0x40, 0],
      [0x33, 0x15, 0xB3, 0xFC, 0x23, 0x3], [0x34, 0x24, 0xB4, 0x34, 0x24, 0x4],
      [0x35, 0x25, 0xB5, 0x35, 0x25, 0x5], [0x36, 0x26, 0xB6, 0x36, 0x5E, 0x1E],
      [0x37, 0x2F, 0xB7, 0x7B, 0x26, 0x7], [0x38, 0x28, 0xB8, 0x5B, 0x2A, 0x8],
      [0x39, 0x29, 0xB9, 0x5D, 0x28, 0x9], [0x30, 0x3D, 0xB0, 0x7D, 0x29, 0],
      [0xE1, 0x3F, 0xE1, 0x5C, 0x5F, 0x1F], [0x27, 0x60, 0xA7, 0x3D, 0x2B, 0],
      [0x8, 0x8, 0x88, 0x8, 0x8, 0x7F], [0x9, 0x9, 0x89, 0x9, 0x9, 0x9],
      [0x71, 0x51, 0xF1, 0x40, 0x51, 0x11], [0x77, 0x57, 0xF7, 0x77, 0x57, 0x17],
      [0x65, 0x45, 0xE5, 0x65, 0x45, 0x5], [0x72, 0x52, 0xF2, 0x72, 0x52, 0x12],
      [0x74, 0x54, 0xF4, 0x74, 0x54, 0x14], [0x7A, 0x5A, 0xFA, 0x7A, 0x5A, 0x1A],
      [0x75, 0x55, 0xF5, 0x75, 0x55, 0x15], [0x69, 0x49, 0xE9, 0x69, 0x49, 0x9],
      [0x6F, 0x4F, 0xEF, 0x6F, 0x4F, 0xF], [0x70, 0x50, 0xF0, 0x70, 0x50, 0x10],
      [0x81, 0x9A, 0x81, 0x5B, 0x7B, 0x1B], [0x2B, 0x2A, 0xAB, 0x7E, 0x5D, 0x1D],
      [0xA, 0xA, 0x8A, 0xA, 0xA, 0xD], [0x200, 0x200, 0x200, 0x200, 0x200, 0x200],
      [0x61, 0x41, 0xE1, 0x61, 0x41, 0x1], [0x73, 0x53, 0xF3, 0x73, 0x53, 0x13],
      [0x64, 0x44, 0xE4, 0x64, 0x44, 0x4], [0x66, 0x46, 0xE6, 0x66, 0x46, 0x6],
      [0x67, 0x47, 0xE7, 0x67, 0x47, 0x7], [0x68, 0x48, 0xE8, 0x68, 0x48, 0x8],
      [0x6A, 0x4A, 0xEA, 0x6A, 0x4A, 0xA], [0x6B, 0x4B, 0xEB, 0x6B, 0x4B, 0xB],
      [0x6C, 0x4C, 0xEC, 0x6C, 0x4C, 0xC], [0x94, 0x99, 0x94, 0x3B, 0x3A, 0],
      [0x84, 0x8E, 0x84, 0x27, 0x22, 0], [0x5E, 0xF8, 0xDE, 0x60, 0x7E, 0x1E],
      [0x400, 0x400, 0x400, 0x400, 0x400, 0x400], [0x23, 0x27, 0xA3, 0x5C, 0x7C, 0x1C],
      [0x79, 0x59, 0xF9, 0x79, 0x59, 0x19], [0x78, 0x58, 0xF8, 0x78, 0x58, 0x18],
      [0x63, 0x43, 0xE3, 0x63, 0x43, 0x3], [0x76, 0x56, 0xF6, 0x76, 0x56, 0x16],
      [0x62, 0x42, 0xE2, 0x62, 0x42, 0x2], [0x6E, 0x4E, 0xEE, 0x6E, 0x4E, 0xE],
      [0x6D, 0x4D, 0xED, 0xE6, 0x4D, 0xD], [0x2C, 0x3B, 0xAC, 0x2C, 0x3C, 0],
      [0x2E, 0x3A, 0xAE, 0x2E, 0x3E, 0], [0x2D, 0x5F, 0xAD, 0x2F, 0x3F, 0x1F],
      [0x400, 0x400, 0x400, 0x400, 0x400, 0x400], [0x2A, 0x2A, 0xAA, 0xE7, 0x2A, 0],
      [0x800, 0x800, 0x800, 0x800, 0x800, 0x800], [0x20, 0x20, 0xA0, 0x20, 0x20, 0],
      [0x10D, 0x10D, 0x10D, 0x10D, 0x10D, 0x10D], [0x110, 0x410, 0x810, 0x810, 0xC10, 0x210],
      [0x111, 0x411, 0x811, 0x811, 0xC11, 0x211], [0x112, 0x412, 0x812, 0x812, 0xC12, 0x212],
      [0x113, 0x413, 0x813, 0x813, 0xC13, 0x213], [0x114, 0x414, 0x814, 0x814, 0xC14, 0x214],
      [0x115, 0x415, 0x815, 0x815, 0xC15, 0x215], [0x116, 0x416, 0x816, 0x816, 0xC16, 0x216],
      [0x117, 0x417, 0x817, 0x817, 0xC17, 0x217], [0x118, 0x418, 0x818, 0x818, 0xC18, 0x218],
      [0x119, 0x419, 0x819, 0x819, 0xC19, 0x219], [0x10E, 0x10E, 0x10E, 0x10E, 0x10E, 0x10E],
      [0x10F, 0x10F, 0x10F, 0x10F, 0x10F, 0x10F], [0x101, 0x37, 0x801, 0x801, 0x37, 0x201],
      [0x103, 0x38, 0x803, 0x803, 0x38, 0x203], [0x107, 0x39, 0x807, 0x807, 0x39, 0x207],
      [0x10A, 0x2D, 0x80A, 0x80A, 0x2D, 0x20A], [0x105, 0x34, 0x805, 0x805, 0x34, 0x205],
      [0x109, 0x35, 0x809, 0x809, 0x35, 0x209], [0x106, 0x36, 0x806, 0x806, 0x36, 0x206],
      [0x10B, 0x2B, 0x80B, 0x80B, 0x2B, 0x20B], [0x102, 0x31, 0x802, 0x802, 0x31, 0x202],
      [0x104, 0x32, 0x804, 0x804, 0x32, 0x204], [0x108, 0x33, 0x808, 0x808, 0x33, 0x208],
      [0x10C, 0x30, 0x80C, 0x80C, 0x30, 0x20C], [0x7F, 0x2E, 0xFF, 0x7F, 0x2E, 0x7F],
      [0xD, 0xD, 0x8D, 0xD, 0xD, 0xA], [0, 0, 0, 0, 0, 0],
      [0x3C, 0x3E, 0xBC, 0x7C, 0x3E, 0], [0x11A, 0x41A, 0x81A, 0x81A, 0xC1A, 0x21A],
      [0x11B, 0x41B, 0x81B, 0x81B, 0xC1B, 0x21B], [0, 0, 0, 0, 0, 0],
      [0, 0, 0, 0, 0, 0], [0, 0, 0, 0, 0, 0],
      [0, 0, 0, 0, 0, 0], [0, 0, 0, 0, 0, 0],
      [0, 0, 0, 0, 0, 0], [0, 0, 0, 0, 0, 0],
      [0x1000, 0x1000, 0x1000, 0x1000, 0x1000, 0x1000], [0, 0, 0, 0, 0, 0],
      [0, 0, 0, 0, 0, 0], [0, 0, 0, 0, 0, 0],
      [0, 0, 0, 0, 0, 0], [0, 0, 0, 0, 0, 0],
      [0, 0, 0, 0, 0, 0], [0, 0, 0, 0, 0, 0],
      [0, 0, 0, 0, 0, 0], [0, 0, 0, 0, 0, 0],
      [0, 0, 0, 0, 0, 0], [0, 0, 0, 0, 0, 0],
      [0, 0, 0, 0, 0, 0], [0, 0, 0, 0, 0, 0],
      [0, 0, 0, 0, 0, 0], [0, 0, 0, 0, 0, 0],
      [0, 0, 0, 0, 0, 0], [0, 0, 0, 0, 0, 0],
      [0, 0, 0, 0, 0, 0], [0, 0, 0, 0, 0, 0],
      [0, 0, 0, 0, 0, 0], [0, 0, 0, 0, 0, 0],
      [0, 0, 0, 0, 0, 0], [0, 0, 0, 0, 0, 0],
      [0, 0, 0, 0, 0, 0], [0, 0, 0, 0, 0, 0],
      [0, 0, 0, 0, 0, 0], [0, 0, 0, 0, 0, 0],
      [0, 0, 0, 0, 0, 0], [0, 0, 0, 0, 0, 0],
      [0, 0, 0, 0, 0, 0], [0, 0, 0, 0, 0, 0]
     ]"

section \<open>Modifier state\<close>

record kbd =
  key_state :: nat
  shift :: bool
  alt :: bool
  altgr :: bool
  ctrl :: bool
  escape :: bool

definition kbd_init :: kbd where
  "kbd_init = \<lparr>key_state = 0, shift = False, alt = False, altgr = False, ctrl = False, escape = False\<rparr>"

definition create_key_state :: "kbd \<Rightarrow> kbd" where
  "create_key_state k =
    (let s0 = (if shift k then 1 else 0);
         s1 = (if alt k then s0 + 2 else s0);
         s2 = (if altgr k then 3 else s1);
         s3 = (if ctrl k then 5 else s2)
     in k\<lparr>key_state := s3\<rparr>)"

text \<open>
  \<^verbatim>\<open>handle_key\<close>: the new modifiers, the changed scan code, the key and the terminal to switch to. The
  result is \<open>None\<close> when the key table is read outside its bounds.
\<close>

definition handle_key ::
  "ushort list \<Rightarrow> uchar \<Rightarrow> bool \<Rightarrow> kbd \<Rightarrow> (kbd \<times> uchar \<times> ushort \<times> int option) option" where
  "handle_key keymap scan_code up k =
    (let i = unat (scan_code AND 0x7F) * KEYMAP_STATES + key_state k in
     if \<not> i < length keymap then None
     else
       let key = keymap ! i;
           (k1, sc1) =
             (if escape k then
                ((if key = ALT then k\<lparr>altgr := \<not> up, escape := False\<rparr> else k\<lparr>escape := False\<rparr>), scan_code OR KEYUP)
              else (k, scan_code));
           k2 = (if sc1 = 0xE0 then k1\<lparr>escape := True\<rparr> else k1);
           (k3, sc3, sw) =
             (if key = SHIFT then (create_key_state (k2\<lparr>shift := \<not> up\<rparr>), sc1, None)
              else if key = CTRL then (create_key_state (k2\<lparr>ctrl := \<not> up\<rparr>), sc1, None)
              else if key = ALT then (create_key_state (k2\<lparr>alt := \<not> up\<rparr>), sc1, None)
              else if key = CALOCK then (create_key_state (k2\<lparr>shift := \<not> shift k2\<rparr>), sc1, None)
              else if 0x810 \<le> key \<and> key \<le> 0x81B then
                (k2, sc1 OR KEYUP,
                 if sc1 AND KEYUP = 0 then Some (uint (key AND NOT ALT) - 0x10) else None)
              else (k2, sc1, None));
           sc4 = (if key AND 0xFF00 \<noteq> 0 then sc3 OR KEYUP else sc3)
       in Some (k3, sc4, key, sw))"

section \<open>The console\<close>

record console =
  keyboard :: kbd
  ttys :: "tty list"
  current_tty :: nat
  video :: "ushort list"

definition set_current_tty :: "int \<Rightarrow> console \<Rightarrow> console option" where
  "set_current_tty n c =
     (if n < 0 \<or> n \<ge> int NR_TTYS \<or> nat n \<ge> length (ttys c) then Some c
      else map_option (\<lambda>v. c\<lparr>current_tty := nat n, video := v\<rparr>) (print_tty (ttys c ! nat n) (video c)))"

definition irq_tty_keyboard :: "uchar \<Rightarrow> console \<Rightarrow> console option" where
  "irq_tty_keyboard scan_code c = do {
     let cur = current_tty c;
     (k, sc, key, sw) \<leftarrow> handle_key german_keymap scan_code (scan_code AND KEYUP \<noteq> 0) (keyboard c);
     c1 \<leftarrow> (case sw of Some n \<Rightarrow> set_current_tty n (c\<lparr>keyboard := k\<rparr>) | None \<Rightarrow> Some (c\<lparr>keyboard := k\<rparr>));
     if escape k \<or> sc AND KEYUP \<noteq> 0 then Some c1
     else if cur < length (ttys c1) then
       map_option (\<lambda>t. c1\<lparr>ttys := (ttys c1)[cur := t]\<rparr>) (tty_input key (ttys c1 ! cur))
     else None
   }"

fun irq_run :: "uchar list \<Rightarrow> console \<Rightarrow> console option" where
  "irq_run [] c = Some c"
| "irq_run (sc # scs) c = Option.bind (irq_tty_keyboard sc c) (irq_run scs)"

section \<open>Bounded queues\<close>

text \<open>What producer and reader rely on: entries come out in order, and a full queue forgets its oldest entry.\<close>

locale bounded_queue =
  fixes inv :: "'s \<Rightarrow> bool" and cap :: nat and contents :: "'s \<Rightarrow> 'a list" and conv :: "'k \<Rightarrow> 'a"
    and put :: "'k \<Rightarrow> 's \<Rightarrow> 's option" and get :: "'s \<Rightarrow> ('a \<times> 's) option"
  assumes bounded: "inv s \<Longrightarrow> length (contents s) \<le> cap"
    and put: "inv s \<Longrightarrow> \<exists>s'. put k s = Some s' \<and> inv s' \<and>
      contents s' = drop (length (contents s) + 1 - cap) (contents s @ [conv k])"
    and get: "inv s \<Longrightarrow> contents s = a # q \<Longrightarrow> \<exists>s'. get s = Some (a, s') \<and> inv s' \<and> contents s' = q"
    and get_empty: "inv s \<Longrightarrow> contents s = [] \<Longrightarrow> get s = None"
begin

fun put_all :: "'k list \<Rightarrow> 's \<Rightarrow> 's option" where
  "put_all [] s = Some s"
| "put_all (k # ks) s = Option.bind (put k s) (put_all ks)"

fun get_n :: "nat \<Rightarrow> 's \<Rightarrow> ('a list \<times> 's) option" where
  "get_n 0 s = Some ([], s)"
| "get_n (Suc n) s = Option.bind (get s) (\<lambda>(a, s1). Option.bind (get_n n s1) (\<lambda>(as, s2). Some (a # as, s2)))"

lemma put_all_contents:
  "inv s \<Longrightarrow> \<exists>s'. put_all ks s = Some s' \<and> inv s' \<and>
     contents s' = drop (length (contents s) + length ks - cap) (contents s @ map conv ks)"
proof (induction ks arbitrary: s)
  case Nil
  then show ?case using bounded by simp
next
  case (Cons k ks)
  then obtain s1 where s1: "put k s = Some s1" "inv s1"
      "contents s1 = drop (length (contents s) + 1 - cap) (contents s @ [conv k])"
    using put by blast
  obtain s2 where s2: "put_all ks s1 = Some s2" "inv s2"
      "contents s2 = drop (length (contents s1) + length ks - cap) (contents s1 @ map conv ks)"
    using Cons.IH[OF s1(2)] by blast
  define zs j where "zs = contents s @ [conv k]" and "j = length zs - cap"
  have c1: "contents s1 = drop j zs" using s1(3) by (simp add: zs_def j_def)
  have "contents s2 = drop (length (drop j zs) + length ks - cap) (drop j (zs @ map conv ks))"
    using s2(3) c1 by (simp add: j_def)
  also have "\<dots> = drop (length zs + length ks - cap) (zs @ map conv ks)"
    by (simp only: drop_drop) (cases "length zs \<le> cap"; simp add: j_def add.commute)
  finally have "contents s2 = drop (length (contents s) + length (k # ks) - cap) (contents s @ map conv (k # ks))"
    by (simp add: zs_def)
  with s1 s2 show ?case by simp
qed

lemma get_n_contents:
  "inv s \<Longrightarrow> n \<le> length (contents s) \<Longrightarrow>
     \<exists>s'. get_n n s = Some (take n (contents s), s') \<and> inv s' \<and> contents s' = drop n (contents s)"
proof (induction n arbitrary: s)
  case (Suc n)
  then obtain a q where q: "contents s = a # q" by (cases "contents s") auto
  then obtain s1 where "get s = Some (a, s1)" "inv s1" "contents s1 = q" using get Suc.prems(1) by blast
  with Suc.IH[of s1] Suc.prems(2) q show ?case by auto
qed simp

lemma get_n_blocks: "inv s \<Longrightarrow> length (contents s) < n \<Longrightarrow> get_n n s = None"
proof (induction n arbitrary: s)
  case (Suc n)
  show ?case
  proof (cases "contents s")
    case Nil
    then show ?thesis using get_empty Suc.prems(1) by simp
  next
    case (Cons a q)
    then obtain s1 where "get s = Some (a, s1)" "inv s1" "contents s1 = q" using get Suc.prems(1) by blast
    with Suc.IH[of s1] Suc.prems(2) Cons show ?thesis by simp
  qed
qed simp

end

section \<open>The ring buffer\<close>

text \<open>The entries from \<open>in_s\<close> up to \<open>in_e\<close>, around the end of the array, as the characters a reader gets.\<close>

definition key_char :: "ushort \<Rightarrow> char" where
  "key_char k = char_of (uint k)"

definition ring_len :: "tty \<Rightarrow> nat" where
  "ring_len t = (in_e t + 16 - in_s t) mod 16"

definition ring :: "tty \<Rightarrow> char list" where
  "ring t = map (\<lambda>i. key_char (input_buffer t ! ((in_s t + i) mod 16))) [0..<ring_len t]"

definition ring_inv :: "tty \<Rightarrow> bool" where
  "ring_inv t \<longleftrightarrow> length (input_buffer t) = 16 \<and> in_s t < 16 \<and> in_e t < 16 \<and> \<not> echo t"

lemma ring_len_less: "ring_len t < 16"
  by (simp add: ring_len_def)

lemma ring_end: "ring_inv t \<Longrightarrow> in_e t = (in_s t + ring_len t) mod 16"
  by (simp add: ring_inv_def ring_len_def mod_simps)

lemma mod16: "x < 32 \<Longrightarrow> x mod 16 = (if x < 16 then x else x - 16 :: nat)"
  by (simp add: mod_if)

lemma ring_len_unique:
  assumes "s < 16" "n < 16" shows "((s + n) mod 16 + 16 - s) mod 16 = (n :: nat)"
  using assms by (cases "s + n < 16") (simp_all add: mod16)

lemma ring_slot_free:
  assumes "i < n" "n < 16" "s < 16" shows "(s + i) mod 16 \<noteq> (s + n) mod (16 :: nat)"
  using assms by (auto simp: mod16)

lemma ring_put:
  assumes "ring_inv t"
  shows "\<exists>t'. tty_input k t = Some t' \<and> ring_inv t' \<and>
    ring t' = drop (length (ring t) + 1 - 15) (ring t @ [key_char k])"
proof -
  let ?s = "in_s t" and ?n = "ring_len t" and ?b = "(input_buffer t)[in_e t := k]"
  have b: "length (input_buffer t) = 16" "?s < 16" "in_e t < 16" "\<not> echo t" using assms by (auto simp: ring_inv_def)
  have e: "in_e t = (?s + ?n) mod 16" using ring_end[OF assms] .
  have old: "map (\<lambda>i. key_char (?b ! ((?s + i) mod 16))) [0..<?n] = ring t"
    unfolding ring_def e
    by (rule map_cong[OF refl], rule arg_cong[of _ _ key_char], rule nth_list_update_neq, rule not_sym)
      (simp add: ring_slot_free ring_len_less b(2))
  have new: "key_char (?b ! ((?s + ?n) mod 16)) = key_char k" using b e by simp
  have both: "map (\<lambda>i. key_char (?b ! ((?s + i) mod 16))) [0..<Suc ?n] = ring t @ [key_char k]"
    using old new by simp
  define e' where "e' = (?s + Suc ?n) mod 16"
  have e': "e' < 16" "(if inc16 (in_e t) = TTY_INBUF_LEN then 0 else inc16 (in_e t)) = e'"
    using b(3) unfolding e'_def add_Suc_right mod_Suc[of "?s + ?n"] e[symmetric]
    by (auto simp: inc16_def TTY_INBUF_LEN_def)
  show ?thesis
  proof (cases "?n < 15")
    case True
    have ne: "e' \<noteq> ?s" using True b(2) mod16[of "?s + Suc ?n"] unfolding e'_def by (auto split: if_splits)
    let ?t = "t\<lparr>input_buffer := ?b, in_e := e'\<rparr>"
    have "ring_len ?t = Suc ?n" using True b(2) ring_len_unique[of ?s "Suc ?n"] by (simp add: ring_len_def e'_def)
    then have "ring ?t = ring t @ [key_char k]" using both by (simp add: ring_def)
    moreover have "tty_input k t = Some ?t" using b e' ne
      by (cases "inc16 (in_e t) = TTY_INBUF_LEN") (simp_all add: tty_input_def)
    moreover have "ring_inv ?t" using b e' by (simp add: ring_inv_def)
    moreover have "length (ring t) = ?n" by (simp add: ring_def)
    ultimately show ?thesis using True by simp
  next
    case False
    then have n: "?n = 15" using ring_len_less[of t] by simp
    then have eq: "e' = ?s" using b(2) unfolding e'_def by simp
    let ?s' = "(?s + 1) mod 16"
    let ?t = "t\<lparr>input_buffer := ?b, in_e := e', in_s := ?s'\<rparr>"
    have s': "(let s = inc16 ?s in if s = TTY_INBUF_LEN then 0 else s) = ?s'"
      using b(2) by (auto simp: inc16_def TTY_INBUF_LEN_def Let_def mod_Suc)
    have "ring_len ?t = 15" using b(2) ring_len_unique[of ?s' 15] eq
      by (simp add: ring_len_def mod_simps)
    then have "ring ?t = map (\<lambda>i. key_char (?b ! ((?s + i) mod 16))) (map Suc [0..<15])"
      by (simp add: ring_def mod_simps)
    also have "\<dots> = drop 1 (map (\<lambda>i. key_char (?b ! ((?s + i) mod 16))) [0..<Suc ?n])"
      by (simp add: n drop_map map_Suc_upt del: upt_Suc)
    finally have "ring ?t = drop 1 (ring t @ [key_char k])" by (simp only: both)
    moreover have "tty_input k t = Some ?t" using b e' eq s'
      by (cases "inc16 (in_e t) = TTY_INBUF_LEN") (simp_all add: tty_input_def Let_def)
    moreover have "ring_inv ?t" using b e' by (simp add: ring_inv_def)
    moreover have "length (ring t) = 15" using n by (simp add: ring_def)
    ultimately show ?thesis by simp
  qed
qed

lemma ring_get:
  assumes "ring_inv t" "ring t = c # q"
  shows "\<exists>t'. tty_read_char t = Some (c, t') \<and> ring_inv t' \<and> ring t' = q"
proof -
  let ?s = "in_s t" and ?n = "ring_len t"
  have b: "length (input_buffer t) = 16" "?s < 16" "in_e t < 16" "\<not> echo t" using assms by (auto simp: ring_inv_def)
  obtain m where m: "?n = Suc m" using assms(2) by (cases ?n) (auto simp: ring_def)
  have ne: "in_e t \<noteq> ?s" using m b by (auto simp: ring_len_def)
  have cq: "c = key_char (input_buffer t ! ?s)"
      "q = map (\<lambda>i. key_char (input_buffer t ! ((?s + i) mod 16))) (map Suc [0..<m])"
    using assms(2) b(2) by (simp_all add: ring_def m map_Suc_upt upt_conv_Cons del: upt_Suc)
  let ?s' = "(?s + 1) mod 16"
  let ?t = "t\<lparr>in_s := ?s'\<rparr>"
  have s': "(if inc16 ?s = TTY_INBUF_LEN then 0 else inc16 ?s) = ?s'"
    using b(2) by (auto simp: inc16_def TTY_INBUF_LEN_def mod_Suc)
  have "tty_read_char t = Some (c, ?t)"
    using b ne s' by (auto simp: tty_read_char_def cq(1) key_char_def Let_def)
  moreover have "in_e t = (?s' + m) mod 16" using ring_end[OF assms(1)] by (simp add: m mod_simps)
  then have "ring_len ?t = m"
    using ring_len_unique[of ?s' m] ring_len_less[of t] m by (simp add: ring_len_def)
  then have "ring ?t = q" by (simp add: ring_def cq(2) mod_simps)
  ultimately show ?thesis using b by (simp add: ring_inv_def)
qed

interpretation ringq: bounded_queue ring_inv 15 ring key_char tty_input tty_read_char
proof
  show "ring_inv s \<Longrightarrow> length (ring s) \<le> 15" for s using ring_len_less[of s] by (simp add: ring_def)
  show "ring_inv s \<Longrightarrow> ring s = [] \<Longrightarrow> tty_read_char s = None" for s
    using ring_end[of s] by (simp add: ring_def tty_read_char_def ring_inv_def)
qed (rule ring_put ring_get; assumption)+

lemma tty_read_eq_get_n: "tty_read n t = ringq.get_n n t"
  by (induction n arbitrary: t) (simp_all add: split_def)

text \<open>
  C18: the keyboard buffer between the interrupt handler and a reader is a queue of fifteen characters:
  after any number of keys, a read of no more characters than are left returns the oldest of the last
  fifteen in the order they were typed, and the buffer then holds exactly the rest.
\<close>

theorem keyboard_buffer_fifo:
  assumes "ring_inv t" "n \<le> 15" "n \<le> length (ring t) + length keys"
  shows "\<exists>t1 t2. ringq.put_all keys t = Some t1 \<and>
    tty_read n t1 = Some (take n (drop (length (ring t) + length keys - 15) (ring t @ map key_char keys)), t2) \<and>
    ring t2 = drop n (drop (length (ring t) + length keys - 15) (ring t @ map key_char keys)) \<and> ring_inv t2"
proof -
  obtain t1 where t1: "ringq.put_all keys t = Some t1" "ring_inv t1"
      "ring t1 = drop (length (ring t) + length keys - 15) (ring t @ map key_char keys)"
    using ringq.put_all_contents[OF assms(1)] by blast
  have "n \<le> length (ring t1)" using assms(2,3) by (simp add: t1(3))
  from ringq.get_n_contents[OF t1(2) this] t1 show ?thesis by (auto simp: tty_read_eq_get_n)
qed

theorem keyboard_buffer_fifo_witness:
  "\<exists>t1 t2. ringq.put_all (map (\<lambda>i. word_of_nat i) [65..<85]) (create_tty 1 0 (replicate 16 0) []) = Some t1 \<and>
    tty_read 3 t1 = Some (''FGH'', t2) \<and> ring_inv t2"
proof -
  let ?t = "create_tty 1 0 (replicate 16 0) []" and ?k = "map (\<lambda>i. word_of_nat i :: ushort) [65..<85]"
  have i: "ring_inv ?t" and r: "ring ?t = []" by (simp_all add: ring_inv_def ring_def ring_len_def create_tty_def)
  have "take 3 (drop (length (ring ?t) + length ?k - 15) (ring ?t @ map key_char ?k)) = ''FGH''"
    by (simp add: r upt_rec key_char_def char_of_def)
  with keyboard_buffer_fifo[OF i, of 3 ?k] show ?thesis by (auto simp: r)
qed

section \<open>Modifiers\<close>

text \<open>The column is always the one of the modifiers, and only five of the six columns can be selected.\<close>

definition kbd_inv :: "kbd \<Rightarrow> bool" where
  "kbd_inv k \<longleftrightarrow> key_state k = key_state (create_key_state k)"

lemma create_key_state_range: "key_state (create_key_state k) \<in> {0, 1, 2, 3, 5}"
  by (simp add: create_key_state_def)

lemma kbd_inv_create [simp]: "kbd_inv (create_key_state k)"
  by (simp add: kbd_inv_def create_key_state_def Let_def)

lemma kbd_inv_escape [simp]: "kbd_inv (k\<lparr>escape := b\<rparr>) = kbd_inv k"
  by (simp add: kbd_inv_def create_key_state_def Let_def)

lemma length_german_keymap [simp]: "length german_keymap = 768"
  by (simp add: german_keymap_def)

lemma keymap_index:
  assumes "kbd_inv k"
  shows "unat (sc AND 0x7F :: uchar) * KEYMAP_STATES + key_state k < length german_keymap"
proof -
  have "sc AND 0x7F \<le> 0x7F" by (rule word_and_le1)
  then have "unat (sc AND 0x7F) \<le> 127" by (simp add: word_le_nat_alt)
  moreover have "key_state k \<le> 5" using assms create_key_state_range[of k] by (auto simp: kbd_inv_def)
  ultimately show ?thesis by (simp add: KEYMAP_STATES_def)
qed

lemma handle_key_ok:
  assumes "kbd_inv k"
  shows "\<exists>k' sc' key sw. handle_key german_keymap sc up k = Some (k', sc', key, sw) \<and> kbd_inv k' \<and>
    key = german_keymap ! (unat (sc AND 0x7F) * KEYMAP_STATES + key_state k)"
proof -
  define key where "key = german_keymap ! (unat (sc AND 0x7F) * KEYMAP_STATES + key_state k)"
  show ?thesis
    unfolding handle_key_def Let_def key_def[symmetric]
    using keymap_index[OF assms, of sc] assms
    by (cases "key = ALT"; cases "key = SHIFT"; cases "key = CTRL"; cases "key = CALOCK")
      (simp_all add: split_def key_def key_consts)
qed

section \<open>The interrupt handler\<close>

definition console_inv :: "console \<Rightarrow> bool" where
  "console_inv c \<longleftrightarrow> kbd_inv (keyboard c) \<and> length (ttys c) = NR_TTYS \<and> current_tty c < NR_TTYS \<and>
     2000 \<le> length (video c) \<and> list_all (\<lambda>t. tty_inv t \<and> ring_inv t) (ttys c)"

lemma tty_input_frame: "tty_input k t = Some t' \<Longrightarrow> tty_inv t \<Longrightarrow> tty_inv t'"
  by (auto simp: tty_input_def Let_def tty_inv_def tty_shape_def split: if_splits)

lemma set_current_tty_ok:
  assumes "console_inv c"
  shows "\<exists>c'. set_current_tty n c = Some c' \<and> console_inv c' \<and> ttys c' = ttys c \<and> keyboard c' = keyboard c"
proof (cases "n < 0 \<or> n \<ge> int NR_TTYS")
  case True
  then show ?thesis using assms by (auto simp: set_current_tty_def)
next
  case False
  then have n: "nat n < length (ttys c)" "nat n < NR_TTYS" using assms by (auto simp: console_inv_def)
  then have "tty_inv (ttys c ! nat n)" using assms by (auto simp: console_inv_def list_all_length)
  with assms obtain v where "print_tty (ttys c ! nat n) (video c) = Some v" "length v = length (video c)"
    using print_tty_rows[of "ttys c ! nat n" "video c"] by (auto simp: console_inv_def)
  then show ?thesis using assms False n by (simp add: set_current_tty_def console_inv_def)
qed

lemma console_inv_keyboard: "console_inv c \<Longrightarrow> kbd_inv k \<Longrightarrow> console_inv (c\<lparr>keyboard := k\<rparr>)"
  by (simp add: console_inv_def)

lemma console_input_ok:
  assumes "console_inv c" "i < NR_TTYS"
  shows "\<exists>t. tty_input key (ttys c ! i) = Some t \<and> console_inv (c\<lparr>ttys := (ttys c)[i := t]\<rparr>)"
proof -
  have i: "tty_inv (ttys c ! i)" "ring_inv (ttys c ! i)" using assms by (auto simp: console_inv_def list_all_length)
  obtain t where t: "tty_input key (ttys c ! i) = Some t" "ring_inv t" using ring_put[OF i(2)] by blast
  have "tty_inv t" using tty_input_frame[OF t(1) i(1)] .
  with t assms show ?thesis by (auto simp: console_inv_def list_all_length nth_list_update)
qed

lemma irq_tty_keyboard_ok:
  assumes inv: "console_inv c"
  shows "\<exists>c'. irq_tty_keyboard sc c = Some c' \<and> console_inv c'"
proof -
  have "kbd_inv (keyboard c)" using inv by (simp add: console_inv_def)
  then obtain k' sc' key sw where h: "handle_key german_keymap sc (sc AND KEYUP \<noteq> 0) (keyboard c) = Some (k', sc', key, sw)"
      "kbd_inv k'"
    using handle_key_ok by blast
  have i1: "console_inv (c\<lparr>keyboard := k'\<rparr>)" using console_inv_keyboard[OF inv h(2)] .
  then obtain c1 where c1: "(case sw of Some n \<Rightarrow> set_current_tty n (c\<lparr>keyboard := k'\<rparr>)
        | None \<Rightarrow> Some (c\<lparr>keyboard := k'\<rparr>)) = Some c1" "console_inv c1"
    using set_current_tty_ok[OF i1] by (cases sw) auto
  have cur: "current_tty c < NR_TTYS" using inv by (simp add: console_inv_def)
  from console_input_ok[OF c1(2) cur, of key] obtain t where
    "tty_input key (ttys c1 ! current_tty c) = Some t" "console_inv (c1\<lparr>ttys := (ttys c1)[current_tty c := t]\<rparr>)" by blast
  moreover have "current_tty c < length (ttys c1)" using c1(2) cur by (simp add: console_inv_def)
  ultimately show ?thesis using h(1) c1 by (simp add: irq_tty_keyboard_def Let_def)
qed

text \<open>
  C30: whatever the keyboard sends, the interrupt handler never reads outside the key table or writes
  outside an input buffer, a terminal switch only selects one of the four terminals, and every
  terminal's screen and buffer invariants hold afterwards.
\<close>

theorem irq_run_safe:
  assumes "console_inv c"
  shows "\<exists>c'. irq_run codes c = Some c' \<and> console_inv c'"
  using assms
proof (induction codes arbitrary: c)
  case (Cons sc codes)
  then obtain c1 where "irq_tty_keyboard sc c = Some c1" "console_inv c1" using irq_tty_keyboard_ok by blast
  with Cons.IH show ?case by simp
qed simp

definition console_demo :: console where
  "console_demo = \<lparr>keyboard = kbd_init, ttys = map (\<lambda>n. create_tty n 0 (replicate 16 0) (replicate 128 NUL)) [0..<4],
     current_tty = 0, video = replicate 2000 0\<rparr>"

lemma console_demo_inv: "console_inv console_demo"
proof -
  have "tty_inv (create_tty n 0 (replicate 16 0) (replicate 128 NUL)) \<and>
      ring_inv (create_tty n 0 (replicate 16 0) (replicate 128 NUL))" for n
    by (simp add: tty_inv_create) (simp add: ring_inv_def create_tty_def)
  then show ?thesis
    by (simp add: console_inv_def console_demo_def kbd_inv_def kbd_init_def create_key_state_def NR_TTYS_def list_all_iff)
qed

theorem irq_run_safe_witness:
  "\<exists>c'. irq_run [0x1D, 0x38, 0x3B, 0xE0, 0x38, 0x60, 0xFF] console_demo = Some c' \<and> console_inv c'"
  by (rule irq_run_safe) (rule console_demo_inv)

text \<open>
  Pressing a key that stands for a character, outside an extended sequence, appends the character
  the key table has for the current modifiers to the current terminal's buffer, and nothing else.
\<close>

lemma irq_delivers_key:
  assumes inv: "console_inv c" and plain: "\<not> escape (keyboard c)" "sc < 0x80"
    and char: "german_keymap ! (unat sc * KEYMAP_STATES + key_state (keyboard c)) < 0x100"
  shows "irq_tty_keyboard sc c = map_option (\<lambda>t. c\<lparr>ttys := (ttys c)[current_tty c := t]\<rparr>)
    (tty_input (german_keymap ! (unat sc * KEYMAP_STATES + key_state (keyboard c))) (ttys c ! current_tty c))"
proof -
  let ?i = "unat sc * KEYMAP_STATES + key_state (keyboard c)"
  define key where "key = german_keymap ! ?i"
  have low: "sc AND 0x7F = sc" using less_mask_eq[of sc 7] plain(2) by (simp add: mask_eq_exp_minus_1)
  have "sc AND 0x80 = (sc AND 0x7F) AND 0x80" by (simp only: low)
  then have up: "sc AND KEYUP = 0" by (simp add: KEYUP_def and.assoc)
  have key8: "key < 0x100" using char by (simp add: key_def)
  have "key AND 0xFF = key" using less_mask_eq[of key 8] key8 by (simp add: mask_eq_exp_minus_1)
  then have "key AND 0xFF00 = (key AND 0xFF) AND 0xFF00" by simp
  then have hi: "key AND 0xFF00 = 0" by (simp add: and.assoc)
  have ne: "sc \<noteq> 0xE0" "key \<noteq> SHIFT" "key \<noteq> CTRL" "key \<noteq> ALT" "key \<noteq> CALOCK" "\<not> 0x810 \<le> key"
    using plain(2) key8 by (auto simp: key_consts word_less_nat_alt word_le_nat_alt)
  have "kbd_inv (keyboard c)" using inv by (simp add: console_inv_def)
  then have "handle_key german_keymap sc False (keyboard c) = Some (keyboard c, sc, key, None)"
    unfolding handle_key_def Let_def low key_def[symmetric]
    using keymap_index[of "keyboard c" sc] plain(1) ne hi by (simp add: low)
  then show ?thesis
    using up plain(1) inv by (simp add: irq_tty_keyboard_def key_def[symmetric] console_inv_def Let_def)
qed

lemma irq_delivers_key_witness:
  "\<exists>c. irq_tty_keyboard 0x1E console_demo = Some c \<and> ring (ttys c ! 0) = ''a''"
proof -
  let ?t = "create_tty 0 0 (replicate 16 0) (replicate 128 NUL)"
  have t: "ttys console_demo ! 0 = ?t" "current_tty console_demo = 0" by (simp_all add: console_demo_def)
  have k: "german_keymap ! (unat (0x1E :: uchar) * KEYMAP_STATES + key_state (keyboard console_demo)) = 0x61"
    by (simp add: console_demo_def kbd_init_def KEYMAP_STATES_def german_keymap_def)
  have "irq_tty_keyboard 0x1E console_demo =
      map_option (\<lambda>t. console_demo\<lparr>ttys := (ttys console_demo)[0 := t]\<rparr>) (tty_input 0x61 ?t)"
    using irq_delivers_key[of console_demo "0x1E"] console_demo_inv k t by (simp add: console_demo_def kbd_init_def)
  moreover have "ring_inv ?t" "ring ?t = []" by (simp_all add: ring_inv_def ring_def ring_len_def create_tty_def)
  then obtain t' where "tty_input 0x61 ?t = Some t'" "ring t' = ''a''"
    using ring_put[of ?t "0x61"] by (auto simp: key_char_def char_of_def)
  ultimately show ?thesis by (simp add: console_demo_def)
qed

text \<open>
  The table's Alt+Shift column is dead. With Alt and Shift held the handler selects the AltGr
  column, and no combination of modifiers ever selects column four.
\<close>

lemma alt_shift_column_unused:
  "key_state (create_key_state k) \<noteq> 4 \<and>
   key_state (create_key_state (k\<lparr>shift := True, alt := True, ctrl := False\<rparr>)) = 3"
  by (simp add: create_key_state_def Let_def)

end
