(* ===== verification/Paging.thy ===== *)
theory Paging
  imports CString
begin

text \<open>
  Frames, page tables and page directories: \<^verbatim>\<open>src/mm/paging.c\<close>.

  The frame bitmap is the list of its 32-bit words. A page table is a list of 1024 entries, kept in a
  store indexed by the table's pointer; a directory holds such pointers. The memory behind the frames
  is a function from frame numbers to contents, so that \<^verbatim>\<open>clone_page\<close> is a copy. Tables come from
  \<^verbatim>\<open>_kmalloc_pa\<close>: the store gives the next pointer, and the parameter \<open>pa\<close> its physical address.
  A store outside the bitmap or the use of a missing table is \<open>None\<close>.
\<close>

definition FRAME_SIZE :: nat where "FRAME_SIZE = 0x1000"
definition PAGE_FLAG_PRESENT :: uint where "PAGE_FLAG_PRESENT = 1"
definition PAGE_FLAG_WRITE :: uint where "PAGE_FLAG_WRITE = 2"
definition PAGE_FLAG_USERMODE :: uint where "PAGE_FLAG_USERMODE = 4"

record page =
  pg_flags :: "12 word"
  pg_frame :: "20 word"

type_synonym page_table = "page list"

record page_directory =
  physTabs :: "uint list"
  physPos :: uint
  tables :: "nat option list"

record 'a pstate =
  framecount :: nat
  framemap :: "uint list"
  ptabs :: "nat \<Rightarrow> page_table option"
  next_tab :: nat
  frames :: "nat \<Rightarrow> 'a"

definition no_page :: page where
  "no_page = \<lparr>pg_flags = 0, pg_frame = 0\<rparr>"

section \<open>Frames\<close>

fun first_frame_loop :: "uint list \<Rightarrow> nat \<Rightarrow> uint" where
  "first_frame_loop [] i = 0xFFFFFFFF"
| "first_frame_loop (w # ws) i =
     (if w \<noteq> 0xFFFFFFFF then
        case find (\<lambda>j. w AND push_bit j 1 = 0) [0..<32] of
          Some j \<Rightarrow> word_of_nat (i * 32 + j)
        | None \<Rightarrow> first_frame_loop ws (Suc i)
      else first_frame_loop ws (Suc i))"

definition first_frame :: "'a pstate \<Rightarrow> uint" where
  "first_frame s = first_frame_loop (take (framecount s div 32) (framemap s)) 0"

definition set_frame :: "uint list \<Rightarrow> nat \<Rightarrow> uint list option" where
  "set_frame fm n =
     (if n div 32 < length fm then Some (fm[n div 32 := fm ! (n div 32) OR push_bit (n mod 32) 1]) else None)"

definition clear_frame :: "uint list \<Rightarrow> nat \<Rightarrow> uint list option" where
  "clear_frame fm n =
     (if n div 32 < length fm then Some (fm[n div 32 := fm ! (n div 32) AND NOT (push_bit (n mod 32) 1)]) else None)"

definition alloc_frame :: "page \<Rightarrow> uint \<Rightarrow> 'a pstate \<Rightarrow> (page \<times> 'a pstate) option" where
  "alloc_frame apage flags s =
    (let number = first_frame s in
     if pg_frame apage \<noteq> 0 then Some (apage, s)
     else do {
       fm \<leftarrow> set_frame (framemap s) (unat number);
       Some (\<lparr>pg_flags = ucast flags, pg_frame = ucast number\<rparr>, s\<lparr>framemap := fm\<rparr>)
     })"

definition free_frame :: "page \<Rightarrow> 'a pstate \<Rightarrow> (page \<times> 'a pstate) option" where
  "free_frame apage s =
    (let number = pg_frame apage; p = apage\<lparr>pg_frame := 0\<rparr> in
     if number \<noteq> 0 then map_option (\<lambda>fm. (p, s\<lparr>framemap := fm\<rparr>)) (clear_frame (framemap s) (unat number))
     else Some (p, s))"

section \<open>Tables and pages\<close>

definition make_table ::
  "(nat \<Rightarrow> uint) \<Rightarrow> nat \<Rightarrow> uint \<Rightarrow> page_directory \<Rightarrow> 'a pstate \<Rightarrow> page_directory \<times> 'a pstate" where
  "make_table pa index flags dir s =
    (let t = next_tab s in
     (dir\<lparr>physTabs := (physTabs dir)[index := pa t OR flags], tables := (tables dir)[index := Some t]\<rparr>,
      s\<lparr>ptabs := (ptabs s)(t \<mapsto> replicate 1024 no_page), next_tab := Suc t\<rparr>))"

text \<open>The entry of an address: its table's pointer and the index in it.\<close>

definition page_slot :: "page_directory \<Rightarrow> nat \<Rightarrow> 'a pstate \<Rightarrow> (nat \<times> page_table) option" where
  "page_slot dir tab s = do {
     t \<leftarrow> (if tab < length (tables dir) then tables dir ! tab else None);
     tbl \<leftarrow> ptabs s t;
     Some (t, tbl)
   }"

definition make_page ::
  "(nat \<Rightarrow> uint) \<Rightarrow> uint \<Rightarrow> uint \<Rightarrow> page_directory \<Rightarrow> bool \<Rightarrow> 'a pstate \<Rightarrow> (page \<times> page_directory \<times> 'a pstate) option" where
  "make_page pa address flags dir alloc s =
    (let index = unat address div FRAME_SIZE; tab = index div 1024;
         (dir1, s1) = (if physTabs dir ! tab = 0 then make_table pa tab flags dir s else (dir, s))
     in do {
       (t, tbl) \<leftarrow> page_slot dir1 tab s1;
       if alloc then do {
         (p, s2) \<leftarrow> alloc_frame (tbl ! (index mod 1024)) flags s1;
         Some (p, dir1, s2\<lparr>ptabs := (ptabs s2)(t \<mapsto> tbl[index mod 1024 := p])\<rparr>)
       }
       else Some (tbl ! (index mod 1024), dir1, s1)
     })"

definition free_page :: "uint \<Rightarrow> page_directory \<Rightarrow> 'a pstate \<Rightarrow> (page option \<times> 'a pstate) option" where
  "free_page address dir s =
    (let index = unat address div FRAME_SIZE; tab = index div 1024 in
     if physTabs dir ! tab = 0 then Some (None, s)
     else do {
       (t, tbl) \<leftarrow> page_slot dir tab s;
       (p, s1) \<leftarrow> free_frame (tbl ! (index mod 1024)) s;
       Some (Some p, s1\<lparr>ptabs := (ptabs s1)(t \<mapsto> tbl[index mod 1024 := p])\<rparr>)
     })"

definition get_page ::
  "(nat \<Rightarrow> uint) \<Rightarrow> uint \<Rightarrow> bool \<Rightarrow> page_directory \<Rightarrow> 'a pstate \<Rightarrow> (page option \<times> page_directory \<times> 'a pstate) option" where
  "get_page pa address mk dir s =
    (let index = unat address div FRAME_SIZE; tab = index div 1024 in
     if physTabs dir ! tab \<noteq> 0 then
       map_option (\<lambda>(t, tbl). (Some (tbl ! (index mod 1024)), dir, s)) (page_slot dir tab s)
     else if mk then
       map_option (\<lambda>(p, d, s1). (Some p, d, s1))
         (make_page pa address (PAGE_FLAG_PRESENT OR PAGE_FLAG_WRITE OR PAGE_FLAG_USERMODE) dir False s)
     else Some (None, dir, s))"

section \<open>Cloning and freeing directories\<close>

definition clone_page :: "nat \<Rightarrow> nat \<Rightarrow> 'a pstate \<Rightarrow> 'a pstate" where
  "clone_page src dest s = s\<lparr>frames := (frames s)(dest := frames s src)\<rparr>"

text \<open>The loop of \<^verbatim>\<open>clone_table\<close> counts down from 1024.\<close>

fun clone_entries :: "nat \<Rightarrow> page_table \<Rightarrow> page_table \<Rightarrow> 'a pstate \<Rightarrow> (page_table \<times> 'a pstate) option" where
  "clone_entries 0 src table s = Some (table, s)"
| "clone_entries (Suc i) src table s =
     (if pg_frame (src ! i) = 0 then clone_entries i src table s
      else do {
        (p, s1) \<leftarrow> alloc_frame (table ! i) (ucast (pg_flags (src ! i))) s;
        clone_entries i src (table[i := p]) (clone_page (unat (pg_frame (src ! i))) (unat (pg_frame p)) s1)
      })"

definition clone_table :: "page_table \<Rightarrow> 'a pstate \<Rightarrow> (nat \<times> 'a pstate) option" where
  "clone_table src s =
    (let t = next_tab s in do {
       (table, s1) \<leftarrow> clone_entries 1024 src (replicate 1024 no_page) (s\<lparr>next_tab := Suc t\<rparr>);
       Some (t, s1\<lparr>ptabs := (ptabs s1)(t \<mapsto> table)\<rparr>)
     })"

fun clone_tables ::
  "(nat \<Rightarrow> uint) \<Rightarrow> nat \<Rightarrow> page_directory \<Rightarrow> page_directory \<Rightarrow> page_directory \<Rightarrow> 'a pstate \<Rightarrow>
     (page_directory \<times> 'a pstate) option" where
  "clone_tables pa 0 kdir src dir s = Some (dir, s)"
| "clone_tables pa (Suc i) kdir src dir s =
     (case tables src ! i of
        None \<Rightarrow> clone_tables pa i kdir src dir s
      | Some t \<Rightarrow>
          if tables kdir ! i = Some t then
            clone_tables pa i kdir src
              (dir\<lparr>tables := (tables dir)[i := Some t], physTabs := (physTabs dir)[i := physTabs src ! i]\<rparr>) s
          else do {
            tbl \<leftarrow> ptabs s t;
            (t', s1) \<leftarrow> clone_table tbl s;
            clone_tables pa i kdir src
              (dir\<lparr>tables := (tables dir)[i := Some t'],
                   physTabs := (physTabs dir)[i := pa t' OR PAGE_FLAG_PRESENT OR PAGE_FLAG_WRITE OR PAGE_FLAG_USERMODE]\<rparr>) s1
          })"

definition clone_directory ::
  "(nat \<Rightarrow> uint) \<Rightarrow> uint \<Rightarrow> page_directory \<Rightarrow> page_directory \<Rightarrow> 'a pstate \<Rightarrow> (page_directory \<times> 'a pstate) option" where
  "clone_directory pa phys kdir src s =
     clone_tables pa 1024 kdir src
       \<lparr>physTabs = replicate 1024 0, physPos = phys, tables = replicate 1024 None\<rparr> s"

fun free_entries :: "nat \<Rightarrow> page_table \<Rightarrow> 'a pstate \<Rightarrow> 'a pstate option" where
  "free_entries 0 table s = Some s"
| "free_entries (Suc i) table s =
     (let number = pg_frame (table ! i) in
      if number \<noteq> 0 then
        Option.bind (clear_frame (framemap s) (unat number)) (\<lambda>fm. free_entries i table (s\<lparr>framemap := fm\<rparr>))
      else free_entries i table s)"

definition free_table :: "nat \<Rightarrow> 'a pstate \<Rightarrow> 'a pstate option" where
  "free_table t s = do {
     table \<leftarrow> ptabs s t;
     s1 \<leftarrow> free_entries 1024 table s;
     Some (s1\<lparr>ptabs := (ptabs s1)(t := None)\<rparr>)
   }"

fun free_tables :: "nat \<Rightarrow> page_directory \<Rightarrow> page_directory \<Rightarrow> 'a pstate \<Rightarrow> 'a pstate option" where
  "free_tables 0 kdir dir s = Some s"
| "free_tables (Suc i) kdir dir s =
     (case tables dir ! i of
        None \<Rightarrow> free_tables i kdir dir s
      | Some t \<Rightarrow>
          if tables kdir ! i \<noteq> Some t then Option.bind (free_table t s) (free_tables i kdir dir)
          else free_tables i kdir dir s)"

definition free_directory :: "page_directory \<Rightarrow> page_directory \<Rightarrow> 'a pstate \<Rightarrow> 'a pstate option" where
  "free_directory kdir dir s = free_tables 1024 kdir dir s"

text \<open>The macro \<^verbatim>\<open>MAP_MEMORY\<close>: \<open>k\<close> pages from \<open>start\<close> on.\<close>

fun map_memory ::
  "(nat \<Rightarrow> uint) \<Rightarrow> nat \<Rightarrow> uint \<Rightarrow> uint \<Rightarrow> page_directory \<Rightarrow> 'a pstate \<Rightarrow> (page_directory \<times> 'a pstate) option" where
  "map_memory pa 0 i flags dir s = Some (dir, s)"
| "map_memory pa (Suc k) i flags dir s = do {
     (p, dir1, s1) \<leftarrow> make_page pa i flags dir True s;
     map_memory pa k (i + 0x1000) flags dir1 s1
   }"

section \<open>The set of used frames\<close>

definition frame_used :: "uint list \<Rightarrow> nat \<Rightarrow> bool" where
  "frame_used fm n \<longleftrightarrow> n div 32 < length fm \<and> bit (fm ! (n div 32)) (n mod 32)"

lemma and_push_bit: "(w :: uint) AND push_bit j 1 = 0 \<longleftrightarrow> \<not> bit w j \<or> 32 \<le> j"
proof -
  have "w AND push_bit j 1 = 0 \<longleftrightarrow> (\<forall>n < 32. bit w n \<longrightarrow> n \<noteq> j)"
    by (auto simp: bit_eq_iff [where 'a = "32 word"] bit_simps)
  then show ?thesis by (metis not_le)
qed

lemmas and_power = and_push_bit[unfolded push_bit_of_1]

lemma set_frame_used:
  assumes "set_frame fm n = Some fm'"
  shows "length fm' = length fm" "frame_used fm' m \<longleftrightarrow> m = n \<or> frame_used fm m"
proof -
  have m: "m = n \<longleftrightarrow> m div 32 = n div 32 \<and> m mod 32 = n mod 32" by (metis div_mult_mod_eq)
  show "length fm' = length fm" using assms by (auto simp: set_frame_def split: if_splits)
  show "frame_used fm' m \<longleftrightarrow> m = n \<or> frame_used fm m"
    using assms by (auto simp: set_frame_def frame_used_def nth_list_update m bit_simps split: if_splits)
qed

lemma clear_frame_used:
  assumes "clear_frame fm n = Some fm'"
  shows "length fm' = length fm" "frame_used fm' m \<longleftrightarrow> m \<noteq> n \<and> frame_used fm m"
proof -
  have m: "m = n \<longleftrightarrow> m div 32 = n div 32 \<and> m mod 32 = n mod 32" by (metis div_mult_mod_eq)
  show "length fm' = length fm" using assms by (auto simp: clear_frame_def split: if_splits)
  show "frame_used fm' m \<longleftrightarrow> m \<noteq> n \<and> frame_used fm m"
    using assms by (auto simp: clear_frame_def frame_used_def nth_list_update m bit_simps split: if_splits)
qed

lemma set_frame_Some: "n div 32 < length fm \<Longrightarrow> \<exists>fm'. set_frame fm n = Some fm'"
  by (simp add: set_frame_def)

lemma clear_frame_Some: "n div 32 < length fm \<Longrightarrow> \<exists>fm'. clear_frame fm n = Some fm'"
  by (simp add: clear_frame_def)

text \<open>A bitmap is determined by its length and the frames it marks.\<close>

lemma framemap_eqI:
  assumes "length fm = length fm'" "\<And>n. frame_used fm n = frame_used fm' n"
  shows "fm = fm'"
proof (rule nth_equalityI)
  show "length fm = length fm'" by fact
  fix i assume i: "i < length fm"
  show "fm ! i = fm' ! i"
  proof (rule bit_word_eqI)
    fix j assume "j < LENGTH(32)"
    then have "(i * 32 + j) div 32 = i" "(i * 32 + j) mod 32 = j" by auto
    with assms(2)[of "i * 32 + j"] i assms(1) show "bit (fm ! i) j = bit (fm' ! i) j" by (simp add: frame_used_def)
  qed
qed

lemma frame_used_Cons:
  "frame_used (w # ws) n \<longleftrightarrow> (if n < 32 then bit w n else frame_used ws (n - 32))"
proof (cases "n < 32")
  case False
  then have "n div 32 = Suc ((n - 32) div 32)" "n mod 32 = (n - 32) mod 32" by (simp_all add: le_div_geq le_mod_geq)
  with False show ?thesis by (simp add: frame_used_def)
qed (simp add: frame_used_def)

lemma full_word: "(w :: uint) = 0xFFFFFFFF \<longleftrightarrow> (\<forall>j < 32. bit w j)"
proof -
  have "(0xFFFFFFFF :: uint) = - 1" by (simp add: mask_eq_exp_minus_1 flip: mask_full)
  moreover have "w = - 1 \<longleftrightarrow> (\<forall>j < 32. bit w j)" by (auto simp: bit_eq_iff bit_simps)
  ultimately show ?thesis by (simp only:)
qed

section \<open>Allocating frames\<close>

lemma find_upt:
  "find P [0..<n] = (if \<exists>j < n. P j then Some (LEAST j. P j) else None)"
proof (cases "\<exists>j < n. P j")
  case True
  then have l: "P (LEAST j. P j)" "(LEAST j. P j) < n" by (auto intro: LeastI Least_le[THEN order.strict_trans1])
  have "find P [0..<n] = Some ([0..<n] ! (LEAST j. P j))"
    unfolding find_Some_iff using l not_less_Least by (intro exI[of _ "LEAST j. P j"]) auto
  then show ?thesis using True l by simp
qed (auto simp: find_None_iff)

lemma first_frame_loop_full:
  "(\<And>n. n < 32 * length ws \<Longrightarrow> frame_used ws n) \<Longrightarrow> first_frame_loop ws i = 0xFFFFFFFF"
proof (induction ws arbitrary: i)
  case (Cons w ws)
  have "w = 0xFFFFFFFF" using Cons.prems by (auto simp: full_word frame_used_Cons)
  moreover have "frame_used ws n" if "n < 32 * length ws" for n
    using Cons.prems[of "n + 32"] that by (simp add: frame_used_Cons)
  ultimately show ?case using Cons.IH by simp
qed simp

lemma first_frame_loop_free:
  "n < 32 * length ws \<Longrightarrow> \<not> frame_used ws n \<Longrightarrow> (\<And>m. m < n \<Longrightarrow> frame_used ws m) \<Longrightarrow>
     first_frame_loop ws i = word_of_nat (i * 32 + n)"
proof (induction ws arbitrary: i n)
  case (Cons w ws)
  let ?P = "\<lambda>j. w AND push_bit j 1 = 0"
  show ?case
  proof (cases "n < 32")
    case True
    have n: "\<not> bit w n" "\<And>m. m < n \<Longrightarrow> bit w m"
      using Cons.prems(2,3) True by (simp_all add: frame_used_Cons)
    have "(LEAST j. ?P j) = n" by (rule Least_equality) (use n True in \<open>auto simp: and_power not_less[symmetric]\<close>)
    moreover have "\<exists>j < 32. ?P j" using n True by (auto simp: and_power)
    moreover have "w \<noteq> 0xFFFFFFFF" using n True by (auto simp: full_word)
    ultimately show ?thesis by (simp add: find_upt)
  next
    case False
    have "bit w j" if "j < 32" for j using Cons.prems(3)[of j] False that by (simp add: frame_used_Cons)
    then have "w = 0xFFFFFFFF" by (simp add: full_word)
    moreover have "first_frame_loop ws (Suc i) = word_of_nat (Suc i * 32 + (n - 32))"
    proof (rule Cons.IH)
      show "n - 32 < 32 * length ws" using Cons.prems(1) False by simp
      show "\<not> frame_used ws (n - 32)" using Cons.prems(2) False by (simp add: frame_used_Cons)
      show "frame_used ws m" if "m < n - 32" for m
        using Cons.prems(3)[of "m + 32"] that by (simp add: frame_used_Cons)
    qed
    ultimately show ?thesis using False by (simp add: word_of_nat_eq_iff)
  qed
qed simp

text \<open>The bitmap covers all frames, their numbers fit the 20 bits of an entry, and frame 0 is taken.\<close>

definition pstate_wf :: "'a pstate \<Rightarrow> bool" where
  "pstate_wf s \<longleftrightarrow> framecount s = 32 * length (framemap s) \<and> framecount s \<le> 2 ^ 20 \<and> frame_used (framemap s) 0"

definition free_frames :: "'a pstate \<Rightarrow> nat set" where
  "free_frames s = {n. n < framecount s \<and> \<not> frame_used (framemap s) n}"

lemma finite_free_frames [simp]: "finite (free_frames s)"
  by (simp add: free_frames_def)

lemma first_frame_least:
  assumes "pstate_wf s" "free_frames s \<noteq> {}"
  shows "first_frame s = word_of_nat (Min (free_frames s))"
proof -
  have w: "framecount s div 32 = length (framemap s)" "framecount s = 32 * length (framemap s)"
    using assms(1) by (auto simp: pstate_wf_def)
  have mn: "Min (free_frames s) < 32 * length (framemap s)" "\<not> frame_used (framemap s) (Min (free_frames s))"
    using Min_in[of "free_frames s"] assms(2) w(2) by (auto simp: free_frames_def)
  have below: "frame_used (framemap s) m" if "m < Min (free_frames s)" for m
  proof (rule ccontr)
    assume "\<not> frame_used (framemap s) m"
    then have "m \<in> free_frames s" using that mn(1) w(2) by (simp add: free_frames_def)
    then have "Min (free_frames s) \<le> m" by (intro Min_le) simp_all
    then show False using that by linarith
  qed
  show ?thesis
    using first_frame_loop_free[OF mn below, of 0] unfolding first_frame_def w(1) by (simp only: take_all mult_0 add_0 order_refl)
qed

lemma first_frame_none:
  assumes "pstate_wf s" "free_frames s = {}"
  shows "first_frame s = 0xFFFFFFFF"
  using assms first_frame_loop_full[of "framemap s" 0]
  by (auto simp: pstate_wf_def free_frames_def first_frame_def)

lemma alloc_frame_ok:
  assumes wf: "pstate_wf s" and free: "free_frames s \<noteq> {}" and p: "pg_frame p = 0"
  shows "\<exists>n fm. n = Min (free_frames s) \<and> n \<in> free_frames s \<and> 0 < n \<and>
    alloc_frame p flags s = Some (\<lparr>pg_flags = ucast flags, pg_frame = word_of_nat n\<rparr>, s\<lparr>framemap := fm\<rparr>) \<and>
    unat (word_of_nat n :: 20 word) = n \<and> pstate_wf (s\<lparr>framemap := fm\<rparr>) \<and>
    free_frames (s\<lparr>framemap := fm\<rparr>) = free_frames s - {n}"
proof -
  define n where "n = Min (free_frames s)"
  have n: "n \<in> free_frames s" unfolding n_def using free by (intro Min_in) auto
  have b: "n < 32 * length (framemap s)" "n < 2 ^ 20" using n wf by (auto simp: free_frames_def pstate_wf_def)
  have n0: "0 < n" using n wf by (cases n) (auto simp: free_frames_def pstate_wf_def)
  have "n div 32 < length (framemap s)" using b(1) by (simp add: less_mult_imp_div_less mult.commute)
  then obtain fm where fm: "set_frame (framemap s) n = Some fm" using set_frame_Some by blast
  have u: "unat (word_of_nat n :: uint) = n" "unat (word_of_nat n :: 20 word) = n"
    using b(2) by (simp_all add: unsigned_of_nat take_bit_nat_eq_self)
  have "ucast (word_of_nat n :: uint) = (word_of_nat n :: 20 word)"
    by (rule word_unat_eq_iff[THEN iffD2]) (use b(2) u in \<open>simp add: unsigned_ucast_eq take_bit_nat_eq_self\<close>)
  then have "alloc_frame p flags s =
      Some (\<lparr>pg_flags = ucast flags, pg_frame = word_of_nat n\<rparr>, s\<lparr>framemap := fm\<rparr>)"
    using p fm u(1) by (simp add: alloc_frame_def first_frame_least[OF wf free] n_def[symmetric])
  moreover have "pstate_wf (s\<lparr>framemap := fm\<rparr>)" "free_frames (s\<lparr>framemap := fm\<rparr>) = free_frames s - {n}"
    using set_frame_used[OF fm] wf by (auto simp: pstate_wf_def free_frames_def)
  ultimately show ?thesis using n n0 u(2) n_def by blast
qed

lemma alloc_frame_exhausted:
  assumes "pstate_wf s" "free_frames s = {}" "pg_frame p = 0"
  shows "alloc_frame p flags s = None"
proof -
  have "length (framemap s) \<le> 2 ^ 15" using assms(1) by (simp add: pstate_wf_def)
  then show ?thesis using assms(3) by (simp add: alloc_frame_def first_frame_none[OF assms(1,2)] set_frame_def)
qed

section \<open>Cloning a table\<close>

definition mapped :: "page_table \<Rightarrow> nat \<Rightarrow> nat set" where
  "mapped src i = {j. j < i \<and> pg_frame (src ! j) \<noteq> 0}"

definition entry_frame :: "page_table \<Rightarrow> nat \<Rightarrow> nat" where
  "entry_frame tbl j = unat (pg_frame (tbl ! j))"

text \<open>What the loop of \<^verbatim>\<open>clone_table\<close> has achieved when it has done the entries below \<open>i\<close>.\<close>

definition clone_post ::
  "nat \<Rightarrow> page_table \<Rightarrow> page_table \<Rightarrow> 'a pstate \<Rightarrow> page_table \<Rightarrow> 'a pstate \<Rightarrow> bool" where
  "clone_post i src table s table' s' \<longleftrightarrow>
     pstate_wf s' \<and> ptabs s' = ptabs s \<and> next_tab s' = next_tab s \<and> framecount s' = framecount s \<and>
     length (framemap s') = length (framemap s) \<and> length table' = length table \<and>
     (\<forall>j. j \<notin> mapped src i \<longrightarrow> table' ! j = table ! j) \<and>
     (\<forall>j \<in> mapped src i. pg_flags (table' ! j) = pg_flags (src ! j) \<and> pg_frame (table' ! j) \<noteq> 0 \<and>
        frames s' (entry_frame table' j) = frames s (entry_frame src j)) \<and>
     entry_frame table' ` mapped src i \<subseteq> free_frames s \<and>
     free_frames s' = free_frames s - entry_frame table' ` mapped src i \<and>
     card (entry_frame table' ` mapped src i) = card (mapped src i) \<and>
     (\<forall>n. n \<notin> entry_frame table' ` mapped src i \<longrightarrow> frames s' n = frames s n)"

lemma finite_mapped [simp]: "finite (mapped src i)"
  by (simp add: mapped_def)

lemma mapped_0 [simp]: "mapped src 0 = {}"
  by (simp add: mapped_def)

lemma mapped_Suc:
  "mapped src (Suc i) = (if pg_frame (src ! i) \<noteq> 0 then insert i (mapped src i) else mapped src i)"
  by (auto simp: mapped_def less_Suc_eq)

lemma card_mapped_Suc: "pg_frame (src ! i) \<noteq> 0 \<Longrightarrow> card (mapped src (Suc i)) = Suc (card (mapped src i))"
  by (subst mapped_Suc) (simp, simp add: mapped_def)

lemma mapped_less: "j \<in> mapped src i \<Longrightarrow> j < i"
  by (simp add: mapped_def)

lemma flags_uint: "ucast (ucast (w :: 12 word) :: uint) = w"
  by (rule bit_word_eqI) (simp add: bit_simps)

text \<open>One more entry: \<open>s1\<close> is the state after the allocation of frame \<open>n\<close> and the copy.\<close>

lemma clone_post_step:
  assumes post: "clone_post i src (table[i := p]) s1 table' s'"
    and i: "i < length table" and m: "pg_frame (src ! i) \<noteq> 0"
    and p: "pg_flags p = pg_flags (src ! i)" "unat (pg_frame p) = n" "0 < n"
    and n: "n \<in> free_frames s" and free: "free_frames s1 = free_frames s - {n}"
    and s1: "ptabs s1 = ptabs s" "next_tab s1 = next_tab s" "framecount s1 = framecount s"
      "length (framemap s1) = length (framemap s)" "frames s1 = (frames s)(n := frames s (entry_frame src i))"
    and src: "\<And>j. j < Suc i \<Longrightarrow> entry_frame src j \<notin> free_frames s"
  shows "clone_post (Suc i) src table s table' s'"
proof -
  let ?F = "entry_frame table' ` mapped src i"
  note P = post[unfolded clone_post_def]
  have ti: "table' ! i = p" using P i by (auto simp: mapped_def)
  have ei: "entry_frame table' i = n" using ti p(2) by (simp add: entry_frame_def)
  have F: "entry_frame table' ` mapped src (Suc i) = insert n ?F" using m ei by (simp add: mapped_Suc)
  have nF: "n \<notin> ?F" using P free by blast
  have keep: "table' ! j = table ! j" if "j \<notin> mapped src (Suc i)" for j
    using P that m by (auto simp: mapped_Suc)
  have new: "pg_flags (table' ! j) = pg_flags (src ! j) \<and> pg_frame (table' ! j) \<noteq> 0 \<and>
      frames s' (entry_frame table' j) = frames s (entry_frame src j)" if j: "j \<in> mapped src (Suc i)" for j
  proof (cases "j = i")
    case True
    have "pg_frame p \<noteq> 0" using p(2,3) by auto
    moreover have "frames s' n = frames s1 n" using P nF by blast
    ultimately show ?thesis using True ti ei p(1) s1(5) by simp
  next
    case False
    then have j': "j \<in> mapped src i" using j m by (simp add: mapped_Suc)
    have "entry_frame src j \<noteq> n" using src[of j] n j mapped_less[OF j] by auto
    then show ?thesis using P j' s1(5) by simp
  qed
  have "card (insert n ?F) = card (mapped src (Suc i))"
    using P nF by (simp add: card_mapped_Suc[OF m])
  moreover have "frames s' k = frames s k" if "k \<notin> insert n ?F" for k using P that s1(5) by simp
  moreover have "insert n ?F \<subseteq> free_frames s" "free_frames s' = free_frames s - insert n ?F" using P free n by auto
  ultimately show ?thesis
    unfolding clone_post_def F using P keep new s1 by auto
qed

lemma clone_entries_ok:
  assumes "i \<le> length src" "length table = length src" "\<And>j. j < i \<Longrightarrow> pg_frame (table ! j) = 0" "pstate_wf s"
    "\<And>j. j < i \<Longrightarrow> entry_frame src j \<notin> free_frames s" "card (mapped src i) \<le> card (free_frames s)"
  shows "\<exists>table' s'. clone_entries i src table s = Some (table', s') \<and> clone_post i src table s table' s'"
  using assms
proof (induction i arbitrary: table s)
  case 0
  then show ?case by (simp add: clone_post_def)
next
  case (Suc i)
  show ?case
  proof (cases "pg_frame (src ! i) = 0")
    case True
    then have "mapped src (Suc i) = mapped src i" by (simp add: mapped_Suc)
    then show ?thesis using Suc.IH[of table s] Suc.prems True by (simp add: clone_post_def)
  next
    case False
    then have card: "card (mapped src (Suc i)) = Suc (card (mapped src i))" by (rule card_mapped_Suc)
    then have "free_frames s \<noteq> {}" using Suc.prems(6) by auto
    from alloc_frame_ok[OF Suc.prems(4) this, of "table ! i" "ucast (pg_flags (src ! i))"] Suc.prems(3)
    obtain n fm where n: "n \<in> free_frames s" "0 < n" "unat (word_of_nat n :: 20 word) = n"
        "pstate_wf (s\<lparr>framemap := fm\<rparr>)" "free_frames (s\<lparr>framemap := fm\<rparr>) = free_frames s - {n}"
      and a: "alloc_frame (table ! i) (ucast (pg_flags (src ! i))) s =
        Some (\<lparr>pg_flags = ucast (ucast (pg_flags (src ! i)) :: uint), pg_frame = word_of_nat n\<rparr>, s\<lparr>framemap := fm\<rparr>)"
      by auto
    define p where "p = \<lparr>pg_flags = ucast (ucast (pg_flags (src ! i)) :: uint), pg_frame = word_of_nat n\<rparr>"
    define s1 where "s1 = clone_page (entry_frame src i) n (s\<lparr>framemap := fm\<rparr>)"
    have pf: "pg_flags p = pg_flags (src ! i)" "unat (pg_frame p) = n" using n(3) by (simp_all add: p_def flags_uint)
    have len: "length fm = length (framemap s)" using n(4) Suc.prems(4) by (simp add: pstate_wf_def)
    have s1: "pstate_wf s1" "free_frames s1 = free_frames s - {n}" "ptabs s1 = ptabs s" "next_tab s1 = next_tab s"
        "framecount s1 = framecount s" "length (framemap s1) = length (framemap s)"
        "frames s1 = (frames s)(n := frames s (entry_frame src i))"
      using n(4,5) len by (simp_all add: s1_def clone_page_def pstate_wf_def free_frames_def)
    have "\<exists>table' s'. clone_entries i src (table[i := p]) s1 = Some (table', s') \<and>
        clone_post i src (table[i := p]) s1 table' s'"
    proof (rule Suc.IH)
      show "card (mapped src i) \<le> card (free_frames s1)" using card Suc.prems(6) n(1) s1(2) by simp
      show "entry_frame src j \<notin> free_frames s1" if "j < i" for j using Suc.prems(5)[of j] that s1(2) by simp
    qed (use Suc.prems s1 in auto)
    then obtain table' s' where r: "clone_entries i src (table[i := p]) s1 = Some (table', s')"
        "clone_post i src (table[i := p]) s1 table' s'" by blast
    have "clone_post (Suc i) src table s table' s'"
      using Suc.prems(1,2,5) by (intro clone_post_step[OF r(2) _ False pf n(2,1) s1(2-7)]) auto
    moreover have "clone_entries (Suc i) src table s = Some (table', s')"
      using a r(1) False n(3) by (simp add: p_def[symmetric] s1_def entry_frame_def pf(2))
    ultimately show ?thesis by blast
  qed
qed

text \<open>A table as seen from the frames: its frames, and when it is a copy of another one.\<close>

definition frames_of :: "page_table \<Rightarrow> nat set" where
  "frames_of tbl = entry_frame tbl ` mapped tbl 1024"

definition table_ok :: "'a pstate \<Rightarrow> page_table \<Rightarrow> bool" where
  "table_ok s tbl \<longleftrightarrow> length tbl = 1024 \<and> (\<forall>j < 1024. entry_frame tbl j \<notin> free_frames s)"

definition table_copy :: "'a pstate \<Rightarrow> 'a pstate \<Rightarrow> page_table \<Rightarrow> page_table \<Rightarrow> bool" where
  "table_copy s s' src tbl \<longleftrightarrow> length tbl = 1024 \<and> mapped tbl 1024 = mapped src 1024 \<and>
     (\<forall>j < 1024. j \<notin> mapped src 1024 \<longrightarrow> tbl ! j = no_page) \<and>
     (\<forall>j \<in> mapped src 1024. pg_flags (tbl ! j) = pg_flags (src ! j) \<and>
        frames s' (entry_frame tbl j) = frames s (entry_frame src j)) \<and>
     inj_on (entry_frame tbl) (mapped tbl 1024)"

lemma clone_table_ok:
  assumes wf: "pstate_wf s" and src: "table_ok s src" and room: "card (mapped src 1024) \<le> card (free_frames s)"
  shows "\<exists>s' tbl. clone_table src s = Some (next_tab s, s') \<and> pstate_wf s' \<and>
    ptabs s' = (ptabs s)(next_tab s \<mapsto> tbl) \<and> next_tab s' = Suc (next_tab s) \<and>
    framecount s' = framecount s \<and> length (framemap s') = length (framemap s) \<and>
    table_copy s s' src tbl \<and> frames_of tbl \<subseteq> free_frames s \<and> card (frames_of tbl) = card (mapped src 1024) \<and>
    free_frames s' = free_frames s - frames_of tbl \<and> (\<forall>n. n \<notin> frames_of tbl \<longrightarrow> frames s' n = frames s n)"
proof -
  let ?s = "s\<lparr>next_tab := Suc (next_tab s)\<rparr>" and ?e = "replicate 1024 no_page"
  have f: "free_frames ?s = free_frames s" "pstate_wf ?s = pstate_wf s" by (simp_all add: free_frames_def pstate_wf_def)
  have "\<exists>tbl s1. clone_entries 1024 src ?e ?s = Some (tbl, s1) \<and> clone_post 1024 src ?e ?s tbl s1"
    by (rule clone_entries_ok) (use assms f in \<open>auto simp: table_ok_def no_page_def\<close>)
  then obtain tbl s1 where c: "clone_entries 1024 src ?e ?s = Some (tbl, s1)" "clone_post 1024 src ?e ?s tbl s1"
    by blast
  note P = c(2)[unfolded clone_post_def f]
  have none: "tbl ! j = no_page" if "j < 1024" "j \<notin> mapped src 1024" for j
    using P that by simp
  have m: "mapped tbl 1024 = mapped src 1024"
  proof (rule set_eqI)
    show "j \<in> mapped tbl 1024 \<longleftrightarrow> j \<in> mapped src 1024" for j
      using P none[of j] by (cases "j \<in> mapped src 1024") (auto simp: mapped_def no_page_def)
  qed
  have inj: "inj_on (entry_frame tbl) (mapped tbl 1024)"
    using P unfolding m by (intro eq_card_imp_inj_on) simp_all
  let ?t = "s1\<lparr>ptabs := (ptabs s1)(next_tab s \<mapsto> tbl)\<rparr>"
  have g: "free_frames ?t = free_frames s1" "pstate_wf ?t = pstate_wf s1" "frames ?t = frames s1"
    by (simp_all add: free_frames_def pstate_wf_def)
  have "clone_table src s = Some (next_tab s, ?t)" using c(1) by (simp add: clone_table_def Let_def)
  moreover have "table_copy s ?t src tbl" using P none m inj unfolding table_copy_def g by auto
  moreover have "frames_of tbl = entry_frame tbl ` mapped src 1024" by (simp add: frames_of_def m)
  ultimately show ?thesis using P g by (intro exI[of _ ?t] exI[of _ tbl]) simp
qed

section \<open>Cloning a directory\<close>

text \<open>
  The frames the entry \<open>k\<close> of a directory owns: those of a table that is not the kernel's. The number
  of pages a clone needs is the number of entries of these tables that are in use.
\<close>

definition own_table :: "page_directory \<Rightarrow> page_directory \<Rightarrow> nat \<Rightarrow> nat option" where
  "own_table kdir dir k = (if tables dir ! k = tables kdir ! k then None else tables dir ! k)"

definition own_frames :: "page_directory \<Rightarrow> page_directory \<Rightarrow> 'a pstate \<Rightarrow> nat \<Rightarrow> nat set" where
  "own_frames kdir dir s k = (case own_table kdir dir k of None \<Rightarrow> {} | Some t \<Rightarrow> frames_of (the (ptabs s t)))"

definition own_pages :: "page_directory \<Rightarrow> page_directory \<Rightarrow> 'a pstate \<Rightarrow> nat \<Rightarrow> nat" where
  "own_pages kdir dir s k =
     (case own_table kdir dir k of None \<Rightarrow> 0 | Some t \<Rightarrow> card (mapped (the (ptabs s t)) 1024))"

definition dir_ok :: "page_directory \<Rightarrow> page_directory \<Rightarrow> 'a pstate \<Rightarrow> bool" where
  "dir_ok kdir dir s \<longleftrightarrow> (\<forall>k < 1024. \<forall>t. own_table kdir dir k = Some t \<longrightarrow>
     t < next_tab s \<and> (\<exists>tbl. ptabs s t = Some tbl \<and> table_ok s tbl)) \<and>
     (\<forall>k < 1024. \<forall>t. tables kdir ! k = Some t \<longrightarrow> t < next_tab s)"

definition entry_copied ::
  "(nat \<Rightarrow> uint) \<Rightarrow> page_directory \<Rightarrow> page_directory \<Rightarrow> page_directory \<Rightarrow> 'a pstate \<Rightarrow> 'a pstate \<Rightarrow> nat \<Rightarrow> bool" where
  "entry_copied pa kdir src dir s s' k \<longleftrightarrow>
     (case tables src ! k of
        None \<Rightarrow> tables dir ! k = None \<and> physTabs dir ! k = 0
      | Some t \<Rightarrow>
          if tables kdir ! k = Some t then tables dir ! k = Some t \<and> physTabs dir ! k = physTabs src ! k
          else \<exists>t' tbl tbl'. tables dir ! k = Some t' \<and> next_tab s \<le> t' \<and> ptabs s t = Some tbl \<and>
            ptabs s' t' = Some tbl' \<and> table_copy s s' tbl tbl' \<and>
            physTabs dir ! k = pa t' OR PAGE_FLAG_PRESENT OR PAGE_FLAG_WRITE OR PAGE_FLAG_USERMODE)"

definition clones ::
  "(nat \<Rightarrow> uint) \<Rightarrow> nat \<Rightarrow> page_directory \<Rightarrow> page_directory \<Rightarrow> page_directory \<Rightarrow> 'a pstate \<Rightarrow>
     page_directory \<Rightarrow> 'a pstate \<Rightarrow> bool" where
  "clones pa i kdir src dir s d s' \<longleftrightarrow>
     pstate_wf s' \<and> framecount s' = framecount s \<and> length (framemap s') = length (framemap s) \<and>
     length (tables d) = 1024 \<and> length (physTabs d) = 1024 \<and> physPos d = physPos dir \<and>
     (\<forall>k. i \<le> k \<longrightarrow> tables d ! k = tables dir ! k \<and> physTabs d ! k = physTabs dir ! k) \<and>
     (\<forall>k < i. entry_copied pa kdir src d s s' k) \<and>
     (\<forall>t < next_tab s. ptabs s' t = ptabs s t) \<and> next_tab s \<le> next_tab s' \<and>
     (\<forall>n. n \<notin> free_frames s \<longrightarrow> frames s' n = frames s n) \<and>
     (\<forall>k < i. own_frames kdir d s' k \<subseteq> free_frames s) \<and>
     free_frames s' = free_frames s - (\<Union>k < i. own_frames kdir d s' k) \<and>
     (\<forall>k < i. \<forall>l < i. k \<noteq> l \<longrightarrow> own_frames kdir d s' k \<inter> own_frames kdir d s' l = {}) \<and>
     (\<forall>k < i. \<forall>l < i. k \<noteq> l \<longrightarrow> own_table kdir d k \<noteq> None \<longrightarrow> own_table kdir d k \<noteq> own_table kdir d l)"

lemma entry_copied_own:
  "entry_copied pa kdir src d s s' k \<Longrightarrow> own_table kdir d k = Some t \<Longrightarrow>
     next_tab s \<le> t \<and> (\<exists>tbl. ptabs s' t = Some tbl)"
  by (auto simp: entry_copied_def own_table_def split: option.splits if_splits)

lemma table_copy_trans:
  assumes "table_copy s s1 src tbl" "\<And>n. n \<in> frames_of tbl \<Longrightarrow> frames s' n = frames s1 n"
  shows "table_copy s s' src tbl"
  using assms by (auto simp: table_copy_def frames_of_def)

lemma table_copy_from:
  assumes "table_copy s1 s' src tbl" "table_ok s src" "\<And>n. n \<notin> free_frames s \<Longrightarrow> frames s1 n = frames s n"
  shows "table_copy s s' src tbl"
  using assms mapped_less[of _ src 1024] by (auto simp: table_copy_def table_ok_def)

lemma entry_copied_from:
  assumes e: "entry_copied pa kdir src d s1 s' k" and ok: "dir_ok kdir src s" and k: "k < 1024"
    and keep: "\<And>t. t < next_tab s \<Longrightarrow> ptabs s1 t = ptabs s t" "next_tab s \<le> next_tab s1"
      "\<And>n. n \<notin> free_frames s \<Longrightarrow> frames s1 n = frames s n"
  shows "entry_copied pa kdir src d s s' k"
proof (cases "own_table kdir src k")
  case None
  then show ?thesis using e by (auto simp: entry_copied_def own_table_def split: option.splits if_splits)
next
  case (Some t)
  then have t: "tables src ! k = Some t" "tables kdir ! k \<noteq> Some t" by (auto simp: own_table_def split: if_splits)
  obtain tbl where tbl: "t < next_tab s" "ptabs s t = Some tbl" "table_ok s tbl"
    using ok Some k unfolding dir_ok_def by blast
  obtain t' tbl' where c: "tables d ! k = Some t'" "next_tab s1 \<le> t'" "ptabs s' t' = Some tbl'" "table_copy s1 s' tbl tbl'"
      "physTabs d ! k = pa t' OR PAGE_FLAG_PRESENT OR PAGE_FLAG_WRITE OR PAGE_FLAG_USERMODE"
    using e t tbl keep(1) by (auto simp: entry_copied_def)
  have "table_copy s s' tbl tbl'" using table_copy_from[OF c(4) tbl(3) keep(3)] .
  then show ?thesis using t tbl c keep(2) by (auto simp: entry_copied_def)
qed

lemma dir_ok_mono:
  assumes "dir_ok kdir src s" "\<And>t. t < next_tab s \<Longrightarrow> ptabs s1 t = ptabs s t" "next_tab s \<le> next_tab s1"
    "free_frames s1 \<subseteq> free_frames s"
  shows "dir_ok kdir src s1"
proof -
  have "table_ok s tbl \<Longrightarrow> table_ok s1 tbl" for tbl using assms(4) by (auto simp: table_ok_def)
  then show ?thesis using assms unfolding dir_ok_def by (metis order_less_le_trans)
qed

lemma own_pages_keep:
  assumes "dir_ok kdir src s" "\<And>t. t < next_tab s \<Longrightarrow> ptabs s1 t = ptabs s t" "k < 1024"
  shows "own_pages kdir src s1 k = own_pages kdir src s k"
  using assms by (auto simp: own_pages_def dir_ok_def split: option.splits)

text \<open>The directory with one more entry filled, in the state after the entry's table was cloned.\<close>

lemma clones_own_step:
  assumes c: "clones pa i kdir src (dir\<lparr>tables := (tables dir)[i := Some t'], physTabs := ph\<rparr>) s1 d s'"
    and len: "length (tables dir) = 1024" "i < 1024" "length (physTabs dir) = 1024"
      "ph = (physTabs dir)[i := pa t' OR PAGE_FLAG_PRESENT OR PAGE_FLAG_WRITE OR PAGE_FLAG_USERMODE]"
    and ok: "dir_ok kdir src s" and own: "own_table kdir src i = Some t" "ptabs s t = Some tbl"
    and t': "t' = next_tab s" "ptabs s1 = (ptabs s)(t' \<mapsto> tbl')" "next_tab s1 = Suc (next_tab s)"
    and s1: "framecount s1 = framecount s" "length (framemap s1) = length (framemap s)"
      "table_copy s s1 tbl tbl'" "frames_of tbl' \<subseteq> free_frames s" "free_frames s1 = free_frames s - frames_of tbl'"
      "\<And>n. n \<notin> frames_of tbl' \<Longrightarrow> frames s1 n = frames s n"
  shows "clones pa (Suc i) kdir src dir s d s'"
proof -
  note C = c[unfolded clones_def]
  have keep: "ptabs s1 u = ptabs s u" if "u < next_tab s" for u using that t' by simp
  have fr: "frames s1 n = frames s n" if "n \<notin> free_frames s" for n using s1(4,6) that by blast
  have di: "tables d ! i = Some t'" "physTabs d ! i = pa t' OR PAGE_FLAG_PRESENT OR PAGE_FLAG_WRITE OR PAGE_FLAG_USERMODE"
    using C len by auto
  have src_i: "tables src ! i = Some t" "tables kdir ! i \<noteq> Some t" using own(1) by (auto simp: own_table_def split: if_splits)
  have "t' \<noteq> u" if "tables kdir ! i = Some u" for u using ok that len(2) t'(1) by (auto simp: dir_ok_def)
  then have "Some t' \<noteq> tables kdir ! i" by metis
  then have owni: "own_table kdir d i = Some t'" using di(1) by (simp add: own_table_def)
  have pt: "ptabs s' t' = Some tbl'" using C t' by simp
  then have F: "own_frames kdir d s' i = frames_of tbl'" using owni by (simp add: own_frames_def)
  have Cfr: "frames s' n = frames s1 n" if "n \<notin> free_frames s1" for n using C that by simp
  have Csub: "own_frames kdir d s' k \<subseteq> free_frames s1" if "k < i" for k using C that by simp
  have Cdis: "own_frames kdir d s' k \<inter> own_frames kdir d s' l = {}" if "k < i" "l < i" "k \<noteq> l" for k l using C that by simp
  have "frames s' n = frames s1 n" if "n \<in> frames_of tbl'" for n using Cfr that s1(5) by simp
  then have "table_copy s s' tbl tbl'" using table_copy_trans[OF s1(3)] by blast
  then have ci: "entry_copied pa kdir src d s s' i"
    unfolding entry_copied_def using src_i di own(2) pt t'(1) by auto
  have ck: "entry_copied pa kdir src d s s' k" if "k < i" for k
    using C that len(2) t'(3) by (intro entry_copied_from[OF _ ok _ keep _ fr]) simp_all
  have U: "(\<Union>k < Suc i. own_frames kdir d s' k) = frames_of tbl' \<union> (\<Union>k < i. own_frames kdir d s' k)"
    by (simp add: lessThan_Suc F)
  have sub: "own_frames kdir d s' k \<subseteq> free_frames s" if "k < Suc i" for k
    using Csub[of k] that s1(4,5) F by (cases "k = i") auto
  have dis: "own_frames kdir d s' k \<inter> own_frames kdir d s' l = {}" if "k < Suc i" "l < Suc i" "k \<noteq> l" for k l
  proof -
    have o: "own_frames kdir d s' m \<inter> frames_of tbl' = {}" if "m < i" for m using Csub[OF that] s1(5) by blast
    consider "k = i" "l < i" | "l = i" "k < i" | "k < i" "l < i" using \<open>k < Suc i\<close> \<open>l < Suc i\<close> \<open>k \<noteq> l\<close> by linarith
    then show ?thesis
      by cases (use o F Cdis \<open>k \<noteq> l\<close> in blast)+
  qed
  have tdis: "own_table kdir d k \<noteq> own_table kdir d l" if "k < Suc i" "l < Suc i" "k \<noteq> l" "own_table kdir d k \<noteq> None" for k l
  proof -
    have o: "own_table kdir d m \<noteq> Some t'" if "m < i" for m
      using entry_copied_own[of pa kdir src d s1 s' m t'] C that t'(1,3) by auto
    consider "k = i" "l < i" | "l = i" "k < i" | "k < i" "l < i" using \<open>k < Suc i\<close> \<open>l < Suc i\<close> \<open>k \<noteq> l\<close> by linarith
    then show ?thesis by cases (use o owni C \<open>k \<noteq> l\<close> that(4) in \<open>simp_all, metis\<close>)
  qed
  have frs: "frames s' n = frames s n" if "n \<notin> free_frames s" for n using Cfr[of n] fr[of n] that s1(5) by simp
  have free: "free_frames s' = free_frames s - (frames_of tbl' \<union> (\<Union>k < i. own_frames kdir d s' k))"
    using C s1(5) by auto
  have pts: "ptabs s' u = ptabs s u" if "u < next_tab s" for u using C keep[OF that] that t'(3) by simp
  have rest: "tables d ! k = tables dir ! k \<and> physTabs d ! k = physTabs dir ! k" if "Suc i \<le> k" for k
    using C that len by simp
  have "\<forall>k < Suc i. entry_copied pa kdir src d s s' k" using ci ck by (simp add: less_Suc_eq)
  then show ?thesis
    unfolding clones_def U using C sub dis tdis frs free pts rest s1(1,2) t'(3) by simp
qed

lemma clones_shared_step:
  assumes c: "clones pa i kdir src (dir\<lparr>tables := (tables dir)[i := Some t], physTabs := (physTabs dir)[i := physTabs src ! i]\<rparr>) s d s'"
    and len: "length (tables dir) = 1024" "length (physTabs dir) = 1024" "i < 1024"
    and t: "tables src ! i = Some t" "tables kdir ! i = Some t"
  shows "clones pa (Suc i) kdir src dir s d s'"
proof -
  note C = c[unfolded clones_def]
  have di: "tables d ! i = Some t" "physTabs d ! i = physTabs src ! i" using C len by auto
  have "own_table kdir d i = None" using di t by (simp add: own_table_def)
  moreover from this have "own_frames kdir d s' i = {}" by (simp add: own_frames_def)
  moreover have "entry_copied pa kdir src d s s' i" using di t by (simp add: entry_copied_def)
  ultimately show ?thesis
    using C unfolding clones_def by (auto simp: less_Suc_eq lessThan_Suc)
qed

lemma clones_none_step:
  assumes c: "clones pa i kdir src dir s d s'" and e: "tables dir ! i = None" "physTabs dir ! i = 0"
    and t: "tables src ! i = None"
  shows "clones pa (Suc i) kdir src dir s d s'"
proof -
  note C = c[unfolded clones_def]
  have di: "tables d ! i = None" "physTabs d ! i = 0" using C e by auto
  have "own_table kdir d i = None" using di by (simp add: own_table_def)
  moreover from this have "own_frames kdir d s' i = {}" by (simp add: own_frames_def)
  moreover have "entry_copied pa kdir src d s s' i" using di t by (simp add: entry_copied_def)
  ultimately show ?thesis using C unfolding clones_def by (auto simp: less_Suc_eq lessThan_Suc)
qed

lemma clone_tables_ok:
  assumes "i \<le> 1024" "length (tables dir) = 1024" "length (physTabs dir) = 1024" "pstate_wf s" "dir_ok kdir src s"
    "\<And>k. k < i \<Longrightarrow> tables dir ! k = None \<and> physTabs dir ! k = 0"
    "(\<Sum>k < i. own_pages kdir src s k) \<le> card (free_frames s)"
  shows "\<exists>d s'. clone_tables pa i kdir src dir s = Some (d, s') \<and> clones pa i kdir src dir s d s'"
  using assms
proof (induction i arbitrary: dir s)
  case 0
  then show ?case by (simp add: clones_def)
next
  case (Suc i)
  have i: "i < 1024" "i \<le> 1024" using Suc.prems(1) by auto
  have sum: "(\<Sum>k < i. own_pages kdir src s k) + own_pages kdir src s i \<le> card (free_frames s)" using Suc.prems(7) by simp
  show ?case
  proof (cases "tables src ! i")
    case None
    have "\<exists>d s'. clone_tables pa i kdir src dir s = Some (d, s') \<and> clones pa i kdir src dir s d s'"
      using Suc.prems i sum by (intro Suc.IH) auto
    then show ?thesis using clones_none_step[OF _ _ _ None, of pa kdir dir s] Suc.prems(6)[of i] None by fastforce
  next
    case t: (Some t)
    show ?thesis
    proof (cases "tables kdir ! i = Some t")
      case True
      let ?dir = "dir\<lparr>tables := (tables dir)[i := Some t], physTabs := (physTabs dir)[i := physTabs src ! i]\<rparr>"
      have "\<exists>d s'. clone_tables pa i kdir src ?dir s = Some (d, s') \<and> clones pa i kdir src ?dir s d s'"
        using Suc.prems i sum by (intro Suc.IH) auto
      then show ?thesis using clones_shared_step[OF _ Suc.prems(2,3) i(1) t True, of pa s] t True by auto
    next
      case False
      then have own: "own_table kdir src i = Some t" using t by (simp add: own_table_def)
      then obtain tbl where tbl: "ptabs s t = Some tbl" "table_ok s tbl" using Suc.prems(5) i(1) unfolding dir_ok_def by blast
      have pages: "own_pages kdir src s i = card (mapped tbl 1024)" using own tbl by (simp add: own_pages_def)
      then have "card (mapped tbl 1024) \<le> card (free_frames s)" using sum by simp
      from clone_table_ok[OF Suc.prems(4) tbl(2) this] obtain s1 tbl' where
        s1: "clone_table tbl s = Some (next_tab s, s1)" "pstate_wf s1" "ptabs s1 = (ptabs s)(next_tab s \<mapsto> tbl')"
          "next_tab s1 = Suc (next_tab s)" "framecount s1 = framecount s" "length (framemap s1) = length (framemap s)"
          "table_copy s s1 tbl tbl'" "frames_of tbl' \<subseteq> free_frames s" "card (frames_of tbl') = card (mapped tbl 1024)"
          "free_frames s1 = free_frames s - frames_of tbl'" "\<And>n. n \<notin> frames_of tbl' \<Longrightarrow> frames s1 n = frames s n"
        by blast
      let ?ph = "(physTabs dir)[i := pa (next_tab s) OR PAGE_FLAG_PRESENT OR PAGE_FLAG_WRITE OR PAGE_FLAG_USERMODE]"
      let ?dir = "dir\<lparr>tables := (tables dir)[i := Some (next_tab s)], physTabs := ?ph\<rparr>"
      have keep: "ptabs s1 u = ptabs s u" if "u < next_tab s" for u using that s1(3) by simp
      have "card (free_frames s1) = card (free_frames s) - card (mapped tbl 1024)"
        using s1(8,9,10) by (simp add: card_Diff_subset finite_subset[OF s1(8)])
      moreover have "(\<Sum>k < i. own_pages kdir src s1 k) = (\<Sum>k < i. own_pages kdir src s k)"
        using own_pages_keep[OF Suc.prems(5) keep] i(1) by (intro sum.cong) auto
      ultimately have room: "(\<Sum>k < i. own_pages kdir src s1 k) \<le> card (free_frames s1)" using sum pages by simp
      have ok1: "dir_ok kdir src s1" using dir_ok_mono[OF Suc.prems(5) keep] s1(4,10) by auto
      have "\<exists>d s'. clone_tables pa i kdir src ?dir s1 = Some (d, s') \<and> clones pa i kdir src ?dir s1 d s'"
        using Suc.prems(1,2,3,6) i s1(2) ok1 room by (intro Suc.IH) auto
      then obtain d s' where r: "clone_tables pa i kdir src ?dir s1 = Some (d, s')" "clones pa i kdir src ?dir s1 d s'" by blast
      have "clones pa (Suc i) kdir src dir s d s'"
        by (rule clones_own_step[OF r(2) Suc.prems(2) i(1) Suc.prems(3) refl Suc.prems(5) own tbl(1) refl s1(3,4,5,6,7,8,10,11)])
      moreover have "clone_tables pa (Suc i) kdir src dir s = Some (d, s')" using t False tbl(1) s1(1) r(1) by simp
      ultimately show ?thesis by blast
    qed
  qed
qed

section \<open>Freeing\<close>

lemma free_entries_ok:
  assumes "pstate_wf s" "\<And>j. j \<in> mapped table i \<Longrightarrow> entry_frame table j < framecount s"
  shows "\<exists>fm. free_entries i table s = Some (s\<lparr>framemap := fm\<rparr>) \<and> pstate_wf (s\<lparr>framemap := fm\<rparr>) \<and>
    length fm = length (framemap s) \<and> free_frames (s\<lparr>framemap := fm\<rparr>) = free_frames s \<union> entry_frame table ` mapped table i"
  using assms
proof (induction i arbitrary: s)
  case 0
  then show ?case by (intro exI[of _ "framemap s"]) simp
next
  case (Suc i)
  show ?case
  proof (cases "pg_frame (table ! i) = 0")
    case True
    then show ?thesis using Suc.IH[OF Suc.prems(1)] Suc.prems(2) by (simp add: mapped_Suc)
  next
    case False
    let ?n = "entry_frame table i"
    have n: "?n < framecount s" "0 < ?n"
      using Suc.prems(2)[of i] False by (auto simp: mapped_Suc entry_frame_def unat_gt_0)
    then have "?n div 32 < length (framemap s)" using Suc.prems(1) by (simp add: pstate_wf_def less_mult_imp_div_less mult.commute)
    then obtain fm where fm: "clear_frame (framemap s) ?n = Some fm" using clear_frame_Some by blast
    let ?s = "s\<lparr>framemap := fm\<rparr>"
    have s1: "pstate_wf ?s" "free_frames ?s = insert ?n (free_frames s)"
      using clear_frame_used[OF fm] Suc.prems(1) n by (auto simp: pstate_wf_def free_frames_def)
    have "\<And>j. j \<in> mapped table i \<Longrightarrow> entry_frame table j < framecount ?s" using Suc.prems(2) by (simp add: mapped_def)
    from Suc.IH[OF s1(1) this] obtain fm' where
      "free_entries i table ?s = Some (s\<lparr>framemap := fm'\<rparr>)" "pstate_wf (s\<lparr>framemap := fm'\<rparr>)" "length fm' = length fm"
      "free_frames (s\<lparr>framemap := fm'\<rparr>) = free_frames ?s \<union> entry_frame table ` mapped table i" by auto
    moreover have "length fm = length (framemap s)" using clear_frame_used[OF fm] by simp
    ultimately show ?thesis using False fm s1(2) by (auto simp: Let_def mapped_Suc entry_frame_def)
  qed
qed

lemma free_tables_ok:
  assumes "pstate_wf s"
    "\<And>k t. k < i \<Longrightarrow> own_table kdir dir k = Some t \<Longrightarrow> \<exists>tbl. ptabs s t = Some tbl"
    "\<And>k. k < i \<Longrightarrow> own_frames kdir dir s k \<subseteq> {..<framecount s}"
    "\<And>k l. k < i \<Longrightarrow> l < i \<Longrightarrow> k \<noteq> l \<Longrightarrow> own_table kdir dir k \<noteq> None \<Longrightarrow> own_table kdir dir k \<noteq> own_table kdir dir l"
  shows "\<exists>s'. free_tables i kdir dir s = Some s' \<and> pstate_wf s' \<and> length (framemap s') = length (framemap s) \<and>
    framecount s' = framecount s \<and> frames s' = frames s \<and>
    free_frames s' = free_frames s \<union> (\<Union>k < i. own_frames kdir dir s k) \<and>
    (\<forall>t. (\<forall>k < i. own_table kdir dir k \<noteq> Some t) \<longrightarrow> ptabs s' t = ptabs s t)"
  using assms
proof (induction i arbitrary: s)
  case 0
  then show ?case by simp
next
  case (Suc i)
  show ?case
  proof (cases "own_table kdir dir i")
    case None
    then have "free_tables (Suc i) kdir dir s = free_tables i kdir dir s"
      by (auto simp: own_table_def split: option.splits if_splits)
    moreover have "own_frames kdir dir s i = {}" using None by (simp add: own_frames_def)
    moreover have "\<exists>s'. free_tables i kdir dir s = Some s' \<and> pstate_wf s' \<and> length (framemap s') = length (framemap s) \<and>
        framecount s' = framecount s \<and> frames s' = frames s \<and>
        free_frames s' = free_frames s \<union> (\<Union>k < i. own_frames kdir dir s k) \<and>
        (\<forall>t. (\<forall>k < i. own_table kdir dir k \<noteq> Some t) \<longrightarrow> ptabs s' t = ptabs s t)"
    proof (rule Suc.IH[OF Suc.prems(1)])
      show "\<exists>tbl. ptabs s u = Some tbl" if "k < i" "own_table kdir dir k = Some u" for k u
        by (rule Suc.prems(2)[OF _ that(2)]) (use that(1) in simp)
    qed (use Suc.prems(3,4) in simp_all)
    ultimately show ?thesis using None by (simp add: lessThan_Suc less_Suc_eq)
  next
    case (Some t)
    obtain tbl where tbl: "ptabs s t = Some tbl" using Suc.prems(2)[OF _ Some] by auto
    have F: "own_frames kdir dir s i = frames_of tbl" using Some tbl by (simp add: own_frames_def)
    have "\<And>j. j \<in> mapped tbl 1024 \<Longrightarrow> entry_frame tbl j < framecount s"
      using Suc.prems(3)[of i] by (auto simp: F frames_of_def)
    from free_entries_ok[of s tbl 1024, OF Suc.prems(1) this] obtain fm where
      fm: "free_entries 1024 tbl s = Some (s\<lparr>framemap := fm\<rparr>)" "pstate_wf (s\<lparr>framemap := fm\<rparr>)" "length fm = length (framemap s)"
      "free_frames (s\<lparr>framemap := fm\<rparr>) = free_frames s \<union> frames_of tbl" by (auto simp: frames_of_def)
    let ?s = "s\<lparr>framemap := fm, ptabs := (ptabs s)(t := None)\<rparr>"
    have ft: "free_table t s = Some ?s" using tbl fm(1) by (simp add: free_table_def)
    have s1: "pstate_wf ?s" "free_frames ?s = free_frames s \<union> frames_of tbl"
      using fm(2,4) by (simp_all add: pstate_wf_def free_frames_def)
    have ne: "own_table kdir dir k \<noteq> Some t" if "k < i" for k using Suc.prems(4)[of i k] Some that by auto
    have own: "own_frames kdir dir ?s k = own_frames kdir dir s k" if "k < i" for k
      using ne[OF that] by (auto simp: own_frames_def split: option.splits)
    have "\<exists>s'. free_tables i kdir dir ?s = Some s' \<and> pstate_wf s' \<and> length (framemap s') = length (framemap ?s) \<and>
      framecount s' = framecount ?s \<and> frames s' = frames ?s \<and>
      free_frames s' = free_frames ?s \<union> (\<Union>k < i. own_frames kdir dir ?s k) \<and>
      (\<forall>t. (\<forall>k < i. own_table kdir dir k \<noteq> Some t) \<longrightarrow> ptabs s' t = ptabs ?s t)"
    proof (rule Suc.IH[OF s1(1)])
      show "\<exists>tbl. ptabs ?s u = Some tbl" if "k < i" "own_table kdir dir k = Some u" for k u
        using Suc.prems(2)[of k u] ne[of k] that by auto
      show "own_frames kdir dir ?s k \<subseteq> {..<framecount ?s}" if "k < i" for k using Suc.prems(3)[of k] own that by simp
    qed (use Suc.prems(4) in simp)
    moreover have "free_tables (Suc i) kdir dir s = free_tables i kdir dir ?s"
      using Some ft by (auto simp: own_table_def split: option.splits if_splits)
    ultimately show ?thesis using fm(3) s1(2) own F Some by (auto simp: lessThan_Suc less_Suc_eq)
  qed
qed

lemma framemap_eqI_free:
  assumes "free_frames s' = free_frames s" "framecount s' = framecount s" "length (framemap s') = length (framemap s)"
    "pstate_wf s"
  shows "framemap s' = framemap s"
proof (rule framemap_eqI)
  show "length (framemap s') = length (framemap s)" by fact
  show "frame_used (framemap s') m = frame_used (framemap s) m" for m
  proof (cases "m < framecount s")
    case True
    then have "m \<in> free_frames s' \<longleftrightarrow> \<not> frame_used (framemap s') m" "m \<in> free_frames s \<longleftrightarrow> \<not> frame_used (framemap s) m"
      using assms(2) by (simp_all add: free_frames_def)
    then show ?thesis using assms(1) by blast
  next
    case False
    then have "\<not> m div 32 < length (framemap s)" using assms(4) by (auto simp: pstate_wf_def)
    then show ?thesis using assms(3) by (simp add: frame_used_def)
  qed
qed

section \<open>Properties\<close>

text \<open>
  A page without a frame gets the lowest free frame, which is never one that is in use; only that
  frame's bit changes. When no frame is free, the bitmap is written outside its bounds instead of an
  error being reported.
\<close>

lemma alloc_frame_lowest_free:
  assumes wf: "pstate_wf s" and p: "pg_frame p = 0"
  shows "if free_frames s = {} then alloc_frame p flags s = None
    else \<exists>s'. alloc_frame p flags s = Some (\<lparr>pg_flags = ucast flags, pg_frame = word_of_nat (Min (free_frames s))\<rparr>, s') \<and>
      pstate_wf s' \<and> free_frames s' = free_frames s - {Min (free_frames s)} \<and> frames s' = frames s"
proof (cases "free_frames s = {}")
  case True
  then show ?thesis using alloc_frame_exhausted[OF wf _ p] by simp
next
  case False
  from alloc_frame_ok[OF wf False p, of flags] obtain fm where
    "alloc_frame p flags s =
       Some (\<lparr>pg_flags = ucast flags, pg_frame = word_of_nat (Min (free_frames s))\<rparr>, s\<lparr>framemap := fm\<rparr>)"
    "pstate_wf (s\<lparr>framemap := fm\<rparr>)" "free_frames (s\<lparr>framemap := fm\<rparr>) = free_frames s - {Min (free_frames s)}" by auto
  with False show ?thesis by simp
qed

text \<open>A machine with 64 frames, of which 0 to 32 and 34 are in use, and one table with one page.\<close>

definition demo_table :: page_table where
  "demo_table = \<lparr>pg_flags = 7, pg_frame = 5\<rparr> # replicate 1023 no_page"

definition demo_pstate :: "string pstate" where
  "demo_pstate = \<lparr>framecount = 64, framemap = [0xFFFFFFFF, 0x5], ptabs = [0 \<mapsto> demo_table], next_tab = 1,
     frames = (\<lambda>n. if n = 5 then ''page'' else [])\<rparr>"

lemma demo_used: "m < 33 \<Longrightarrow> frame_used (framemap demo_pstate) m"
  using full_word[of "0xFFFFFFFF"] by (cases "m = 32") (auto simp: demo_pstate_def frame_used_Cons)

lemma demo_wf: "pstate_wf demo_pstate"
  using demo_used[of 0] by (simp add: pstate_wf_def demo_pstate_def)

lemma demo_free_33: "33 \<in> free_frames demo_pstate"
  by (simp add: free_frames_def frame_used_def demo_pstate_def bit_numeral_rec)

lemma demo_Min: "Min (free_frames demo_pstate) = 33"
proof (rule Min_eqI)
  show "33 \<le> m" if "m \<in> free_frames demo_pstate" for m
    using that demo_used[of m] by (cases "33 \<le> m") (auto simp: free_frames_def)
qed (simp_all add: demo_free_33)

lemma alloc_frame_lowest_free_witness:
  "\<exists>s'. alloc_frame no_page 3 demo_pstate = Some (\<lparr>pg_flags = 3, pg_frame = 33\<rparr>, s')"
proof -
  have "free_frames demo_pstate \<noteq> {}" using demo_free_33 by blast
  with alloc_frame_lowest_free[OF demo_wf, of no_page 3] demo_Min show ?thesis by (auto simp: no_page_def)
qed

text \<open>
  Freeing the frame that was just allocated restores the bitmap exactly and leaves the page
  without a frame.
\<close>

lemma alloc_free_frame:
  assumes wf: "pstate_wf s" and free: "free_frames s \<noteq> {}" and p: "pg_frame p = 0"
  shows "\<exists>q s1. alloc_frame p flags s = Some (q, s1) \<and> free_frame q s1 = Some (q\<lparr>pg_frame := 0\<rparr>, s)"
proof -
  obtain n fm where n: "n \<in> free_frames s" "0 < n" "unat (word_of_nat n :: 20 word) = n"
      "pstate_wf (s\<lparr>framemap := fm\<rparr>)" "free_frames (s\<lparr>framemap := fm\<rparr>) = free_frames s - {n}"
    and a: "alloc_frame p flags s = Some (\<lparr>pg_flags = ucast flags, pg_frame = word_of_nat n\<rparr>, s\<lparr>framemap := fm\<rparr>)"
    using alloc_frame_ok[OF wf free p, of flags] by auto
  let ?q = "\<lparr>pg_flags = ucast flags, pg_frame = word_of_nat n\<rparr>"
  have n0: "word_of_nat n \<noteq> (0 :: 20 word)" using n(2,3) by auto
  have len: "length fm = length (framemap s)" using n(4) wf by (simp add: pstate_wf_def)
  have "n div 32 < length fm"
    using n(1) wf len by (simp add: free_frames_def pstate_wf_def less_mult_imp_div_less mult.commute)
  then obtain fm' where fm': "clear_frame fm n = Some fm'" using clear_frame_Some by blast
  have "framemap (s\<lparr>framemap := fm'\<rparr>) = framemap s"
  proof (rule framemap_eqI_free[OF _ _ _ wf])
    have "free_frames (s\<lparr>framemap := fm'\<rparr>) = insert n (free_frames (s\<lparr>framemap := fm\<rparr>))"
      using clear_frame_used(2)[OF fm'] n(1) by (auto simp: free_frames_def)
    then show "free_frames (s\<lparr>framemap := fm'\<rparr>) = free_frames s" using n(1,5) by auto
  qed (use clear_frame_used(1)[OF fm'] len in simp_all)
  then have "fm' = framemap s" by simp
  then have "free_frame ?q (s\<lparr>framemap := fm\<rparr>) = Some (?q\<lparr>pg_frame := 0\<rparr>, s)"
    using fm' n(3) n0 by (simp add: free_frame_def Let_def)
  then show ?thesis using a by blast
qed

lemma alloc_free_frame_witness:
  "\<exists>q s1. alloc_frame no_page 3 demo_pstate = Some (q, s1) \<and> free_frame q s1 = Some (q\<lparr>pg_frame := 0\<rparr>, demo_pstate)"
  by (rule alloc_free_frame[OF demo_wf]) (use demo_free_33 in \<open>auto simp: no_page_def\<close>)

text \<open>
  C4: the address space of a forked task. If there are enough free frames, cloning a directory
  succeeds. An entry that is the kernel's is shared; every other table is replaced by a new one, whose
  pages have the flags and the contents of the original but lie in frames that were free before, no two
  pages in the same frame. The tables and the contents of the used frames of the original are untouched.
\<close>

theorem clone_directory_copies:
  assumes "pstate_wf s" "dir_ok kdir src s" "(\<Sum>k < 1024. own_pages kdir src s k) \<le> card (free_frames s)"
  shows "\<exists>d s'. clone_directory pa phys kdir src s = Some (d, s') \<and> pstate_wf s' \<and> physPos d = phys \<and>
    (\<forall>k < 1024. entry_copied pa kdir src d s s' k) \<and>
    (\<forall>t < next_tab s. ptabs s' t = ptabs s t) \<and> (\<forall>n. n \<notin> free_frames s \<longrightarrow> frames s' n = frames s n) \<and>
    (\<forall>k < 1024. own_frames kdir d s' k \<subseteq> free_frames s - free_frames s') \<and>
    (\<forall>k < 1024. \<forall>l < 1024. k \<noteq> l \<longrightarrow> own_frames kdir d s' k \<inter> own_frames kdir d s' l = {})"
proof -
  let ?dir = "\<lparr>physTabs = replicate 1024 0, physPos = phys, tables = replicate 1024 None\<rparr>"
  have "\<exists>d s'. clone_tables pa 1024 kdir src ?dir s = Some (d, s') \<and> clones pa 1024 kdir src ?dir s d s'"
    using assms by (intro clone_tables_ok) simp_all
  then obtain d s' where c: "clone_tables pa 1024 kdir src ?dir s = Some (d, s')" "clones pa 1024 kdir src ?dir s d s'"
    by blast
  have "own_frames kdir d s' k \<subseteq> free_frames s - free_frames s'" if "k < 1024" for k
    using c(2) that unfolding clones_def by blast
  with c show ?thesis
    unfolding clone_directory_def by (intro exI[of _ d] exI[of _ s']) (simp add: clones_def)
qed

definition demo_kdir :: page_directory where
  "demo_kdir = \<lparr>physTabs = replicate 1024 0, physPos = 0, tables = replicate 1024 None\<rparr>"

definition demo_dir :: page_directory where
  "demo_dir = \<lparr>physTabs = 0x9007 # replicate 1023 0, physPos = 0, tables = Some 0 # replicate 1023 None\<rparr>"

lemma demo_own: "k < 1024 \<Longrightarrow> own_table demo_kdir demo_dir k = (if k = 0 then Some 0 else None)"
  by (cases k) (auto simp: own_table_def demo_kdir_def demo_dir_def)

lemma demo_mapped: "mapped demo_table 1024 = {0}"
proof (rule set_eqI)
  show "j \<in> mapped demo_table 1024 \<longleftrightarrow> j \<in> {0}" for j
    by (cases j) (auto simp: mapped_def demo_table_def no_page_def)
qed

lemma demo_dir_ok: "dir_ok demo_kdir demo_dir demo_pstate"
proof -
  have "entry_frame demo_table j \<notin> free_frames demo_pstate" if "j < 1024" for j
    using that demo_used[of 0] demo_used[of 5]
    by (cases j) (auto simp: demo_table_def entry_frame_def no_page_def free_frames_def)
  then have "table_ok demo_pstate demo_table" by (simp add: table_ok_def demo_table_def)
  moreover have "ptabs demo_pstate 0 = Some demo_table" "next_tab demo_pstate = 1" by (simp_all add: demo_pstate_def)
  moreover have "tables demo_kdir ! k = None" if "k < 1024" for k using that by (simp add: demo_kdir_def)
  ultimately show ?thesis by (auto simp: dir_ok_def demo_own split: if_splits)
qed

lemma demo_room: "(\<Sum>k < 1024. own_pages demo_kdir demo_dir demo_pstate k) \<le> card (free_frames demo_pstate)"
proof -
  have "(\<Sum>k < 1024. own_pages demo_kdir demo_dir demo_pstate k) = (\<Sum>k < 1024 :: nat. if k = 0 then 1 else 0)"
    by (rule sum.cong) (auto simp: own_pages_def demo_own demo_pstate_def demo_mapped)
  also have "\<dots> \<le> card {33 :: nat}" by simp
  also have "\<dots> \<le> card (free_frames demo_pstate)" using demo_free_33 by (intro card_mono) auto
  finally show ?thesis .
qed

theorem clone_directory_copies_witness:
  "\<exists>d s'. clone_directory (\<lambda>n. word_of_nat n * 0x1000) 0x8000 demo_kdir demo_dir demo_pstate = Some (d, s') \<and>
     ptabs s' 0 = Some demo_table \<and> frames s' 5 = ''page''"
  using clone_directory_copies[OF demo_wf demo_dir_ok demo_room, of "\<lambda>n. word_of_nat n * 0x1000" "0x8000"] demo_used[of 5]
  by (auto simp: free_frames_def demo_pstate_def)



end
