(* ===== verification/Vfs.thy ===== *)
theory Vfs
  imports CString
begin

text \<open>
  The virtual filesystem's data and its inode cache: \<^verbatim>\<open>src/fs/vfs/vnode.c\<close>, the filesystem registry and
  the dispatch functions of \<^verbatim>\<open>src/fs/vfs/vfs.c\<close>, and the structures of \<^verbatim>\<open>src/include/fs/vfs.h\<close>.

  Inodes and super blocks live in stores indexed by their pointers; a released inode is absent, so the
  use of a dangling pointer is \<open>None\<close>. The list of cached inodes of a super block is a list of pointers,
  newest first. \<^verbatim>\<open>put_inode\<close> only releases a filesystem's private data, which these inodes do not carry.
  The reference count has the eight bits of the source. What a filesystem fills in when an
  inode is read is the parameter \<open>rd\<close>.
\<close>

definition FS_FILE :: uint where "FS_FILE = 1"
definition FS_DIRECTORY :: uint where "FS_DIRECTORY = 2"
definition FS_CHARDEVICE :: uint where "FS_CHARDEVICE = 3"
definition FS_BLOCKDEVICE :: uint where "FS_BLOCKDEVICE = 4"
definition FS_PIPE :: uint where "FS_PIPE = 5"
definition FS_SYMLINK :: uint where "FS_SYMLINK = 6"
definition NR_OPEN :: nat where "NR_OPEN = 32"
definition FMODE_READ :: uint where "FMODE_READ = 1"
definition FMODE_WRITE :: uint where "FMODE_WRITE = 2"
definition MOUNT_MAX :: nat where "MOUNT_MAX = 16"

text \<open>
  \<open>v_lookup\<close> says whether the filesystem gave the inode a lookup operation, and \<open>v_u\<close> is the pointer or number by
  which it finds its own description of the inode.
\<close>

record vnode =
  v_ino :: uint
  v_count :: uchar
  v_uid :: ushort
  v_gid :: ushort
  v_mode :: uint
  v_flags :: uint
  v_size :: uint
  v_sb :: nat
  v_lookup :: bool
  v_u :: nat
  v_mount :: "nat option"
  v_cover :: "nat option"

record super_block =
  s_cache :: "nat list"
  s_root :: "nat option"
  s_dev :: "nat option"
  s_op :: bool

record vfs =
  vnodes :: "nat \<Rightarrow> vnode option"
  supers :: "nat \<Rightarrow> super_block option"
  next_node :: nat

definition IS_DIR :: "vnode \<Rightarrow> bool" where "IS_DIR v \<longleftrightarrow> v_flags v AND 7 = FS_DIRECTORY"
definition IS_CHR :: "vnode \<Rightarrow> bool" where "IS_CHR v \<longleftrightarrow> v_flags v AND 7 = FS_CHARDEVICE"

definition upd_vnode :: "nat \<Rightarrow> (vnode \<Rightarrow> vnode) \<Rightarrow> vfs \<Rightarrow> vfs option" where
  "upd_vnode n f st = map_option (\<lambda>v. st\<lparr>vnodes := (vnodes st)(n \<mapsto> f v)\<rparr>) (vnodes st n)"

text \<open>\<^verbatim>\<open>node->count++\<close>\<close>

definition bump :: "nat \<Rightarrow> vfs \<Rightarrow> vfs option" where
  "bump n st = upd_vnode n (\<lambda>v. v\<lparr>v_count := v_count v + 1\<rparr>) st"

section \<open>The inode cache\<close>

definition create_empty_inode :: "(nat \<Rightarrow> uint \<Rightarrow> vnode) \<Rightarrow> nat \<Rightarrow> uint \<Rightarrow> vfs \<Rightarrow> (nat \<times> vfs) option" where
  "create_empty_inode rd sb ino st = do {
     s \<leftarrow> supers st sb;
     let n = next_node st;
     Some (n, st\<lparr>vnodes := (vnodes st)(n \<mapsto> (rd sb ino)\<lparr>v_ino := ino, v_count := 1, v_sb := sb, v_mount := None, v_cover := None\<rparr>),
                 supers := (supers st)(sb \<mapsto> s\<lparr>s_cache := n # s_cache s\<rparr>), next_node := Suc n\<rparr>)
   }"

definition free_inode :: "nat \<Rightarrow> vfs \<Rightarrow> vfs option" where
  "free_inode n st = do {
     v \<leftarrow> vnodes st n;
     s \<leftarrow> supers st (v_sb v);
     Some (st\<lparr>vnodes := (vnodes st)(n := None), supers := (supers st)(v_sb v \<mapsto> s\<lparr>s_cache := remove1 n (s_cache s)\<rparr>)\<rparr>)
   }"

text \<open>The walk through the cache list; \<open>None\<close> inside is the end of the list.\<close>

fun cache_find :: "vfs \<Rightarrow> nat list \<Rightarrow> uint \<Rightarrow> nat option option" where
  "cache_find st [] ino = Some None"
| "cache_find st (n # ns) ino = do {
     v \<leftarrow> vnodes st n;
     if v_ino v = ino then Some (Some n) else cache_find st ns ino
   }"

definition iget :: "(nat \<Rightarrow> uint \<Rightarrow> vnode) \<Rightarrow> nat option \<Rightarrow> uint \<Rightarrow> vfs \<Rightarrow> (nat option \<times> vfs) option" where
  "iget rd sbo ino st =
    (case sbo of
       None \<Rightarrow> Some (None, st)
     | Some sb \<Rightarrow> do {
         s \<leftarrow> supers st sb;
         r \<leftarrow> cache_find st (s_cache s) ino;
         case r of
           Some n \<Rightarrow> map_option (\<lambda>st1. (Some n, st1)) (bump n st)
         | None \<Rightarrow> if \<not> s_op s then Some (None, st)
                   else map_option (\<lambda>(n, st1). (Some n, st1)) (create_empty_inode rd sb ino st)
       })"

definition iput :: "nat option \<Rightarrow> vfs \<Rightarrow> vfs option" where
  "iput no st =
    (case no of
       None \<Rightarrow> Some st
     | Some n \<Rightarrow> do {
         v \<leftarrow> vnodes st n;
         s \<leftarrow> supers st (v_sb v);
         if \<not> s_op s then Some st
         else if v_count v = 0 then Some st
         else do {
           st1 \<leftarrow> upd_vnode n (\<lambda>v. v\<lparr>v_count := v_count v - 1\<rparr>) st;
           if v_count v - 1 = 0 then free_inode n st1 else Some st1
         }
       })"

fun free_nodes :: "nat list \<Rightarrow> vfs \<Rightarrow> vfs option" where
  "free_nodes [] st = Some st"
| "free_nodes (n # ns) st = do {
     v \<leftarrow> vnodes st n;
     free_nodes ns (st\<lparr>vnodes := (vnodes st)(n := None)\<rparr>)
   }"

definition free_sb_inodes :: "nat option \<Rightarrow> vfs \<Rightarrow> vfs option" where
  "free_sb_inodes sbo st =
    (case sbo of None \<Rightarrow> Some st | Some sb \<Rightarrow> Option.bind (supers st sb) (\<lambda>s. free_nodes (s_cache s) st))"

section \<open>The filesystem registry\<close>

text \<open>A registered filesystem is its pointer and its name; \<^verbatim>\<open>fs->next\<close> is set on all but the last.\<close>

type_synonym fs_entry = "nat \<times> string"

fun vfs_get_fs :: "fs_entry list \<Rightarrow> string option \<Rightarrow> fs_entry option" where
  "vfs_get_fs fss None = None"
| "vfs_get_fs [] (Some name) = None"
| "vfs_get_fs (fs # fss) (Some name) = (if snd fs = name then Some fs else vfs_get_fs fss (Some name))"

definition fs_next :: "fs_entry list \<Rightarrow> nat \<Rightarrow> bool" where
  "fs_next fss p \<longleftrightarrow> p \<in> set (map fst (butlast fss))"

definition register_filesystem :: "fs_entry option \<Rightarrow> fs_entry list \<Rightarrow> int \<times> fs_entry list" where
  "register_filesystem fso fss =
    (case fso of
       None \<Rightarrow> (- errno_code EINVAL, fss)
     | Some fs \<Rightarrow>
         if fs_next fss (fst fs) \<or> vfs_get_fs fss (Some (snd fs)) \<noteq> None then (- errno_code EBUSY, fss)
         else (0, fs # fss))"

fun drop_fs :: "string \<Rightarrow> fs_entry list \<Rightarrow> fs_entry list" where
  "drop_fs name [] = []"
| "drop_fs name (fs # fss) = (if snd fs = name then fss else fs # drop_fs name fss)"

definition unregister_filesystem :: "fs_entry option \<Rightarrow> fs_entry list \<Rightarrow> int \<times> fs_entry list" where
  "unregister_filesystem fso fss =
    (case fso of
       None \<Rightarrow> (- errno_code EINVAL, fss)
     | Some fs \<Rightarrow> if vfs_get_fs fss (Some (snd fs)) = None then (- errno_code EINVAL, fss) else (0, drop_fs (snd fs) fss))"

section \<open>The cache invariant\<close>

text \<open>
  Every cached pointer is an inode of this super block that is in use, an inode number occurs once, and
  every inode is cached by its super block.
\<close>

definition ino_of :: "vfs \<Rightarrow> nat \<Rightarrow> uint" where
  "ino_of st n = (case vnodes st n of Some v \<Rightarrow> v_ino v | None \<Rightarrow> 0)"

definition cache_ok :: "vfs \<Rightarrow> nat \<Rightarrow> super_block \<Rightarrow> bool" where
  "cache_ok st sb s \<longleftrightarrow> distinct (map (ino_of st) (s_cache s)) \<and>
     (\<forall>n \<in> set (s_cache s). \<exists>v. vnodes st n = Some v \<and> v_sb v = sb \<and> v_count v \<noteq> 0)"

definition node_ok :: "vfs \<Rightarrow> nat \<Rightarrow> vnode \<Rightarrow> bool" where
  "node_ok st n v \<longleftrightarrow> n < next_node st \<and> v_count v \<noteq> 0 \<and> (\<exists>s. supers st (v_sb v) = Some s \<and> n \<in> set (s_cache s))"

definition vfs_inv :: "vfs \<Rightarrow> bool" where
  "vfs_inv st \<longleftrightarrow> (\<forall>sb s. supers st sb = Some s \<longrightarrow> cache_ok st sb s) \<and> (\<forall>n v. vnodes st n = Some v \<longrightarrow> node_ok st n v)"

lemma vfs_invI:
  "(\<And>sb s. supers st sb = Some s \<Longrightarrow> cache_ok st sb s) \<Longrightarrow> (\<And>n v. vnodes st n = Some v \<Longrightarrow> node_ok st n v) \<Longrightarrow> vfs_inv st"
  by (simp add: vfs_inv_def)

lemma vfs_inv_cache: "vfs_inv st \<Longrightarrow> supers st sb = Some s \<Longrightarrow> cache_ok st sb s"
  by (simp add: vfs_inv_def)

lemma vfs_inv_node: "vfs_inv st \<Longrightarrow> vnodes st n = Some v \<Longrightarrow> node_ok st n v"
  by (simp add: vfs_inv_def)

lemma cache_okD: "cache_ok st sb s \<Longrightarrow> n \<in> set (s_cache s) \<Longrightarrow> \<exists>v. vnodes st n = Some v \<and> v_sb v = sb \<and> v_count v \<noteq> 0"
  by (simp add: cache_ok_def)

lemma cache_ok_frame:
  assumes c: "cache_ok st sb s" and eq: "\<And>m. m \<in> set (s_cache s) \<Longrightarrow> vnodes st' m = vnodes st m"
  shows "cache_ok st' sb s"
proof -
  have "map (ino_of st') (s_cache s) = map (ino_of st) (s_cache s)" by (rule map_cong[OF refl]) (simp add: ino_of_def eq)
  moreover have "\<exists>v. vnodes st' m = Some v \<and> v_sb v = sb \<and> v_count v \<noteq> 0" if "m \<in> set (s_cache s)" for m
    using cache_okD[OF c that] eq[OF that] by simp
  ultimately show ?thesis using c by (simp only: cache_ok_def) simp
qed

lemma cache_ok_Cons:
  assumes "cache_ok st sb s" "vnodes st n = Some v" "v_sb v = sb" "v_count v \<noteq> 0" "v_ino v \<notin> set (map (ino_of st) (s_cache s))"
  shows "cache_ok st sb (s\<lparr>s_cache := n # s_cache s\<rparr>)"
  using assms by (auto simp: cache_ok_def ino_of_def)

lemma cache_find_Some:
  "(\<And>n. n \<in> set ns \<Longrightarrow> \<exists>v. vnodes st n = Some v) \<Longrightarrow>
     \<exists>r. cache_find st ns ino = Some r \<and>
       (case r of Some n \<Rightarrow> n \<in> set ns \<and> ino_of st n = ino | None \<Rightarrow> ino \<notin> set (map (ino_of st) ns))"
proof (induction ns)
  case (Cons n ns)
  obtain v where v: "vnodes st n = Some v" using Cons.prems by auto
  obtain r where r: "cache_find st ns ino = Some r"
      "case r of Some n \<Rightarrow> n \<in> set ns \<and> ino_of st n = ino | None \<Rightarrow> ino \<notin> set (map (ino_of st) ns)"
    using Cons by auto
  show ?case
  proof (cases "v_ino v = ino")
    case True
    then show ?thesis using v by (auto simp: ino_of_def)
  next
    case False
    then show ?thesis using v r by (auto simp: ino_of_def split: option.splits)
  qed
qed simp

text \<open>Changes of a node that keep its number, its super block and a count in use.\<close>

lemma vfs_inv_upd:
  assumes inv: "vfs_inv st" and v: "vnodes st n = Some v"
    and f: "v_ino w = v_ino v" "v_sb w = v_sb v" "v_count w \<noteq> 0"
  shows "vfs_inv (st\<lparr>vnodes := (vnodes st)(n \<mapsto> w)\<rparr>)"
proof (rule vfs_invI)
  let ?st = "st\<lparr>vnodes := (vnodes st)(n \<mapsto> w)\<rparr>"
  have i: "ino_of ?st = ino_of st" using v f by (auto simp: ino_of_def fun_eq_iff)
  show "cache_ok ?st sb s" if "supers ?st sb = Some s" for sb s
  proof -
    have c: "cache_ok st sb s" using vfs_inv_cache[OF inv] that by simp
    have "\<exists>u. vnodes ?st m = Some u \<and> v_sb u = sb \<and> v_count u \<noteq> 0" if "m \<in> set (s_cache s)" for m
      using cache_okD[OF c that] v f by (cases "m = n") auto
    then show ?thesis using c unfolding cache_ok_def i by blast
  qed
  show "node_ok ?st m u" if "vnodes ?st m = Some u" for m u
    using that vfs_inv_node[OF inv, of m] v f by (auto simp: node_ok_def split: if_splits)
qed

lemma vfs_inv_bump:
  assumes "vfs_inv st" "vnodes st n = Some v" "v_count v \<noteq> 255"
  shows "\<exists>st1. bump n st = Some st1 \<and> vfs_inv st1 \<and> vnodes st1 = (vnodes st)(n \<mapsto> v\<lparr>v_count := v_count v + 1\<rparr>) \<and>
    supers st1 = supers st \<and> next_node st1 = next_node st"
proof -
  have "v_count v + 1 \<noteq> 0"
  proof
    assume "v_count v + 1 = 0"
    then have "v_count v = - 1" by (simp add: eq_neg_iff_add_eq_0)
    then show False using assms(3) by simp
  qed
  then have "vfs_inv (st\<lparr>vnodes := (vnodes st)(n \<mapsto> v\<lparr>v_count := v_count v + 1\<rparr>)\<rparr>)"
    using assms by (intro vfs_inv_upd) auto
  then show ?thesis using assms(2) by (simp add: bump_def upd_vnode_def)
qed

section \<open>Getting and putting inodes\<close>

lemma iget_cached:
  assumes inv: "vfs_inv st" and s: "supers st sb = Some s" and n: "n \<in> set (s_cache s)" "ino_of st n = ino"
  shows "iget rd (Some sb) ino st = map_option (\<lambda>st1. (Some n, st1)) (bump n st)"
proof -
  have c: "cache_ok st sb s" using vfs_inv_cache[OF inv s] .
  obtain r where r: "cache_find st (s_cache s) ino = Some r"
      "case r of Some n \<Rightarrow> n \<in> set (s_cache s) \<and> ino_of st n = ino | None \<Rightarrow> ino \<notin> set (map (ino_of st) (s_cache s))"
    using cache_find_Some[of "s_cache s" st ino] cache_okD[OF c] by blast
  have "r = Some n"
  proof (cases r)
    case None
    then show ?thesis using r(2) n by auto
  next
    case (Some m)
    then have "m \<in> set (s_cache s)" "ino_of st m = ino_of st n" using r(2) n by auto
    then have "m = n" using c n(1) by (auto simp: cache_ok_def distinct_map inj_on_def)
    then show ?thesis using Some by simp
  qed
  then show ?thesis using s r(1) by (simp add: iget_def)
qed

lemma iget_new:
  assumes inv: "vfs_inv st" and s: "supers st sb = Some s" "s_op s" and new: "ino \<notin> set (map (ino_of st) (s_cache s))"
  shows "iget rd (Some sb) ino st = map_option (\<lambda>(n, st1). (Some n, st1)) (create_empty_inode rd sb ino st)"
proof -
  have c: "cache_ok st sb s" using vfs_inv_cache[OF inv s(1)] .
  obtain r where r: "cache_find st (s_cache s) ino = Some r"
      "case r of Some n \<Rightarrow> n \<in> set (s_cache s) \<and> ino_of st n = ino | None \<Rightarrow> ino \<notin> set (map (ino_of st) (s_cache s))"
    using cache_find_Some[of "s_cache s" st ino] cache_okD[OF c] by blast
  have "r = None" using r(2) new by (cases r) auto
  then show ?thesis using s r(1) by (simp add: iget_def)
qed

lemma create_inv:
  assumes inv: "vfs_inv st" and s: "supers st sb = Some s" and new: "ino \<notin> set (map (ino_of st) (s_cache s))"
  shows "\<exists>st1. create_empty_inode rd sb ino st = Some (next_node st, st1) \<and> vfs_inv st1 \<and>
    supers st1 = (supers st)(sb \<mapsto> s\<lparr>s_cache := next_node st # s_cache s\<rparr>) \<and> next_node st1 = Suc (next_node st) \<and>
    (\<exists>v. vnodes st1 = (vnodes st)(next_node st \<mapsto> v) \<and> v_ino v = ino \<and> v_count v = 1 \<and> v_sb v = sb)"
proof -
  let ?n = "next_node st"
  let ?v = "(rd sb ino)\<lparr>v_ino := ino, v_count := 1, v_sb := sb, v_mount := None, v_cover := None\<rparr>"
  let ?st = "st\<lparr>vnodes := (vnodes st)(?n \<mapsto> ?v), supers := (supers st)(sb \<mapsto> s\<lparr>s_cache := ?n # s_cache s\<rparr>), next_node := Suc ?n\<rparr>"
  have fresh: "vnodes st ?n = None" using vfs_inv_node[OF inv, of ?n] by (cases "vnodes st ?n") (auto simp: node_ok_def)
  have nin: "?n \<notin> set (s_cache s')" if "supers st b = Some s'" for b s'
    using cache_okD[OF vfs_inv_cache[OF inv that], of ?n] fresh by auto
  have ino: "ino_of ?st m = (if m = ?n then ino else ino_of st m)" for m by (simp add: ino_of_def)
  have "vfs_inv ?st"
  proof (rule vfs_invI)
    show "cache_ok ?st b s'" if b: "supers ?st b = Some s'" for b s'
    proof (cases "b = sb")
      case True
      then have s': "s' = s\<lparr>s_cache := ?n # s_cache s\<rparr>" using b by simp
      have c: "cache_ok ?st sb s" by (rule cache_ok_frame[OF vfs_inv_cache[OF inv s]]) (use nin[OF s] in auto)
      have "map (ino_of ?st) (s_cache s) = map (ino_of st) (s_cache s)"
        by (rule map_cong[OF refl]) (use nin[OF s] ino in auto)
      then have "v_ino ?v \<notin> set (map (ino_of ?st) (s_cache s))" using new by (simp only: vnode.simps) simp
      then show ?thesis using cache_ok_Cons[OF c, of ?n ?v] True s' by simp
    next
      case False
      then have s': "supers st b = Some s'" using b by simp
      show ?thesis by (rule cache_ok_frame[OF vfs_inv_cache[OF inv s']]) (use nin[OF s'] in auto)
    qed
    show "node_ok ?st m u" if "vnodes ?st m = Some u" for m u
    proof (cases "m = ?n")
      case True
      then show ?thesis using that by (auto simp: node_ok_def)
    next
      case False
      then have "node_ok st m u" using that vfs_inv_node[OF inv, of m u] by simp
      then show ?thesis using s by (auto simp: node_ok_def)
    qed
  qed
  moreover have "create_empty_inode rd sb ino st = Some (?n, ?st)" using s by (simp add: create_empty_inode_def Let_def)
  ultimately show ?thesis by (intro exI[of _ ?st] conjI exI[of _ ?v]) simp_all
qed

lemma iput_new:
  assumes "vnodes st n = Some v" "v_count v = 1" "supers st (v_sb v) = Some s" "s_op s"
  shows "iput (Some n) st = Some (st\<lparr>vnodes := (vnodes st)(n := None), supers := (supers st)(v_sb v \<mapsto> s\<lparr>s_cache := remove1 n (s_cache s)\<rparr>)\<rparr>)"
  using assms by (simp add: iput_def upd_vnode_def free_inode_def)

lemma iput_shared:
  assumes "vnodes st n = Some v" "v_count v \<noteq> 0" "v_count v - 1 \<noteq> 0" "supers st (v_sb v) = Some s" "s_op s"
  shows "iput (Some n) st = Some (st\<lparr>vnodes := (vnodes st)(n \<mapsto> v\<lparr>v_count := v_count v - 1\<rparr>)\<rparr>)"
  using assms by (simp add: iput_def upd_vnode_def)

lemma iget_ok:
  assumes inv: "vfs_inv st" and s: "supers st sb = Some s" "s_op s"
    and room: "\<forall>n v. vnodes st n = Some v \<longrightarrow> v_count v \<noteq> 255"
  shows "\<exists>n st1 v. iget rd (Some sb) ino st = Some (Some n, st1) \<and> vfs_inv st1 \<and> vnodes st1 n = Some v \<and>
    v_ino v = ino \<and> v_sb v = sb \<and> (\<forall>m w. vnodes st1 m = Some w \<longrightarrow> v_sb w = sb \<longrightarrow> v_ino w = ino \<longrightarrow> m = n)"
proof -
  have uniq: "m = n" if i: "vfs_inv st1" and v: "vnodes st1 n = Some v" "v_sb v = sb" "v_ino v = ino"
    and w: "vnodes st1 m = Some w" "v_sb w = sb" "v_ino w = ino" for st1 n v m w
  proof -
    obtain s1 where s1: "supers st1 sb = Some s1" "n \<in> set (s_cache s1)"
      using vfs_inv_node[OF i v(1)] v(2) by (auto simp: node_ok_def)
    have "m \<in> set (s_cache s1)" using vfs_inv_node[OF i w(1)] w(2) s1(1) by (auto simp: node_ok_def)
    moreover have "inj_on (ino_of st1) (set (s_cache s1))"
      using vfs_inv_cache[OF i s1(1)] by (simp add: cache_ok_def distinct_map)
    ultimately show ?thesis using s1(2) v w by (auto simp: inj_on_def ino_of_def)
  qed
  show ?thesis
  proof (cases "ino \<in> set (map (ino_of st) (s_cache s))")
    case True
    then obtain n where n: "n \<in> set (s_cache s)" "ino_of st n = ino" by auto
    obtain v where v: "vnodes st n = Some v" "v_sb v = sb" using cache_okD[OF vfs_inv_cache[OF inv s(1)] n(1)] by blast
    obtain st1 where b: "bump n st = Some st1" "vfs_inv st1" "vnodes st1 = (vnodes st)(n \<mapsto> v\<lparr>v_count := v_count v + 1\<rparr>)"
      using vfs_inv_bump[OF inv v(1)] room v(1) by blast
    have r: "iget rd (Some sb) ino st = Some (Some n, st1)" using iget_cached[OF inv s(1) n] b(1) by simp
    have v1: "vnodes st1 n = Some (v\<lparr>v_count := v_count v + 1\<rparr>)" using b(3) by simp
    have ino: "v_ino v = ino" using n(2) v(1) by (simp add: ino_of_def)
    have u: "m = n" if "vnodes st1 m = Some w" "v_sb w = sb" "v_ino w = ino" for m w
      by (rule uniq[OF b(2) v1 _ _ that]) (use v(2) ino in simp_all)
    show ?thesis
      by (intro exI conjI allI impI, rule r, rule b(2), rule v1) (use v(2) ino u in simp_all)
  next
    case False
    obtain st1 v where c: "create_empty_inode rd sb ino st = Some (next_node st, st1)" "vfs_inv st1"
        "vnodes st1 = (vnodes st)(next_node st \<mapsto> v)" "v_ino v = ino" "v_sb v = sb"
      using create_inv[OF inv s(1) False] by blast
    have v1: "vnodes st1 (next_node st) = Some v" using c(3) by simp
    have r: "iget rd (Some sb) ino st = Some (Some (next_node st), st1)" using iget_new[OF inv s False] c(1) by simp
    show ?thesis
      by (intro exI conjI allI impI, rule r, rule c(2), rule v1) (use c(4,5) uniq[OF c(2) v1 c(5,4)] in simp_all)
  qed
qed


definition demo_vfs :: vfs where
  "demo_vfs = \<lparr>vnodes = (\<lambda>_. None), supers = [0 \<mapsto> \<lparr>s_cache = [], s_root = None, s_dev = None, s_op = True\<rparr>], next_node = 0\<rparr>"

lemma demo_vfs_inv: "vfs_inv demo_vfs"
  by (simp add: vfs_inv_def demo_vfs_def cache_ok_def)

definition demo_rd :: "nat \<Rightarrow> uint \<Rightarrow> vnode" where
  "demo_rd sb ino = \<lparr>v_ino = ino, v_count = 0, v_uid = 0, v_gid = 0, v_mode = 0x1FF, v_flags = FS_DIRECTORY, v_size = 0,
     v_sb = sb, v_lookup = True, v_u = 0, v_mount = None, v_cover = None\<rparr>"




end
