(* ===== verification/Namei.thy ===== *)
theory Namei
  imports Vfs
begin

text \<open>
  Path name resolution: \<^verbatim>\<open>src/fs/namei.c\<close>. Strings are the bytes before the terminator. The \<^verbatim>\<open>lookup\<close>
  operation of the filesystem an inode belongs to is the parameter \<open>lk\<close>; it returns the found inode with
  a new reference, or nothing. A status is an error code on the left of a sum. \<open>None\<close> is the use of a
  dangling pointer, or a call that never returns: \<^verbatim>\<open>resolve_mount\<close> and \<^verbatim>\<open>getdentry\<close> follow the
  mount and cover links without a bound.
\<close>

record cred =
  c_uid :: ushort
  c_euid :: ushort
  c_gid :: ushort
  c_egid :: ushort
  c_root :: "nat option"
  c_pwd :: "nat option"

definition I_AM_ROOT :: "cred \<Rightarrow> bool" where
  "I_AM_ROOT c \<longleftrightarrow> \<not> (c_uid c \<noteq> 0 \<and> c_euid c \<noteq> 0)"

definition X_OK :: uint where "X_OK = 1"

definition node_permission :: "cred \<Rightarrow> vnode \<Rightarrow> uint \<Rightarrow> uint" where
  "node_permission c v msk =
    (let mode = (if I_AM_ROOT c then 0x1FF
                 else if c_uid c = v_uid v \<or> c_euid c = v_uid v then drop_bit 6 (v_mode v)
                 else if c_gid c = v_gid v \<or> c_egid c = v_gid v then drop_bit 3 (v_mode v)
                 else v_mode v)
     in mode AND msk AND 7)"

section \<open>Comparing path components\<close>

definition at_end :: "string \<Rightarrow> bool" where
  "at_end s \<longleftrightarrow> s = [] \<or> hd s = CHR ''/''"

fun namei_match :: "string \<Rightarrow> string \<Rightarrow> bool" where
  "namei_match (a # s1) (b # s2) =
     (if \<not> at_end (a # s1) \<and> \<not> at_end (b # s2) then a = b \<and> namei_match s1 s2
      else at_end (a # s1) = at_end (b # s2))"
| "namei_match s1 s2 = (at_end s1 = at_end s2)"

text \<open>The length counts down in 32 bits, also when it is 0 already.\<close>

function namei_nmatch :: "string \<Rightarrow> string \<Rightarrow> uint \<Rightarrow> bool" where
  "namei_nmatch s1 s2 n =
     (if \<not> at_end s1 \<and> \<not> at_end s2 then
        (if n \<noteq> 0 then (if hd s1 \<noteq> hd s2 then False else namei_nmatch (tl s1) (tl s2) (n - 1))
         else (let n' = n - 1 in if at_end s1 \<and> n' = 0 then True else at_end s1 = at_end s2))
      else if at_end s1 \<and> n = 0 then True
      else at_end s1 = at_end s2)"

  by pat_completeness auto
termination
  by (relation "measure (\<lambda>(s1, s2, n). length s1)") (auto simp: at_end_def)

declare namei_nmatch.simps [simp del]

section \<open>Mount points\<close>

text \<open>The call passes \<^verbatim>\<open>steps--\<close>, that is the undecremented number.\<close>

partial_function (option) resolve_mount :: "nat \<Rightarrow> nat \<Rightarrow> vfs \<Rightarrow> ((errno + nat) \<times> vfs) option" where
  "resolve_mount node steps st =
     Option.bind (vnodes st node) (\<lambda>v.
       case v_mount v of
         None \<Rightarrow> Some (Inr node, st)
       | Some m \<Rightarrow>
           if steps = 0 then Option.bind (iput (Some node) st) (\<lambda>st1. Some (Inl EMLINK, st1))
           else Option.bind (iput (Some node) st) (\<lambda>st1. Option.bind (bump m st1) (\<lambda>st2. resolve_mount m steps st2)))"

section \<open>Directory entries\<close>

definition getdentry_lookup ::
  "(nat \<Rightarrow> string \<Rightarrow> vfs \<Rightarrow> (nat option \<times> vfs) option) \<Rightarrow> cred \<Rightarrow> nat \<Rightarrow> string \<Rightarrow> vfs \<Rightarrow> ((errno + nat) \<times> vfs) option" where
  "getdentry_lookup lk c node filename st = do {
     v \<leftarrow> vnodes st node;
     if \<not> IS_DIR v then map_option (\<lambda>st1. (Inl ENOTDIR, st1)) (iput (Some node) st)
     else if node_permission c v X_OK = 0 then map_option (\<lambda>st1. (Inl EACCES, st1)) (iput (Some node) st)
     else if \<not> v_lookup v then map_option (\<lambda>st1. (Inl EGENERIC, st1)) (iput (Some node) st)
     else do {
       (r, st1) \<leftarrow> lk node filename st;
       st2 \<leftarrow> iput (Some node) st1;
       case r of
         None \<Rightarrow> Some (Inl ENOENT, st2)
       | Some n \<Rightarrow> resolve_mount n MOUNT_MAX st2
     }
   }"

text \<open>The test for \<^verbatim>\<open>..\<close> in the root directory of the task.\<close>

definition at_root :: "cred \<Rightarrow> nat \<Rightarrow> vfs \<Rightarrow> (bool \<times> vfs) option" where
  "at_root c node st = do {
     root \<leftarrow> c_root c;
     st1 \<leftarrow> bump root st;
     (r, st2) \<leftarrow> resolve_mount root MOUNT_MAX st1;
     case r of
       Inl e \<Rightarrow> Some (False, st2)
     | Inr n \<Rightarrow> map_option (\<lambda>st3. (node = n, st3)) (iput (Some n) st2)
   }"

partial_function (option) getdentry ::
  "(nat \<Rightarrow> string \<Rightarrow> vfs \<Rightarrow> (nat option \<times> vfs) option) \<Rightarrow> cred \<Rightarrow> nat \<Rightarrow> string \<Rightarrow> bool \<Rightarrow> vfs \<Rightarrow> ((errno + nat) \<times> vfs) option" where
  "getdentry lk c node0 filename frommount st0 =
     Option.bind (bump node0 st0) (\<lambda>st1.
     Option.bind (if frommount then Some (Inr node0, st1) else resolve_mount node0 MOUNT_MAX st1) (\<lambda>(r, st).
       case r of
         Inl e \<Rightarrow> Some (Inl e, st)
       | Inr node \<Rightarrow>
           if namei_match filename ''.'' then Some (Inr node, st)
           else if namei_match filename ''..'' then
             Option.bind (vnodes st node) (\<lambda>v.
               case v_cover v of
                 Some cov \<Rightarrow> Option.bind (iput (Some node) st) (\<lambda>st2. getdentry lk c cov filename True st2)
               | None \<Rightarrow> Option.bind (at_root c node st) (\<lambda>(b, st2).
                   if b then Some (Inr node, st2) else getdentry_lookup lk c node filename st2))
           else getdentry_lookup lk c node filename st))"

section \<open>Paths\<close>

text \<open>The loop over the slashes; the result is the last directory and the last component.\<close>

function igetdir_loop ::
  "(nat \<Rightarrow> string \<Rightarrow> vfs \<Rightarrow> (nat option \<times> vfs) option) \<Rightarrow> cred \<Rightarrow> nat \<Rightarrow> string \<Rightarrow> vfs \<Rightarrow> ((errno + nat \<times> string) \<times> vfs) option" where
  "igetdir_loop lk c node filename st =
     (case strchr filename CHR ''/'' of
        None \<Rightarrow> Some (Inr (node, filename), st)
      | Some pos \<Rightarrow>
          Option.bind (getdentry lk c node (if pos \<noteq> 0 then filename else ''.'') False st) (\<lambda>(r, st1).
            case r of
              Inl e \<Rightarrow> Some (Inl e, st1)
            | Inr n \<Rightarrow> igetdir_loop lk c n (drop (Suc pos) filename) st1))"
  by pat_completeness auto
termination
  by (relation "measure (\<lambda>(lk, c, node, f, st). length f)") (auto simp: strchr_Some)

declare igetdir_loop.simps [simp del]

definition igetdir ::
  "(nat \<Rightarrow> string \<Rightarrow> vfs \<Rightarrow> (nat option \<times> vfs) option) \<Rightarrow> cred \<Rightarrow> nat \<Rightarrow> string \<Rightarrow> vfs \<Rightarrow> ((errno + nat \<times> string) \<times> vfs) option" where
  "igetdir lk c node filename st =
     (if filename = [] then do {
        st1 \<leftarrow> bump node st;
        (r, st2) \<leftarrow> resolve_mount node MOUNT_MAX st1;
        Some (map_sum id (\<lambda>n. (n, [])) r, st2)
      }
      else igetdir_loop lk c node filename st)"

definition namei ::
  "(nat \<Rightarrow> string \<Rightarrow> vfs \<Rightarrow> (nat option \<times> vfs) option) \<Rightarrow> nat \<Rightarrow> cred \<Rightarrow> string option \<Rightarrow> vfs \<Rightarrow> ((errno + nat) \<times> vfs) option" where
  "namei lk root_vnode c fo st =
    (case fo of
       None \<Rightarrow> Some (Inl ENOENT, st)
     | Some filename \<Rightarrow>
         if filename = [] then Some (Inl ENOENT, st)
         else
           let (start, path) = (if hd filename = CHR ''/'' then (c_root c, tl filename) else (c_pwd c, filename));
               node = (case start of Some n \<Rightarrow> n | None \<Rightarrow> root_vnode)
           in do {
             (r, st1) \<leftarrow> igetdir lk c node path st;
             case r of
               Inl e \<Rightarrow> Some (Inl e, st1)
             | Inr (dir, base) \<Rightarrow> if base = [] then Some (Inr dir, st1) else getdentry lk c dir base False st1
           })"

section \<open>Components\<close>

text \<open>The bytes of a path up to the first slash.\<close>

definition component :: "string \<Rightarrow> string" where
  "component s = takeWhile (\<lambda>c. c \<noteq> CHR ''/'') s"

lemma at_end_component: "at_end s \<longleftrightarrow> component s = []"
  by (cases s) (auto simp: at_end_def component_def)

lemma namei_match_iff: "namei_match s1 s2 \<longleftrightarrow> component s1 = component s2"
proof (induction s1 s2 rule: namei_match.induct)
  case (1 a s1 b s2)
  then show ?case by (auto simp: at_end_def component_def)
qed (auto simp: at_end_component component_def)

lemma nmatch_wrapped:
  assumes "\<not> at_end s1" "\<not> at_end s2" shows "namei_nmatch s1 s2 0"
  using assms by (subst namei_nmatch.simps) (simp add: Let_def)

text \<open>
  The comparison with a directory entry of a given length does not stop at the entry's end. A path
  component that starts with the entry's name matches it also when the component is longer and the byte
  behind the entry's name is neither a terminator nor a slash, which is the usual case in an ext2
  directory block.
\<close>

lemma namei_nmatch_prefix:
  assumes "list_all (\<lambda>c. c \<noteq> CHR ''/'') name" "\<not> at_end rest" "\<not> at_end behind" "length name < 2 ^ 32"
  shows "namei_nmatch (name @ rest) (name @ behind) (word_of_nat (length name))"
  using assms
proof (induction name)
  case Nil
  then show ?case using nmatch_wrapped by simp
next
  case (Cons c name)
  have "word_of_nat k \<noteq> (0 :: uint)" if "0 < k" "k < 2 ^ 32" for k
    using that by (simp add: word_unat_eq_iff unsigned_of_nat take_bit_nat_eq_self)
  then have nz: "word_of_nat (length (c # name)) \<noteq> (0 :: uint)" using Cons.prems(4) by blast
  have "\<not> at_end ((c # name) @ rest)" "\<not> at_end ((c # name) @ behind)" using Cons.prems(1) by (simp_all add: at_end_def)
  moreover have "word_of_nat (length (c # name)) - 1 = (word_of_nat (length name) :: uint)" by simp
  ultimately show ?case using nz Cons by (subst namei_nmatch.simps) simp
qed

lemma namei_nmatch_prefix_witness: "namei_nmatch ''foobar'' (''foo'' @ [CHR 0x0C, CHR 0x01]) 3"
  using namei_nmatch_prefix[of "''foo''" "''bar''" "[CHR 0x0C, CHR 0x01]"] by (simp add: at_end_def)

section \<open>Mount cycles\<close>

lemma iput_mount:
  assumes "iput (Some n) st = Some st1" "vnodes st1 k = Some w"
  shows "\<exists>v. vnodes st k = Some v \<and> v_mount v = v_mount w"
  using assms by (auto simp: iput_def upd_vnode_def free_inode_def split: bind_splits if_splits)

lemma bump_mount:
  assumes "bump n st = Some st1" "vnodes st1 k = Some w"
  shows "\<exists>v. vnodes st k = Some v \<and> v_mount v = v_mount w"
  using assms by (auto simp: bump_def upd_vnode_def split: if_splits)

definition mount_closed :: "nat set \<Rightarrow> vfs \<Rightarrow> bool" where
  "mount_closed S st \<longleftrightarrow> (\<forall>n \<in> S. \<forall>v. vnodes st n = Some v \<longrightarrow> (\<exists>m \<in> S. v_mount v = Some m))"

lemma mount_closed_step:
  assumes "mount_closed S st" "iput (Some n) st = Some st1" "bump m st1 = Some st2"
  shows "mount_closed S st2"
  unfolding mount_closed_def using iput_mount[OF assms(2)] bump_mount[OF assms(3)] assms(1)
  by (metis mount_closed_def)

text \<open>
  C40: the limit on the number of mounts that are followed is not enforced: among mount points that
  lead only to each other, \<open>resolve_mount\<close> never returns, whatever number of steps it is given.
\<close>

theorem resolve_mount_cycle:
  assumes "mount_closed S st" "n \<in> S" "steps \<noteq> 0"
  shows "resolve_mount n steps st = None"
proof -
  define P where "P n steps st r \<longleftrightarrow> \<not> (mount_closed S st \<and> n \<in> S \<and> steps \<noteq> 0)"
    for n steps :: nat and st and r :: "(errno + nat) \<times> vfs"
  have "P n' k st' r" if "resolve_mount n' k st' = Some r" for n' k st' r
  proof (rule resolve_mount.raw_induct[OF _ that, of P])
    fix f :: "nat \<Rightarrow> nat \<Rightarrow> vfs \<Rightarrow> ((errno + nat) \<times> vfs) option" and n k st r
    assume IH: "\<And>n k st r. f n k st = Some r \<Longrightarrow> P n k st r"
      and b: "Option.bind (vnodes st n) (\<lambda>v.
       case v_mount v of
         None \<Rightarrow> Some (Inr n, st)
       | Some m \<Rightarrow>
           if k = 0 then Option.bind (iput (Some n) st) (\<lambda>st1. Some (Inl EMLINK, st1))
           else Option.bind (iput (Some n) st) (\<lambda>st1. Option.bind (bump m st1) (\<lambda>st2. f m k st2))) = Some r"
    show "P n k st r"
    proof (cases "mount_closed S st \<and> n \<in> S \<and> k \<noteq> 0")
      case True
      obtain v where v: "vnodes st n = Some v" using b by (cases "vnodes st n") auto
      obtain m where m: "m \<in> S" "v_mount v = Some m" using True v by (auto simp: mount_closed_def)
      obtain st1 st2 where s: "iput (Some n) st = Some st1" "bump m st1 = Some st2" "f m k st2 = Some r"
        using b v m True by (auto split: bind_splits)
      have "mount_closed S st2" using mount_closed_step s(1,2) True by blast
      then show ?thesis using IH[OF s(3)] m(1) True by (simp add: P_def)
    qed (simp add: P_def)
  qed
  then have "P n steps st r" if "resolve_mount n steps st = Some r" for r using that by blast
  then show ?thesis using assms by (cases "resolve_mount n steps st") (simp_all add: P_def)
qed

theorem resolve_mount_cycle_witness:
  "resolve_mount 3 MOUNT_MAX \<lparr>vnodes = [3 \<mapsto> (demo_rd 0 1)\<lparr>v_count := 9, v_mount := Some 4\<rparr>, 4 \<mapsto> (demo_rd 0 2)\<lparr>v_count := 9, v_mount := Some 3\<rparr>],
      supers = [0 \<mapsto> \<lparr>s_cache = [3, 4], s_root = None, s_dev = None, s_op = True\<rparr>], next_node = 5\<rparr> = None"
  by (rule resolve_mount_cycle[of "{3, 4}"]) (auto simp: mount_closed_def MOUNT_MAX_def)

section \<open>Directories without mounts\<close>

definition plain :: "vfs \<Rightarrow> nat \<Rightarrow> vnode \<Rightarrow> bool" where
  "plain st n v \<longleftrightarrow> vnodes st n = Some v \<and> v_mount v = None \<and> v_count v \<noteq> 0 \<and> v_count v \<noteq> 255 \<and>
     (\<exists>s. supers st (v_sb v) = Some s \<and> s_op s)"

definition searchable :: "cred \<Rightarrow> vnode \<Rightarrow> bool" where
  "searchable c v \<longleftrightarrow> IS_DIR v \<and> node_permission c v X_OK \<noteq> 0 \<and> v_lookup v"

text \<open>A lookup that finds the cached inode \<open>n\<close> and gives a new reference to it.\<close>

definition lk_finds :: "(nat \<Rightarrow> string \<Rightarrow> vfs \<Rightarrow> (nat option \<times> vfs) option) \<Rightarrow> nat \<Rightarrow> string \<Rightarrow> nat \<Rightarrow> bool" where
  "lk_finds lk node cm n \<longleftrightarrow> (\<forall>f st. component f = cm \<longrightarrow> lk node f st = map_option (\<lambda>st1. (Some n, st1)) (bump n st))"

abbreviation set_node :: "nat \<Rightarrow> vnode \<Rightarrow> vfs \<Rightarrow> vfs" where
  "set_node n v st \<equiv> st\<lparr>vnodes := (vnodes st)(n \<mapsto> v)\<rparr>"

abbreviation inc :: "vnode \<Rightarrow> vnode" where
  "inc v \<equiv> v\<lparr>v_count := v_count v + 1\<rparr>"

lemma count_inc: "v_count v \<noteq> 255 \<Longrightarrow> v_count v + 1 \<noteq> 0"
proof
  assume "v_count v \<noteq> 255" "v_count v + 1 = 0"
  moreover have "v_count v = - 1" using \<open>v_count v + 1 = 0\<close> by (simp add: eq_neg_iff_add_eq_0)
  ultimately show False by simp
qed

lemma count_inc_eq [simp]: "v_count (inc v) - 1 = v_count v" "(inc v)\<lparr>v_count := v_count v\<rparr> = v"
  by simp_all

lemma node_permission_count [simp]: "node_permission c (v\<lparr>v_count := k\<rparr>) m = node_permission c v m"
  by (simp add: node_permission_def)

lemma searchable_count [simp]: "searchable c (v\<lparr>v_count := k\<rparr>) = searchable c v"
  by (simp add: searchable_def IS_DIR_def)

lemma resolve_plain: "vnodes st n = Some v \<Longrightarrow> v_mount v = None \<Longrightarrow> resolve_mount n k st = Some (Inr n, st)"
  by (subst resolve_mount.simps) simp

lemma bump_node: "vnodes st n = Some v \<Longrightarrow> bump n st = Some (set_node n (inc v) st)"
  by (simp add: bump_def upd_vnode_def)

lemma iput_inc:
  assumes "plain st n v" "vnodes st' n = Some (inc v)" "supers st' = supers st"
  shows "iput (Some n) st' = Some (set_node n v st')"
proof -
  obtain s where s: "supers st (v_sb v) = Some s" "s_op s" "v_count v \<noteq> 0" "v_count v + 1 \<noteq> 0"
    using assms(1) count_inc[of v] by (auto simp: plain_def)
  have "iput (Some n) st' = Some (set_node n ((inc v)\<lparr>v_count := v_count (inc v) - 1\<rparr>) st')"
    by (rule iput_shared) (use s assms in simp_all)
  then show ?thesis by simp
qed

text \<open>A component that names an entry, in a directory that can be searched: the entry gains one reference.\<close>

lemma getdentry_plain:
  assumes dir: "plain st node v" "searchable c v" and lk: "lk_finds lk node (component f) n" and entry: "plain st n w" "n \<noteq> node"
    and f: "component f \<noteq> ''.''" "component f \<noteq> ''..''"
  shows "getdentry lk c node f False st = Some (Inr n, set_node n (inc w) st)"
proof -
  let ?st1 = "set_node node (inc v) st" and ?st2 = "set_node n (inc w) (set_node node (inc v) st)"
  have v: "vnodes st node = Some v" "v_mount v = None" and w: "vnodes st n = Some w" "v_mount w = None"
    using dir(1) entry(1) by (simp_all add: plain_def)
  have nm: "\<not> namei_match f ''.''" "\<not> namei_match f ''..''"
    using f by (auto simp: namei_match_iff component_def)
  have ok: "IS_DIR (inc v)" "node_permission c (inc v) X_OK \<noteq> 0" "v_lookup (inc v)"
    using dir(2) by (simp_all add: searchable_def IS_DIR_def)
  have "lk node f ?st1 = Some (Some n, ?st2)"
    using lk w(1) entry(2) by (simp add: lk_finds_def bump_node)
  moreover have "iput (Some node) ?st2 = Some (set_node node v ?st2)"
    by (rule iput_inc[OF dir(1)]) (use entry(2) in simp_all)
  moreover have "set_node node v ?st2 = set_node n (inc w) st"
    using v(1) entry(2) by (simp add: fun_upd_twist[of n node] fun_upd_idem)
  moreover have "resolve_mount n MOUNT_MAX (set_node n (inc w) st) = Some (Inr n, set_node n (inc w) st)"
    by (rule resolve_plain[of _ _ "inc w"]) (use w(2) in simp_all)
  ultimately have "getdentry_lookup lk c node f ?st1 = Some (Inr n, set_node n (inc w) st)"
    using ok by (simp add: getdentry_lookup_def)
  moreover have "resolve_mount node MOUNT_MAX ?st1 = Some (Inr node, ?st1)"
    by (rule resolve_plain[of _ _ "inc v"]) (use v(2) in simp_all)
  ultimately show ?thesis using v(1) nm by (subst getdentry.simps) (simp add: bump_node)
qed

section \<open>Walking a path\<close>

definition name_ok :: "string \<Rightarrow> bool" where
  "name_ok cm \<longleftrightarrow> cm \<noteq> [] \<and> CHR ''/'' \<notin> set cm \<and> cm \<noteq> ''.'' \<and> cm \<noteq> ''..''"

fun join :: "string list \<Rightarrow> string \<Rightarrow> string" where
  "join [] f = f"
| "join (cm # cs) f = cm @ CHR ''/'' # join cs f"

text \<open>The directories \<open>ns\<close> that the components \<open>cs\<close> lead through.\<close>

fun walk_ok ::
  "(nat \<Rightarrow> string \<Rightarrow> vfs \<Rightarrow> (nat option \<times> vfs) option) \<Rightarrow> cred \<Rightarrow> vfs \<Rightarrow> nat \<Rightarrow> string list \<Rightarrow> nat list \<Rightarrow> bool" where
  "walk_ok lk c st node [] [] = True"
| "walk_ok lk c st node (cm # cs) (n # ns) =
     (name_ok cm \<and> lk_finds lk node cm n \<and> (\<exists>w. plain st n w \<and> v_count w \<noteq> 254 \<and> searchable c w) \<and> walk_ok lk c st n cs ns)"
| "walk_ok lk c st node _ _ = False"

definition inc_all :: "nat set \<Rightarrow> vfs \<Rightarrow> vfs" where
  "inc_all N st = st\<lparr>vnodes := (\<lambda>m. if m \<in> N then map_option inc (vnodes st m) else vnodes st m)\<rparr>"

lemma component_join: "name_ok cm \<Longrightarrow> component (cm @ CHR ''/'' # f) = cm" "name_ok cm \<Longrightarrow> component cm = cm"
  by (auto simp: component_def name_ok_def takeWhile_tail takeWhile_eq_all_conv)

lemma strchr_join: "name_ok cm \<Longrightarrow> strchr (cm @ CHR ''/'' # f) CHR ''/'' = Some (length cm)"
  using component_join(1)[of cm f] by (auto simp: strchr_Some component_def)

lemma plain_inc: "plain st n w \<Longrightarrow> v_count w \<noteq> 254 \<Longrightarrow> plain (set_node n (inc w) st) n (inc w)"
  using count_inc[of w] by (auto simp: plain_def)

lemma walk_frame: "n \<notin> set ns \<Longrightarrow> walk_ok lk c st node cs ns \<Longrightarrow> walk_ok lk c (set_node n u st) node cs ns"
  by (induction lk c st node cs ns rule: walk_ok.induct) (auto simp: plain_def)

lemma inc_all_insert:
  "vnodes st n = Some w \<Longrightarrow> n \<notin> N \<Longrightarrow> inc_all N (set_node n (inc w) st) = inc_all (insert n N) st"
  by (auto simp: inc_all_def fun_eq_iff)

lemma igetdir_walk:
  assumes "walk_ok lk c st node cs ns" "plain st node v" "searchable c v" "distinct (node # ns)" "CHR ''/'' \<notin> set f"
  shows "igetdir_loop lk c node (join cs f) st = Some (Inr (last (node # ns), f), inc_all (set ns) st)"
  using assms
proof (induction cs arbitrary: st node ns v)
  case Nil
  then have "ns = []" by (cases ns) simp_all
  then show ?case using Nil by (subst igetdir_loop.simps) (simp add: inc_all_def strchr_None[THEN iffD2])
next
  case (Cons cm cs st node ns0 v)
  obtain n ns where ns0: "ns0 = n # ns" using Cons.prems(1) by (cases ns0) simp_all
  obtain w where w: "plain st n w" "v_count w \<noteq> 254" "searchable c w" "name_ok cm" "lk_finds lk node cm n" "walk_ok lk c st n cs ns"
    using Cons.prems(1) unfolding ns0 by auto
  let ?f = "cm @ CHR ''/'' # join cs f" and ?st = "set_node n (inc w) st"
  have nn: "n \<noteq> node" using Cons.prems(4) ns0 by simp
  have cf: "component ?f = cm" "component ?f \<noteq> ''.''" "component ?f \<noteq> ''..''" using w(4) by (auto simp: component_join name_ok_def)
  have g: "getdentry lk c node ?f False st = Some (Inr n, ?st)"
    by (rule getdentry_plain[OF Cons.prems(2,3) _ w(1) nn cf(2,3)]) (use w(5) cf(1) in simp)
  have "igetdir_loop lk c n (join cs f) ?st = Some (Inr (last (n # ns), f), inc_all (set ns) ?st)"
    using Cons.prems(4,5) w(3) by (intro Cons.IH[OF walk_frame[OF _ w(6)] plain_inc[OF w(1,2)]]) (simp_all add: ns0)
  moreover have "inc_all (set ns) ?st = inc_all (set (n # ns)) st"
    using w(1) Cons.prems(4) by (simp add: ns0 inc_all_insert plain_def)
  moreover have "cm \<noteq> []" using w(4) by (simp add: name_ok_def)
  ultimately show ?case using g w(4) ns0 by (subst igetdir_loop.simps) (simp add: strchr_join)
qed

lemma first_component: "walk_ok lk c st node cs ns \<Longrightarrow> f \<noteq> [] \<Longrightarrow> CHR ''/'' \<notin> set f \<Longrightarrow> join cs f \<noteq> [] \<and> hd (join cs f) \<noteq> CHR ''/''"
  by (cases "(lk, c, st, node, cs, ns)" rule: walk_ok.cases) (auto simp: name_ok_def dest: hd_in_set)

lemma last_dir:
  assumes "walk_ok lk c st node cs ns" "plain st node v" "searchable c v" "node \<notin> set ns"
  shows "\<exists>u. plain (inc_all (set ns) st) (last (node # ns)) u \<and> searchable c u"
proof (cases "ns = []")
  case True
  then show ?thesis using assms by (auto simp: inc_all_def)
next
  case False
  have "\<exists>w. plain st (last ns) w \<and> v_count w \<noteq> 254 \<and> searchable c w"
    using assms(1) False by (induction lk c st node cs ns rule: walk_ok.induct) (auto split: if_splits)
  then obtain w where w: "plain st (last ns) w" "v_count w \<noteq> 254" "searchable c w" by blast
  have "plain (inc_all (set ns) st) (last ns) (inc w)"
    using plain_inc[OF w(1,2)] w(1) False by (auto simp: plain_def inc_all_def)
  then show ?thesis using False w(3) by auto
qed

lemma namei_walk:
  assumes "walk_ok lk c st node cs ns" "plain st node v" "searchable c v" "distinct (node # ns @ [n])"
    and "name_ok f" "lk_finds lk (last (node # ns)) f n" "plain st n w"
    and "path = join cs f \<and> c_pwd c = Some node \<or> path = CHR ''/'' # join cs f \<and> c_root c = Some node"
  shows "namei lk root c (Some path) st = Some (Inr n, inc_all (set ns \<union> {n}) st)"
proof -
  let ?st = "inc_all (set ns) st" and ?d = "last (node # ns)"
  have f: "CHR ''/'' \<notin> set f" "f \<noteq> []" "component f = f" "f \<noteq> ''.''" "f \<noteq> ''..''"
    using assms(5) component_join(2) by (auto simp: name_ok_def)
  have ne: "join cs f \<noteq> []" "hd (join cs f) \<noteq> CHR ''/''"
    using first_component[OF assms(1), of f] f by auto
  have loop: "igetdir_loop lk c node (join cs f) st = Some (Inr (?d, f), ?st)"
    using igetdir_walk assms f(1) by simp
  obtain u where u: "plain ?st ?d u" "searchable c u" using last_dir[OF assms(1-3)] assms(4) by auto
  have pn: "plain ?st n w" "n \<noteq> ?d" using assms(4,7) by (auto simp: plain_def inc_all_def)
  have "getdentry lk c ?d f False ?st = Some (Inr n, set_node n (inc w) ?st)"
    by (rule getdentry_plain[OF u _ pn]) (use assms(6) f in simp_all)
  moreover have "set_node n (inc w) ?st = inc_all (set ns \<union> {n}) st"
    using assms(4,7) by (auto simp: inc_all_def plain_def fun_eq_iff)
  ultimately show ?thesis using assms(8) loop ne f(2) by (auto simp: namei_def igetdir_def)
qed


definition demo_tree :: vfs where
  "demo_tree = \<lparr>vnodes = [3 \<mapsto> (demo_rd 0 1)\<lparr>v_count := 1\<rparr>, 4 \<mapsto> (demo_rd 0 2)\<lparr>v_count := 1\<rparr>, 5 \<mapsto> (demo_rd 0 3)\<lparr>v_count := 1\<rparr>],
      supers = [0 \<mapsto> \<lparr>s_cache = [3, 4, 5], s_root = Some 3, s_dev = None, s_op = True\<rparr>], next_node = 6\<rparr>"

definition demo_cred :: cred where
  "demo_cred = \<lparr>c_uid = 0, c_euid = 0, c_gid = 0, c_egid = 0, c_root = Some 3, c_pwd = Some 3\<rparr>"

definition demo_lk :: "nat \<Rightarrow> string \<Rightarrow> vfs \<Rightarrow> (nat option \<times> vfs) option" where
  "demo_lk node f st = map_option (\<lambda>st1. (Some (Suc node), st1)) (bump (Suc node) st)"

lemma demo_searchable: "searchable demo_cred ((demo_rd 0 i)\<lparr>v_count := 1\<rparr>)"
  by (simp add: searchable_def demo_rd_def demo_cred_def IS_DIR_def FS_DIRECTORY_def node_permission_def I_AM_ROOT_def X_OK_def)

lemma demo_plain:
  "plain demo_tree 3 ((demo_rd 0 1)\<lparr>v_count := 1\<rparr>)" "plain demo_tree 4 ((demo_rd 0 2)\<lparr>v_count := 1\<rparr>)"
  "plain demo_tree 5 ((demo_rd 0 3)\<lparr>v_count := 1\<rparr>)"
  by (simp_all add: plain_def demo_tree_def demo_rd_def)

lemma demo_walk: "name_ok d \<Longrightarrow> walk_ok demo_lk demo_cred demo_tree 3 [d] [4]"
  using demo_plain(2) demo_searchable by (auto simp: lk_finds_def demo_lk_def intro!: exI[of _ "(demo_rd 0 2)\<lparr>v_count := 1\<rparr>"])


end
