(* ===== verification/Files.thy ===== *)
theory Files
  imports Namei
begin

text \<open>
  Open files: the task structure of \<^verbatim>\<open>src/include/task.h\<close>, the dispatch functions at the end of
  \<^verbatim>\<open>src/fs/vfs/vfs.c\<close>, and the system calls of \<^verbatim>\<open>src/fs/open.c\<close>, \<^verbatim>\<open>src/fs/fcntl.c\<close> and
  \<^verbatim>\<open>src/fs/read_write.c\<close>.

  A \<^verbatim>\<open>FILE\<close> is an entry of a store and a task's descriptor table is a list of pointers into it, so that
  descriptors of one or of several tasks share a \<^verbatim>\<open>FILE\<close>. The file operations of an inode are the
  parameter \<open>fop\<close>, with \<open>None\<close> for a missing function pointer; they act on the state \<open>'d\<close> of the
  filesystems and devices. A data transfer yields the returned number and the bytes stored in the
  caller's buffer. \<open>None\<close> as the result of a system call is the use of a null or dangling pointer.
\<close>

section \<open>Tasks, files and the kernel state\<close>

datatype task_state = TASK_RUNNING | TASK_WAITING | TASK_UNINTERRUPTIBLE | TASK_BLOCKED | TASK_ZOMBIE

definition NR_TASKS :: nat where "NR_TASKS = 64"
definition NO_TASK :: int where "NO_TASK = - 1"

record FILE =
  f_fd :: uint
  f_flags :: uint
  f_node :: nat
  f_offset :: uint
  f_count :: uint

record task =
  t_pid :: int
  t_parent :: int
  t_pgrp :: int
  t_state :: task_state
  t_esp :: uint
  t_ebp :: uint
  t_eip :: uint
  t_directory :: nat
  t_kernel_stack :: uint
  t_cred :: cred
  t_exit_code :: int
  t_signals :: uint
  t_close_on_exec :: uint
  t_files :: "nat option list"

record 'd kernel =
  tasks :: "task list"
  current :: nat
  beyond :: task
  kvfs :: vfs
  root_vnode :: nat
  fstore :: "nat \<Rightarrow> FILE option"
  next_file :: nat
  kdev :: 'd

definition cur :: "'d kernel \<Rightarrow> task" where
  "cur k = tasks k ! current k"

definition set_cur :: "(task \<Rightarrow> task) \<Rightarrow> 'd kernel \<Rightarrow> 'd kernel" where
  "set_cur f k = k\<lparr>tasks := (tasks k)[current k := f (cur k)]\<rparr>"

definition set_file :: "nat \<Rightarrow> FILE \<Rightarrow> 'd kernel \<Rightarrow> 'd kernel" where
  "set_file f x k = k\<lparr>fstore := (fstore k)(f \<mapsto> x)\<rparr>"

section \<open>Dispatch to the filesystem\<close>

record 'd file_operations =
  op_open :: "(nat \<Rightarrow> 'd \<Rightarrow> int \<times> 'd) option"
  op_read :: "(nat \<Rightarrow> uint \<Rightarrow> uint \<Rightarrow> 'd \<Rightarrow> (int \<times> string) \<times> 'd) option"
  op_write :: "(nat \<Rightarrow> uint \<Rightarrow> string \<Rightarrow> 'd \<Rightarrow> int \<times> 'd) option"
  op_readdir :: "(nat \<Rightarrow> uint \<Rightarrow> 'd \<Rightarrow> (int \<times> string) \<times> 'd) option"
  op_close :: "(nat \<Rightarrow> 'd \<Rightarrow> int \<times> 'd) option"
  op_ioctl :: "(nat \<Rightarrow> uint \<Rightarrow> uint \<Rightarrow> 'd \<Rightarrow> int \<times> 'd) option"
  op_request :: "(nat \<Rightarrow> int \<Rightarrow> uint \<Rightarrow> uint \<Rightarrow> string \<Rightarrow> 'd \<Rightarrow> (int \<times> string) \<times> 'd) option"

definition open_fs :: "(nat \<Rightarrow> 'd file_operations) \<Rightarrow> nat \<Rightarrow> 'd \<Rightarrow> int \<times> 'd" where
  "open_fs fop node d = (case op_open (fop node) of Some f \<Rightarrow> f node d | None \<Rightarrow> (0, d))"

definition read_fs :: "(nat \<Rightarrow> 'd file_operations) \<Rightarrow> nat \<Rightarrow> vnode \<Rightarrow> uint \<Rightarrow> uint \<Rightarrow> 'd \<Rightarrow> (int \<times> string) \<times> 'd" where
  "read_fs fop node v offset sz d =
    (if IS_DIR v then ((err EISDIR, []), d)
     else case op_read (fop node) of Some f \<Rightarrow> f node offset sz d | None \<Rightarrow> ((err EINVAL, []), d))"

definition write_fs :: "(nat \<Rightarrow> 'd file_operations) \<Rightarrow> nat \<Rightarrow> vnode \<Rightarrow> uint \<Rightarrow> string \<Rightarrow> 'd \<Rightarrow> int \<times> 'd" where
  "write_fs fop node v offset buffer d =
    (if IS_DIR v then (err EISDIR, d)
     else case op_write (fop node) of Some f \<Rightarrow> f node offset buffer d | None \<Rightarrow> (err EINVAL, d))"

definition request_fs ::
  "(nat \<Rightarrow> 'd file_operations) \<Rightarrow> nat \<Rightarrow> vnode \<Rightarrow> int \<Rightarrow> uint \<Rightarrow> uint \<Rightarrow> string \<Rightarrow> 'd \<Rightarrow> (int \<times> string) \<times> 'd" where
  "request_fs fop node v cmd sector cnt buffer d =
    (if IS_DIR v then ((err EISDIR, buffer), d)
     else case op_request (fop node) of Some f \<Rightarrow> f node cmd sector cnt buffer d | None \<Rightarrow> ((err EINVAL, buffer), d))"

definition close_fs :: "(nat \<Rightarrow> 'd file_operations) \<Rightarrow> nat \<Rightarrow> 'd \<Rightarrow> int \<times> 'd" where
  "close_fs fop node d = (case op_close (fop node) of Some f \<Rightarrow> f node d | None \<Rightarrow> (0, d))"

definition readdir_fs :: "(nat \<Rightarrow> 'd file_operations) \<Rightarrow> nat \<Rightarrow> vnode \<Rightarrow> uint \<Rightarrow> 'd \<Rightarrow> (int \<times> string) \<times> 'd" where
  "readdir_fs fop node v index d =
    (if \<not> IS_DIR v then ((err EINVAL, []), d)
     else case op_readdir (fop node) of Some f \<Rightarrow> f node index d | None \<Rightarrow> ((err EINVAL, []), d))"

definition ioctl_fs :: "(nat \<Rightarrow> 'd file_operations) \<Rightarrow> nat \<Rightarrow> uint \<Rightarrow> uint \<Rightarrow> 'd \<Rightarrow> int \<times> 'd" where
  "ioctl_fs fop node cmd arg d = (case op_ioctl (fop node) of Some f \<Rightarrow> f node cmd arg d | None \<Rightarrow> (err ENOTTY, d))"

section \<open>Changing directories\<close>

type_synonym lookup_op = "nat \<Rightarrow> string \<Rightarrow> vfs \<Rightarrow> (nat option \<times> vfs) option"

definition k_namei :: "lookup_op \<Rightarrow> string option \<Rightarrow> 'd kernel \<Rightarrow> ((errno + nat) \<times> 'd kernel) option" where
  "k_namei lk name k =
    map_option (\<lambda>(r, st). (r, k\<lparr>kvfs := st\<rparr>)) (namei lk (root_vnode k) (t_cred (cur k)) name (kvfs k))"

definition sys_chdir :: "lookup_op \<Rightarrow> string option \<Rightarrow> 'd kernel \<Rightarrow> (int \<times> 'd kernel) option" where
  "sys_chdir lk name k = do {
     (r, k1) \<leftarrow> k_namei lk name k;
     case r of
       Inl e \<Rightarrow> Some (err e, k1)
     | Inr n \<Rightarrow> do {
         v \<leftarrow> vnodes (kvfs k1) n;
         if IS_DIR v then Some (0, set_cur (\<lambda>t. t\<lparr>t_cred := (t_cred t)\<lparr>c_pwd := Some n\<rparr>\<rparr>) k1)
         else Some (err ENOTDIR, k1)
       }
   }"

definition sys_chroot :: "lookup_op \<Rightarrow> string option \<Rightarrow> 'd kernel \<Rightarrow> (int \<times> 'd kernel) option" where
  "sys_chroot lk name k =
    (if \<not> I_AM_ROOT (t_cred (cur k)) then Some (err EPERM, k)
     else do {
       (r, k1) \<leftarrow> k_namei lk name k;
       case r of
         Inl e \<Rightarrow> Some (err e, k1)
       | Inr n \<Rightarrow> do {
           v \<leftarrow> vnodes (kvfs k1) n;
           if IS_DIR v then Some (0, set_cur (\<lambda>t. t\<lparr>t_cred := (t_cred t)\<lparr>c_root := Some n\<rparr>\<rparr>) k1)
           else Some (err ENOTDIR, k1)
         }
     })"

section \<open>Opening, closing and duplicating\<close>

definition O_WRONLY :: uint where "O_WRONLY = 1"
definition O_RDWR :: uint where "O_RDWR = 2"
definition O_APPEND :: uint where "O_APPEND = 0x400"

text \<open>The first descriptor that is not in use, or \<^verbatim>\<open>NR_OPEN\<close>.\<close>

definition free_fd :: "nat option list \<Rightarrow> nat" where
  "free_fd fs = length (takeWhile (\<lambda>x. x \<noteq> None) (take NR_OPEN fs))"

definition clear_cloexec :: "nat \<Rightarrow> uint \<Rightarrow> uint" where
  "clear_cloexec fd w = w AND NOT (push_bit fd 1)"

definition open_flags :: "uint \<Rightarrow> uint" where
  "open_flags flag =
    (if flag AND 3 = 0 \<or> flag AND O_RDWR \<noteq> 0 then FMODE_READ else 0) OR
    (if flag AND O_WRONLY \<noteq> 0 \<or> flag AND O_RDWR \<noteq> 0 then FMODE_WRITE else 0)"

definition sys_open :: "lookup_op \<Rightarrow> (nat \<Rightarrow> 'd file_operations) \<Rightarrow> string option \<Rightarrow> uint \<Rightarrow> 'd kernel \<Rightarrow> (int \<times> 'd kernel) option" where
  "sys_open lk fop filename flag k =
    (let fd = free_fd (t_files (cur k)) in
     if fd \<ge> NR_OPEN then Some (err EMFILE, k)
     else do {
       (r, k1) \<leftarrow> k_namei lk filename k;
       case r of
         Inl e \<Rightarrow> Some (err e, k1)
       | Inr n \<Rightarrow> do {
           v \<leftarrow> vnodes (kvfs k1) n;
           let f = next_file k1;
           let x = \<lparr>f_fd = of_nat fd, f_flags = open_flags flag, f_node = n,
                    f_offset = (if flag AND O_APPEND \<noteq> 0 then v_size v else 0), f_count = 1\<rparr>;
           let k2 = k1\<lparr>next_file := Suc f, kdev := snd (open_fs fop n (kdev k1))\<rparr>;
           Some (int fd, set_cur (\<lambda>t. t\<lparr>t_close_on_exec := clear_cloexec fd (t_close_on_exec t), t_files := (t_files t)[fd := Some f]\<rparr>)
                           (set_file f x k2))
         }
     })"

text \<open>The descriptor is removed from the table first; the last one releases the inode and the \<^verbatim>\<open>FILE\<close>.\<close>

definition put_file :: "(nat \<Rightarrow> 'd file_operations) \<Rightarrow> nat \<Rightarrow> 'd kernel \<Rightarrow> 'd kernel option" where
  "put_file fop f k = do {
     x \<leftarrow> fstore k f;
     if f_count x = 0 then Some k
     else if f_count x - 1 = 0 then do {
       st \<leftarrow> iput (Some (f_node x)) (kvfs k);
       Some (k\<lparr>kvfs := st, kdev := snd (close_fs fop (f_node x) (kdev k)), fstore := (fstore k)(f := None)\<rparr>)
     }
     else Some (set_file f (x\<lparr>f_count := f_count x - 1\<rparr>) k)
   }"

definition sys_close :: "(nat \<Rightarrow> 'd file_operations) \<Rightarrow> int \<Rightarrow> 'd kernel \<Rightarrow> (int \<times> 'd kernel) option" where
  "sys_close fop fd k =
    (if fd < 0 \<or> fd \<ge> int NR_OPEN then Some (err EBADF, k)
     else case t_files (cur k) ! nat fd of
       None \<Rightarrow> Some (err EBADF, k)
     | Some f \<Rightarrow>
         map_option (Pair 0) (put_file fop f
           (set_cur (\<lambda>t. t\<lparr>t_close_on_exec := clear_cloexec (nat fd) (t_close_on_exec t), t_files := (t_files t)[nat fd := None]\<rparr>) k)))"

definition sys_dup2 :: "(nat \<Rightarrow> 'd file_operations) \<Rightarrow> int \<Rightarrow> int \<Rightarrow> 'd kernel \<Rightarrow> (int \<times> 'd kernel) option" where
  "sys_dup2 fop fd fd2 k =
    (if fd < 0 \<or> fd \<ge> int NR_OPEN \<or> fd2 < 0 \<or> fd2 \<ge> int NR_OPEN then Some (err EBADF, k)
     else if t_files (cur k) ! nat fd = None then Some (err EBADF, k)
     else do {
       (r, k1) \<leftarrow> sys_close fop fd2 k;
       f \<leftarrow> t_files (cur k1) ! nat fd;
       x \<leftarrow> fstore k1 f;
       Some (fd2, set_file f (x\<lparr>f_count := f_count x + 1\<rparr>)
         (set_cur (\<lambda>t. t\<lparr>t_close_on_exec := clear_cloexec (nat fd2) (t_close_on_exec t), t_files := (t_files t)[nat fd2 := Some f]\<rparr>) k1))
     })"

definition sys_dup :: "(nat \<Rightarrow> 'd file_operations) \<Rightarrow> int \<Rightarrow> 'd kernel \<Rightarrow> (int \<times> 'd kernel) option" where
  "sys_dup fop fd k =
    (let fd2 = free_fd (t_files (cur k)) in
     if fd2 \<ge> NR_OPEN then Some (err EMFILE, k) else sys_dup2 fop fd (int fd2) k)"

section \<open>Reading and writing\<close>

definition fd_file :: "int \<Rightarrow> 'd kernel \<Rightarrow> nat option" where
  "fd_file fd k = (if fd < 0 \<or> fd \<ge> int NR_OPEN then None else t_files (cur k) ! nat fd)"

definition sys_ioctl :: "(nat \<Rightarrow> 'd file_operations) \<Rightarrow> int \<Rightarrow> uint \<Rightarrow> uint \<Rightarrow> 'd kernel \<Rightarrow> (int \<times> 'd kernel) option" where
  "sys_ioctl fop fd cmd arg k =
    (case fd_file fd k of
       None \<Rightarrow> Some (err EBADF, k)
     | Some f \<Rightarrow> do {
         x \<leftarrow> fstore k f;
         let (r, d) = ioctl_fs fop (f_node x) cmd arg (kdev k);
         Some (r, k\<lparr>kdev := d\<rparr>)
       })"

text \<open>
  The result of the transfer is stored in an unsigned variable and added to the offset, an error code as
  well. The test of the mode in \<^verbatim>\<open>sys_read\<close> is \<^verbatim>\<open>(!f->flags) & FMODE_READ\<close>.
\<close>

definition advance :: "vnode \<Rightarrow> FILE \<Rightarrow> int \<Rightarrow> FILE" where
  "advance v x r = (if IS_CHR v then x else x\<lparr>f_offset := f_offset x + word_of_int r\<rparr>)"

definition sys_read :: "(nat \<Rightarrow> 'd file_operations) \<Rightarrow> int \<Rightarrow> uint \<Rightarrow> 'd kernel \<Rightarrow> ((int \<times> string) \<times> 'd kernel) option" where
  "sys_read fop fd sz k =
    (case fd_file fd k of
       None \<Rightarrow> Some ((err EBADF, []), k)
     | Some f \<Rightarrow> do {
         x \<leftarrow> fstore k f;
         if (if f_flags x = 0 then 1 else 0) AND FMODE_READ \<noteq> 0 then Some ((err EBADF, []), k)
         else do {
           v \<leftarrow> vnodes (kvfs k) (f_node x);
           let ((r, bytes), d) = read_fs fop (f_node x) v (f_offset x) sz (kdev k);
           Some ((r, bytes), set_file f (advance v x r) (k\<lparr>kdev := d\<rparr>))
         }
       })"

definition sys_write :: "(nat \<Rightarrow> 'd file_operations) \<Rightarrow> int \<Rightarrow> string \<Rightarrow> 'd kernel \<Rightarrow> (int \<times> 'd kernel) option" where
  "sys_write fop fd buffer k =
    (case fd_file fd k of
       None \<Rightarrow> Some (err EBADF, k)
     | Some f \<Rightarrow> do {
         x \<leftarrow> fstore k f;
         if f_flags x AND FMODE_WRITE = 0 then Some (err EBADF, k)
         else do {
           v \<leftarrow> vnodes (kvfs k) (f_node x);
           let (r, d) = write_fs fop (f_node x) v (f_offset x) buffer (kdev k);
           Some (r, set_file f (advance v x r) (k\<lparr>kdev := d\<rparr>))
         }
       })"

section \<open>Reference counts\<close>

text \<open>The number of descriptors, over all tasks, that refer to a \<^verbatim>\<open>FILE\<close>.\<close>

definition refs :: "task list \<Rightarrow> nat \<Rightarrow> nat" where
  "refs ts f = count_list (concat (map t_files ts)) (Some f)"

definition tables_ok :: "'d kernel \<Rightarrow> bool" where
  "tables_ok k \<longleftrightarrow> length (tasks k) = NR_TASKS \<and> current k < NR_TASKS \<and> (\<forall>t \<in> set (tasks k). length (t_files t) = NR_OPEN)"

definition counts_ok :: "'d kernel \<Rightarrow> bool" where
  "counts_ok k \<longleftrightarrow> (\<forall>f. case fstore k f of None \<Rightarrow> refs (tasks k) f = 0
     | Some x \<Rightarrow> f < next_file k \<and> refs (tasks k) f \<noteq> 0 \<and> unat (f_count x) = refs (tasks k) f)"

definition files_inv :: "'d kernel \<Rightarrow> bool" where
  "files_inv k \<longleftrightarrow> tables_ok k \<and> counts_ok k"

lemma count_list_update:
  "i < length xs \<Longrightarrow> count_list (xs[i := v]) y + of_bool (xs ! i = y) = count_list xs y + of_bool (v = y)"
proof (induction xs arbitrary: i)
  case (Cons a xs)
  then show ?case by (cases i) auto
qed simp

lemma count_list_append [simp]: "count_list (xs @ ys) y = count_list xs y + count_list ys y"
  by (induction xs) auto

lemma refs_update:
  "c < length ts \<Longrightarrow> refs (ts[c := t]) f + count_list (t_files (ts ! c)) (Some f) = refs ts f + count_list (t_files t) (Some f)"
proof (induction ts arbitrary: c)
  case (Cons a ts)
  then show ?case by (cases c) (auto simp: refs_def)
qed simp

lemma refs_bound:
  assumes "tables_ok k" shows "refs (tasks k) f \<le> 2048"
proof -
  have "count_list xs y \<le> length xs" for xs :: "nat option list" and y by (rule count_le_length)
  then have "refs (tasks k) f \<le> length (concat (map t_files (tasks k)))" by (simp add: refs_def)
  also have "\<dots> = sum_list (map (\<lambda>t. length (t_files t)) (tasks k))" by (simp add: length_concat comp_def)
  also have "map (\<lambda>t. length (t_files t)) (tasks k) = map (\<lambda>_. NR_OPEN) (tasks k)"
    using assms by (auto simp: tables_ok_def)
  also have "sum_list (map (\<lambda>_. NR_OPEN) (tasks k)) = 2048"
    using assms by (simp add: tables_ok_def sum_list_triv NR_TASKS_def NR_OPEN_def)
  finally show ?thesis .
qed

text \<open>An operation on one slot of the current task's descriptor table.\<close>

lemma cur_in: "tables_ok k \<Longrightarrow> cur k \<in> set (tasks k)"
  by (simp add: tables_ok_def cur_def)

lemma set_cur_slot:
  assumes ok: "tables_ok k" and fd: "fd < NR_OPEN" and g: "t_files (g (cur k)) = (t_files (cur k))[fd := v]"
  shows "tables_ok (set_cur g k)" "cur (set_cur g k) = g (cur k)" "fstore (set_cur g k) = fstore k" "next_file (set_cur g k) = next_file k"
    "kvfs (set_cur g k) = kvfs k" "kdev (set_cur g k) = kdev k"
    "refs (tasks (set_cur g k)) f + of_bool (t_files (cur k) ! fd = Some f) = refs (tasks k) f + of_bool (v = Some f)"
proof -
  have len: "length (t_files (cur k)) = NR_OPEN" using ok cur_in[OF ok] by (simp add: tables_ok_def)
  then have "length (t_files (g (cur k))) = NR_OPEN" using g by simp
  then show "tables_ok (set_cur g k)" using ok by (auto simp: tables_ok_def set_cur_def dest!: set_update_subset_insert[THEN subsetD])
  show "cur (set_cur g k) = g (cur k)" "fstore (set_cur g k) = fstore k" "next_file (set_cur g k) = next_file k"
      "kvfs (set_cur g k) = kvfs k" "kdev (set_cur g k) = kdev k"
    using ok by (simp_all add: set_cur_def cur_def tables_ok_def)
  have "refs (tasks (set_cur g k)) f + count_list (t_files (cur k)) (Some f) = refs (tasks k) f + count_list (t_files (g (cur k))) (Some f)"
    using refs_update[of "current k" "tasks k" "g (cur k)" f] ok by (simp add: set_cur_def cur_def tables_ok_def)
  moreover have "count_list (t_files (g (cur k))) (Some f) + of_bool (t_files (cur k) ! fd = Some f) =
      count_list (t_files (cur k)) (Some f) + of_bool (v = Some f)"
    using count_list_update[of fd "t_files (cur k)" v "Some f"] fd len g by simp
  ultimately show "refs (tasks (set_cur g k)) f + of_bool (t_files (cur k) ! fd = Some f) = refs (tasks k) f + of_bool (v = Some f)"
    by linarith
qed

lemma counts_ok_Some:
  "counts_ok k \<Longrightarrow> fstore k f = Some x \<Longrightarrow> f < next_file k \<and> refs (tasks k) f \<noteq> 0 \<and> unat (f_count x) = refs (tasks k) f"
  by (auto simp: counts_ok_def dest: spec[of _ f])

lemma counts_ok_None: "counts_ok k \<Longrightarrow> fstore k f = None \<Longrightarrow> refs (tasks k) f = 0"
  by (auto simp: counts_ok_def dest: spec[of _ f])

lemma counts_okI:
  assumes "\<And>f. fstore k f = None \<Longrightarrow> refs (tasks k) f = 0"
    and "\<And>f x. fstore k f = Some x \<Longrightarrow> f < next_file k \<and> refs (tasks k) f \<noteq> 0 \<and> unat (f_count x) = refs (tasks k) f"
  shows "counts_ok k"
  using assms by (auto simp: counts_ok_def split: option.splits)

text \<open>A slot of a task refers to an allocated \<^verbatim>\<open>FILE\<close>.\<close>

lemma slot_file:
  assumes "files_inv k" "fd < NR_OPEN" "t_files (cur k) ! fd = Some f"
  obtains x where "fstore k f = Some x" "unat (f_count x) = refs (tasks k) f" "refs (tasks k) f \<noteq> 0" "f < next_file k"
proof -
  have ok: "tables_ok k" "counts_ok k" using assms(1) by (simp_all add: files_inv_def)
  have "length (t_files (cur k)) = NR_OPEN" using ok cur_in[OF ok(1)] by (simp add: tables_ok_def)
  then have "Some f \<in> set (t_files (cur k))" using assms(2,3) by (metis nth_mem)
  then have "Some f \<in> set (concat (map t_files (tasks k)))" using cur_in[OF ok(1)] by auto
  then have "refs (tasks k) f \<noteq> 0" by (simp add: refs_def count_list_0_iff)
  then obtain x where "fstore k f = Some x" using counts_ok_None[OF ok(2)] by (cases "fstore k f") auto
  then show ?thesis using that counts_ok_Some[OF ok(2)] by blast
qed

lemma put_file_inv:
  assumes k: "tables_ok k" and f: "fstore k f = Some x" "f < next_file k" "unat (f_count x) = Suc (refs (tasks k) f)"
    and rest: "\<And>g y. g \<noteq> f \<Longrightarrow> fstore k g = Some y \<Longrightarrow> g < next_file k \<and> refs (tasks k) g \<noteq> 0 \<and> unat (f_count y) = refs (tasks k) g"
    and none: "\<And>g. fstore k g = None \<Longrightarrow> refs (tasks k) g = 0"
    and p: "put_file fop f k = Some k'"
  shows "files_inv k'" "tasks k' = tasks k" "current k' = current k"
proof -
  have nz: "f_count x \<noteq> 0" using f(3) by auto
  have c: "f_count x \<noteq> 0" "unat (f_count x - 1) = refs (tasks k) f" using nz f(3) unat_pred[OF nz] by simp_all
  have z: "f_count x - 1 = 0 \<longleftrightarrow> refs (tasks k) f = 0" using c(2) by (metis unat_0 unat_eq_zero)
  show "files_inv k'" "tasks k' = tasks k" "current k' = current k"
  proof (atomize (full), cases "f_count x - 1 = 0")
    case True
    then obtain st where "k' = k\<lparr>kvfs := st, kdev := snd (close_fs fop (f_node x) (kdev k)), fstore := (fstore k)(f := None)\<rparr>"
      using p f(1) c(1) by (auto simp: put_file_def split: bind_splits)
    then show "files_inv k' \<and> tasks k' = tasks k \<and> current k' = current k"
      using k rest none z True by (auto simp: files_inv_def tables_ok_def intro!: counts_okI split: if_splits)
  next
    case False
    then have "k' = set_file f (x\<lparr>f_count := f_count x - 1\<rparr>) k" using p f(1) c(1) by (simp add: put_file_def)
    then show "files_inv k' \<and> tasks k' = tasks k \<and> current k' = current k"
      using k rest none z False f c by (auto simp: files_inv_def tables_ok_def set_file_def intro!: counts_okI split: if_splits)
  qed
qed

lemma sys_close_inv:
  assumes inv: "files_inv k" and c: "sys_close fop fd k = Some (r, k')"
  shows "files_inv k' \<and> current k' = current k \<and>
    t_files (cur k') = (if 0 \<le> fd \<and> fd < int NR_OPEN then (t_files (cur k))[nat fd := None] else t_files (cur k))"
proof -
  have ok: "tables_ok k" "counts_ok k" using inv by (simp_all add: files_inv_def)
  consider (bad) "k' = k" "\<not> (0 \<le> fd \<and> fd < int NR_OPEN)"
    | (empty) "k' = k" "0 \<le> fd" "fd < int NR_OPEN" "t_files (cur k) ! nat fd = None"
    | (ok) f where "0 \<le> fd" "fd < int NR_OPEN" "t_files (cur k) ! nat fd = Some f"
    using c by (cases "t_files (cur k) ! nat fd") (auto simp: sys_close_def split: if_splits)
  then show ?thesis
  proof cases
    case bad
    then show ?thesis using inv by auto
  next
    case empty
    then show ?thesis using inv list_update_id[of "t_files (cur k)" "nat fd"] by simp
  next
    case (ok f)
    let ?g = "\<lambda>t. t\<lparr>t_close_on_exec := clear_cloexec (nat fd) (t_close_on_exec t), t_files := (t_files t)[nat fd := None]\<rparr>"
    let ?k = "set_cur ?g k"
    have fd: "nat fd < NR_OPEN" using ok by simp
    have g: "t_files (?g (cur k)) = (t_files (cur k))[nat fd := None]" by simp
    note sc = set_cur_slot[where g = "?g", OF \<open>tables_ok k\<close> fd g]
    obtain x where x: "fstore k f = Some x" "unat (f_count x) = refs (tasks k) f" "refs (tasks k) f \<noteq> 0" "f < next_file k"
      using slot_file[OF inv fd ok(3)] .
    have rf: "refs (tasks k) f = Suc (refs (tasks ?k) f)" using sc(7)[of f] ok(3) by simp
    have rg: "refs (tasks ?k) h = refs (tasks k) h" if "h \<noteq> f" for h using sc(7)[of h] ok(3) that by simp
    have p: "put_file fop f ?k = Some k'" using c ok by (auto simp: sys_close_def split: if_splits)
    have a1: "unat (f_count x) = Suc (refs (tasks ?k) f)" using x rf by simp
    have a2: "h < next_file ?k \<and> refs (tasks ?k) h \<noteq> 0 \<and> unat (f_count y) = refs (tasks ?k) h" if "h \<noteq> f" "fstore ?k h = Some y" for h y
      using counts_ok_Some[OF \<open>counts_ok k\<close>, of h y] that rg sc by simp
    have a3: "refs (tasks ?k) h = 0" if "fstore ?k h = None" for h
    proof -
      have "fstore k h = None" "h \<noteq> f" using that sc(3) x(1) by auto
      then show ?thesis using counts_ok_None[OF \<open>counts_ok k\<close>] rg by simp
    qed
    have k': "files_inv k'" "tasks k' = tasks ?k" "current k' = current ?k"
      using put_file_inv[OF sc(1) _ _ a1 a2 a3 p] x sc by simp_all
    have "cur k' = ?g (cur k)" using k'(2,3) sc(2) by (simp add: cur_def)
    then show ?thesis using k' ok by (simp add: set_cur_def)
  qed
qed

text \<open>Filling an empty slot with a \<^verbatim>\<open>FILE\<close> and counting it.\<close>

lemma add_slot_inv:
  assumes k: "tables_ok k" and fd: "fd < NR_OPEN" "t_files (cur k) ! fd = None" and g: "t_files (g (cur k)) = (t_files (cur k))[fd := Some f]"
    and f: "f < next_file k" "unat (f_count x) = Suc (refs (tasks k) f)"
    and rest: "\<And>h y. h \<noteq> f \<Longrightarrow> fstore k h = Some y \<Longrightarrow> h < next_file k \<and> refs (tasks k) h \<noteq> 0 \<and> unat (f_count y) = refs (tasks k) h"
    and none: "\<And>h. h \<noteq> f \<Longrightarrow> fstore k h = None \<Longrightarrow> refs (tasks k) h = 0"
  shows "files_inv (set_file f x (set_cur g k))"
proof -
  let ?k = "set_cur g k"
  note sc = set_cur_slot[where g = g, OF k fd(1) g]
  have rf: "refs (tasks ?k) f = Suc (refs (tasks k) f)" using sc(7)[of f] fd(2) by simp
  have rg: "refs (tasks ?k) h = refs (tasks k) h" if "h \<noteq> f" for h using sc(7)[of h] fd(2) that by simp
  have "counts_ok (set_file f x ?k)"
  proof (rule counts_okI)
    show "refs (tasks (set_file f x ?k)) h = 0" if "fstore (set_file f x ?k) h = None" for h
      using that none[of h] rg[of h] sc by (auto simp: set_file_def split: if_splits)
    show "h < next_file (set_file f x ?k) \<and> refs (tasks (set_file f x ?k)) h \<noteq> 0 \<and> unat (f_count y) = refs (tasks (set_file f x ?k)) h"
      if "fstore (set_file f x ?k) h = Some y" for h y
      using that rest[of h y] rg[of h] rf f sc by (cases "h = f") (auto simp: set_file_def)
  qed
  then show ?thesis using sc(1) by (simp add: files_inv_def tables_ok_def set_file_def)
qed

lemma sys_dup2_inv:
  assumes inv: "files_inv k" and d: "sys_dup2 fop fd fd2 k = Some (r, k')"
  shows "files_inv k'"
proof (cases "0 \<le> fd \<and> fd < int NR_OPEN \<and> 0 \<le> fd2 \<and> fd2 < int NR_OPEN \<and> t_files (cur k) ! nat fd \<noteq> None")
  case False
  then show ?thesis using inv d by (auto simp: sys_dup2_def split: if_splits)
next
  case True
  then obtain r1 k1 f x where k1: "sys_close fop fd2 k = Some (r1, k1)" "t_files (cur k1) ! nat fd = Some f" "fstore k1 f = Some x"
    and k': "k' = set_file f (x\<lparr>f_count := f_count x + 1\<rparr>)
         (set_cur (\<lambda>t. t\<lparr>t_close_on_exec := clear_cloexec (nat fd2) (t_close_on_exec t), t_files := (t_files t)[nat fd2 := Some f]\<rparr>) k1)"
    using d by (auto simp: sys_dup2_def split: bind_splits if_splits)
  note c = sys_close_inv[OF inv k1(1)]
  have ok: "files_inv k1" "tables_ok k1" "counts_ok k1" "tables_ok k" using c inv by (auto simp: files_inv_def)
  have fd2: "nat fd2 < NR_OPEN" using True by auto
  have "length (t_files (cur k)) = NR_OPEN" using ok(4) cur_in[OF ok(4)] by (simp add: tables_ok_def)
  then have e: "t_files (cur k1) ! nat fd2 = None" using c True fd2 by simp
  have x: "f < next_file k1" "unat (f_count x) = refs (tasks k1) f" using counts_ok_Some[OF ok(3) k1(3)] by auto
  have "unat (f_count x) < 2 ^ LENGTH(32) - 1" using refs_bound[OF ok(2), of f] x(2) by simp
  then have "unat (f_count x + 1) = Suc (refs (tasks k1) f)" using x(2) by (simp add: unat_word_ariths)
  then show ?thesis unfolding k'
    by (intro add_slot_inv[OF ok(2) fd2 e]) (use x counts_ok_Some[OF ok(3)] counts_ok_None[OF ok(3)] in auto)
qed

lemma k_namei_frame:
  "k_namei lk name k = Some (r, k1) \<Longrightarrow> tasks k1 = tasks k \<and> current k1 = current k \<and> fstore k1 = fstore k \<and> next_file k1 = next_file k"
  by (auto simp: k_namei_def)

lemma files_inv_frame:
  "files_inv k \<Longrightarrow> tasks k1 = tasks k \<Longrightarrow> current k1 = current k \<Longrightarrow> fstore k1 = fstore k \<Longrightarrow> next_file k1 = next_file k \<Longrightarrow> files_inv k1"
  by (simp add: files_inv_def tables_ok_def counts_ok_def cong: option.case_cong)

lemma free_fd_None:
  assumes "free_fd fs < NR_OPEN" "length fs = NR_OPEN" shows "fs ! free_fd fs = None"
  using nth_length_takeWhile[of "\<lambda>x. x \<noteq> None" "take NR_OPEN fs"] assms by (simp add: free_fd_def)

lemma sys_open_inv:
  assumes inv: "files_inv k" and o: "sys_open lk fop name flag k = Some (r, k')"
  shows "files_inv k'"
proof (cases "free_fd (t_files (cur k)) \<ge> NR_OPEN")
  case True
  then show ?thesis using inv o by (simp add: sys_open_def)
next
  case False
  let ?fd = "free_fd (t_files (cur k))"
  obtain r1 k1 where k1: "k_namei lk name k = Some (r1, k1)" using o False by (cases "k_namei lk name k") (auto simp: sys_open_def Let_def)
  note fr = k_namei_frame[OF k1]
  have inv1: "files_inv k1" using files_inv_frame[OF inv] fr by blast
  show ?thesis
  proof (cases r1)
    case (Inl e)
    then show ?thesis using o False k1 inv1 by (simp add: sys_open_def)
  next
    case (Inr n)
    let ?f = "next_file k1" and ?k2 = "k1\<lparr>next_file := Suc (next_file k1), kdev := snd (open_fs fop n (kdev k1))\<rparr>"
    obtain v where v: "vnodes (kvfs k1) n = Some v"
      using o False k1 Inr by (cases "vnodes (kvfs k1) n") (auto simp: sys_open_def Let_def)
    define x where "x = \<lparr>f_fd = of_nat ?fd, f_flags = open_flags flag, f_node = n,
      f_offset = (if flag AND O_APPEND \<noteq> 0 then v_size v else 0), f_count = 1\<rparr>"
    have x: "f_count x = 1" by (simp add: x_def)
    have k': "k' = set_cur (\<lambda>t. t\<lparr>t_close_on_exec := clear_cloexec ?fd (t_close_on_exec t),
        t_files := (t_files t)[?fd := Some ?f]\<rparr>) (set_file ?f x ?k2)"
      using o False k1 Inr v by (simp add: sys_open_def Let_def x_def)
    have ok: "tables_ok k1" "counts_ok k1" "tables_ok k" using inv1 inv by (simp_all add: files_inv_def)
    have len: "length (t_files (cur k)) = NR_OPEN" using ok(3) cur_in[OF ok(3)] by (simp add: tables_ok_def)
    have cu: "cur ?k2 = cur k" using fr by (simp add: cur_def)
    have fn: "fstore k1 ?f = None" using counts_ok_Some[OF ok(2), of ?f] by (cases "fstore k1 ?f") auto
    then have r0: "refs (tasks k1) ?f = 0" using counts_ok_None[OF ok(2)] by blast
    have e: "t_files (cur ?k2) ! ?fd = None" using free_fd_None[of "t_files (cur k)"] False len cu by simp
    have t2: "tables_ok ?k2" using ok(1) by (simp add: tables_ok_def)
    have "files_inv (set_file ?f x (set_cur (\<lambda>t. t\<lparr>t_close_on_exec := clear_cloexec ?fd (t_close_on_exec t),
        t_files := (t_files t)[?fd := Some ?f]\<rparr>) ?k2))"
      by (rule add_slot_inv[OF t2 _ e]) (use False x r0 counts_ok_Some[OF ok(2)] counts_ok_None[OF ok(2)] in \<open>auto simp: less_Suc_eq\<close>)
    moreover have "k' = set_file ?f x (set_cur (\<lambda>t. t\<lparr>t_close_on_exec := clear_cloexec ?fd (t_close_on_exec t),
        t_files := (t_files t)[?fd := Some ?f]\<rparr>) ?k2)"
      unfolding k' by (simp add: set_cur_def set_file_def cur_def)
    ultimately show ?thesis by simp
  qed
qed

section \<open>Descriptors that go wrong\<close>

text \<open>
  Duplicating an open descriptor onto itself closes it first and then increments the count through
  the null pointer that is left in the table. The call never succeeds.
\<close>

lemma sys_dup2_same_fd:
  assumes inv: "files_inv k" and fd: "fd < NR_OPEN" "t_files (cur k) ! fd = Some f"
  shows "sys_dup2 fop (int fd) (int fd) k = None"
proof -
  have "tables_ok k" using inv by (simp add: files_inv_def)
  then have len: "length (t_files (cur k)) = NR_OPEN" using cur_in by (auto simp: tables_ok_def)
  have "t_files (cur k1) ! fd = None" if "sys_close fop (int fd) k = Some (r, k1)" for r k1
    using sys_close_inv[OF inv that] fd(1) len by simp
  then show ?thesis using fd by (cases "sys_close fop (int fd) k") (auto simp: sys_dup2_def)
qed

definition demo_task :: "nat option list \<Rightarrow> task" where
  "demo_task fs = \<lparr>t_pid = 0, t_parent = 0, t_pgrp = 0, t_state = TASK_RUNNING, t_esp = 0, t_ebp = 0, t_eip = 0, t_directory = 0,
     t_kernel_stack = 0, t_cred = demo_cred, t_exit_code = 0, t_signals = 0, t_close_on_exec = 0, t_files = fs\<rparr>"

definition demo_file :: FILE where
  "demo_file = \<lparr>f_fd = 0, f_flags = open_flags O_WRONLY, f_node = 5, f_offset = 0, f_count = 1\<rparr>"

definition demo_fops :: "nat \<Rightarrow> unit file_operations" where
  "demo_fops n = \<lparr>op_open = None, op_read = Some (\<lambda>_ _ _ d. ((2, ''hi''), d)), op_write = None, op_readdir = None, op_close = None,
     op_ioctl = None, op_request = None\<rparr>"

text \<open>A kernel whose first task has one file open, at descriptor 0.\<close>

definition demo_kernel :: "unit kernel" where
  "demo_kernel = \<lparr>tasks = demo_task (Some 0 # replicate 31 None) # replicate 63 (demo_task (replicate 32 None)), current = 0,
     beyond = demo_task [], kvfs = demo_tree\<lparr>vnodes := (vnodes demo_tree)(5 \<mapsto> (demo_rd 0 3)\<lparr>v_count := 1, v_flags := FS_FILE\<rparr>)\<rparr>,
     root_vnode = 3, fstore = [0 \<mapsto> demo_file], next_file = 1, kdev = ()\<rparr>"

lemma refs_Cons [simp]: "refs (t # ts) f = count_list (t_files t) (Some f) + refs ts f"
  by (simp add: refs_def)

lemma refs_idle [simp]: "refs (replicate n (demo_task (replicate m None))) f = 0"
proof -
  have "count_list (replicate m (None :: nat option)) (Some f) = 0" by (simp add: count_list_0_iff)
  then show ?thesis by (induction n) (simp_all add: refs_def demo_task_def)
qed

lemma demo_files_inv: "files_inv demo_kernel"
proof -
  have c: "count_list (replicate 31 (None :: nat option)) (Some f) = 0" for f by (simp add: count_list_0_iff)
  have r: "refs (tasks demo_kernel) f = of_bool (f = 0)" for f
    using c[of f] by (simp add: demo_kernel_def demo_task_def[of "Some 0 # replicate 31 None"])
  have "tables_ok demo_kernel"
    by (auto simp: tables_ok_def demo_kernel_def NR_TASKS_def NR_OPEN_def demo_task_def)
  moreover have "counts_ok demo_kernel"
  proof (rule counts_okI)
    have s: "fstore demo_kernel = [0 \<mapsto> demo_file]" "next_file demo_kernel = 1" by (simp_all add: demo_kernel_def)
    show "refs (tasks demo_kernel) f = 0" if "fstore demo_kernel f = None" for f using that unfolding s r by (auto split: if_splits)
    show "f < next_file demo_kernel \<and> refs (tasks demo_kernel) f \<noteq> 0 \<and> unat (f_count x) = refs (tasks demo_kernel) f"
      if "fstore demo_kernel f = Some x" for f x
      using that unfolding s r by (auto simp: demo_file_def split: if_splits)
  qed
  ultimately show ?thesis by (simp add: files_inv_def)
qed

lemma sys_dup2_same_fd_witness: "sys_dup2 demo_fops (int 0) (int 0) demo_kernel = None"
  by (rule sys_dup2_same_fd[OF demo_files_inv, of 0 0]) (simp_all add: NR_OPEN_def cur_def demo_kernel_def demo_task_def)

text \<open>
  A descriptor opened for writing only can be read: the test of the mode negates before it masks, so
  the call reaches the filesystem and delivers its bytes.
\<close>

lemma sys_read_ignores_mode:
  assumes "0 \<le> fd" "fd < int NR_OPEN" "t_files (cur k) ! nat fd = Some f" "fstore k f = Some x" "f_flags x = open_flags O_WRONLY"
    and "vnodes (kvfs k) (f_node x) = Some v" "read_fs fop (f_node x) v (f_offset x) sz (kdev k) = (rb, d)"
  shows "\<exists>k'. sys_read fop fd sz k = Some (rb, k')"
proof -
  have "f_flags x \<noteq> 0" using assms(5) by (simp add: open_flags_def O_WRONLY_def O_RDWR_def FMODE_WRITE_def)
  then show ?thesis using assms by (cases rb) (simp add: sys_read_def fd_file_def)
qed

lemma sys_read_ignores_mode_witness: "\<exists>k'. sys_read demo_fops 0 2 demo_kernel = Some ((2, ''hi''), k')"
  by (rule sys_read_ignores_mode[where f = 0 and x = demo_file and v = "(demo_rd 0 3)\<lparr>v_count := 1, v_flags := FS_FILE\<rparr>"])
    (simp_all add: NR_OPEN_def cur_def demo_kernel_def demo_task_def demo_file_def read_fs_def demo_fops_def IS_DIR_def FS_FILE_def FS_DIRECTORY_def)

end
