(* ===== verification/Directory.thy ===== *)
theory Directory
  imports Files
begin

text \<open>
  The contract between path resolution and the filesystems that keep their directories as tables of
  entries (\<^verbatim>\<open>initrd_lookup\<close> and \<^verbatim>\<open>devfs_lookup\<close>): the search runs from the last entry to the first, and the
  inode of the entry found is fetched through the inode cache.
\<close>

section \<open>Searching a table of entries\<close>

locale directory =
  fixes entries :: "'h \<Rightarrow> nat"
    and matching :: "'h \<Rightarrow> nat \<Rightarrow> string \<Rightarrow> bool"
    and inode_at :: "'h \<Rightarrow> nat \<Rightarrow> uint"
    and search :: "'h \<Rightarrow> string \<Rightarrow> uint option"
  assumes search_None: "search h name = None \<longleftrightarrow> (\<forall>k < entries h. \<not> matching h k name)"
    and search_last: "k < entries h \<Longrightarrow> matching h k name \<Longrightarrow> (\<And>j. k < j \<Longrightarrow> j < entries h \<Longrightarrow> \<not> matching h j name) \<Longrightarrow>
      search h name = Some (inode_at h k)"
begin

lemma search_unique:
  "k < entries h \<Longrightarrow> matching h k name \<Longrightarrow> (\<And>j. j < entries h \<Longrightarrow> j \<noteq> k \<Longrightarrow> \<not> matching h j name) \<Longrightarrow>
     search h name = Some (inode_at h k)"
  by (rule search_last) auto

lemma search_newest: "matching h k name \<Longrightarrow> entries h = Suc k \<Longrightarrow> search h name = Some (inode_at h k)"
  by (rule search_last) auto

lemma search_SomeE:
  assumes "search h name = Some i"
  obtains k where "k < entries h" "matching h k name" "inode_at h k = i"
proof -
  let ?K = "{k. k < entries h \<and> matching h k name}"
  have "?K \<noteq> {}" using assms search_None[of h name] by auto
  then have "Max ?K \<in> ?K" and "\<And>j. j \<in> ?K \<Longrightarrow> j \<le> Max ?K" by (auto intro!: Max_in[of ?K, simplified])
  then have k: "Max ?K < entries h" "matching h (Max ?K) name" and "\<And>j. Max ?K < j \<Longrightarrow> j < entries h \<Longrightarrow> \<not> matching h j name"
    by fastforce+
  then have "search h name = Some (inode_at h (Max ?K))" by (intro search_last)
  with assms k that show thesis by simp
qed

end

section \<open>The lookup operation\<close>

text \<open>
  A lookup works on the filesystem's own description of the directory. \<open>rd\<close> is how the
  filesystem fills a new inode.
\<close>

locale fs_directory = directory entries matching inode_at search
  for entries :: "'h \<Rightarrow> nat" and matching and inode_at and search +
  fixes handle :: "vnode \<Rightarrow> 'h option"
    and rd :: "nat \<Rightarrow> uint \<Rightarrow> vnode"
    and lookup :: lookup_op
  assumes lookup_eq: "vnodes st dir = Some v \<Longrightarrow> handle v = Some h \<Longrightarrow>
    lookup dir name st = (case search h name of None \<Rightarrow> Some (None, st) | Some i \<Rightarrow> iget rd (Some (v_sb v)) i st)"
begin

text \<open>
  A lookup never fails for a directory in the cache: without a matching entry nothing changes, otherwise the
  caller gets the inode of a matching entry, in the same filesystem, and the cache stays consistent.
\<close>

lemma lookup_sound:
  assumes inv: "vfs_inv st" and v: "vnodes st dir = Some v" "handle v = Some h"
    and s: "supers st (v_sb v) = Some s" "s_op s" and room: "\<forall>n v. vnodes st n = Some v \<longrightarrow> v_count v \<noteq> 255"
  shows "\<exists>r st1. lookup dir name st = Some (r, st1) \<and> vfs_inv st1 \<and>
    (case r of
       None \<Rightarrow> st1 = st \<and> (\<forall>k < entries h. \<not> matching h k name)
     | Some n \<Rightarrow> \<exists>w k. vnodes st1 n = Some w \<and> v_sb w = v_sb v \<and> k < entries h \<and> matching h k name \<and> v_ino w = inode_at h k)"
proof (cases "search h name")
  case None
  then show ?thesis using inv v search_None[of h name] by (simp add: lookup_eq)
next
  case (Some i)
  then obtain k where k: "k < entries h" "matching h k name" "inode_at h k = i" by (rule search_SomeE)
  obtain n st1 w where "iget rd (Some (v_sb v)) i st = Some (Some n, st1)" "vfs_inv st1" "vnodes st1 n = Some w" "v_ino w = i" "v_sb w = v_sb v"
    using iget_ok[OF inv s room, of rd i] by blast
  then show ?thesis using k v Some by (intro exI[of _ "Some n"] exI[of _ st1]) (auto simp: lookup_eq)
qed

end

end
