(* ===== verification/Memory.thy ===== *)
theory Memory
  imports CString
begin

text \<open>
  Byte-addressed memory for the components that lay out C structures in it: little-endian 32-bit loads and
  stores, blocks of bytes, and address arithmetic modulo \<open>2 ^ 32\<close>. Addresses are natural numbers.
\<close>

section \<open>Address arithmetic\<close>

definition add32 :: "nat \<Rightarrow> nat \<Rightarrow> nat" where
  "add32 a b = (a + b) mod 2 ^ 32"

definition sub32 :: "nat \<Rightarrow> nat \<Rightarrow> nat" where
  "sub32 a b = (a + (2 ^ 32 - b mod 2 ^ 32)) mod 2 ^ 32"

section \<open>Memory\<close>

type_synonym memory = "nat \<Rightarrow> uchar"

definition load32 :: "memory \<Rightarrow> nat \<Rightarrow> nat" where
  "load32 m a = unat (m a) + 2 ^ 8 * unat (m (a + 1)) + 2 ^ 16 * unat (m (a + 2)) + 2 ^ 24 * unat (m (a + 3))"

definition load16 :: "memory \<Rightarrow> nat \<Rightarrow> nat" where
  "load16 m a = unat (m a) + 2 ^ 8 * unat (m (a + 1))"

definition store32 :: "memory \<Rightarrow> nat \<Rightarrow> nat \<Rightarrow> memory" where
  "store32 m a v = m(a := word_of_nat v, a + 1 := word_of_nat (v div 2 ^ 8),
     a + 2 := word_of_nat (v div 2 ^ 16), a + 3 := word_of_nat (v div 2 ^ 24))"

definition load_bytes :: "memory \<Rightarrow> nat \<Rightarrow> nat \<Rightarrow> uchar list" where
  "load_bytes m a n = map (\<lambda>i. m (a + i)) [0..<n]"

definition store_bytes :: "memory \<Rightarrow> nat \<Rightarrow> uchar list \<Rightarrow> memory" where
  "store_bytes m a bs = (\<lambda>x. if a \<le> x \<and> x < a + length bs then bs ! (x - a) else m x)"

text \<open>The characters from an address up to a terminator, at most \<open>n\<close> of them.\<close>

definition load_string :: "memory \<Rightarrow> nat \<Rightarrow> nat \<Rightarrow> string" where
  "load_string m a n = takeWhile (\<lambda>c. c \<noteq> NUL) (map (\<lambda>b. char_of (unat b)) (load_bytes m a n))"

definition bytes_of :: "string \<Rightarrow> uchar list" where
  "bytes_of s = map (\<lambda>c. word_of_nat (of_char c)) s"

section \<open>Loads and stores\<close>

lemma add32_id [simp]: "a + b < 2 ^ 32 \<Longrightarrow> add32 a b = a + b"
  by (simp add: add32_def)

lemma sub32_id [simp]:
  assumes "b \<le> a" "a < 2 ^ 32" shows "sub32 a b = a - b"
proof -
  have b: "b mod 2 ^ 32 = b" using assms by simp
  have e: "a + (2 ^ 32 - b) = 2 ^ 32 + (a - b)" using assms by simp
  show ?thesis unfolding sub32_def b e mod_add_self1 by (rule mod_less) (use assms in linarith)
qed

lemma mod_bytes:
  "(v :: nat) mod 2 ^ 8 + 2 ^ 8 * (v div 2 ^ 8 mod 2 ^ 8) + 2 ^ 16 * (v div 2 ^ 16 mod 2 ^ 8) + 2 ^ 24 * (v div 2 ^ 24 mod 2 ^ 8) = v mod 2 ^ 32"
proof -
  have "v mod 2 ^ 32 = 2 ^ 24 * (v div 2 ^ 24 mod 2 ^ 8) + v mod 2 ^ 24" using mod_mult2_eq[of v "2 ^ 24" "2 ^ 8"] by simp
  moreover have "v mod 2 ^ 24 = 2 ^ 16 * (v div 2 ^ 16 mod 2 ^ 8) + v mod 2 ^ 16" using mod_mult2_eq[of v "2 ^ 16" "2 ^ 8"] by simp
  moreover have "v mod 2 ^ 16 = 2 ^ 8 * (v div 2 ^ 8 mod 2 ^ 8) + v mod 2 ^ 8" using mod_mult2_eq[of v "2 ^ 8" "2 ^ 8"] by simp
  ultimately show ?thesis by simp
qed

lemma unat_byte: "unat (word_of_nat v :: uchar) = v mod 2 ^ 8"
  by (simp add: unsigned_of_nat take_bit_eq_mod)

lemma load_store_same [simp]: "load32 (store32 m a v) a = v mod 2 ^ 32"
  using mod_bytes[of v] by (simp add: load32_def store32_def unat_byte)

lemma load_store_other: "a + 4 \<le> b \<or> b + 4 \<le> a \<Longrightarrow> load32 (store32 m b v) a = load32 m a"
  by (auto simp: load32_def store32_def)

text \<open>Memory that is the same outside an interval.\<close>

definition same_outside :: "nat \<Rightarrow> nat \<Rightarrow> memory \<Rightarrow> memory \<Rightarrow> bool" where
  "same_outside lo hi m m' \<longleftrightarrow> (\<forall>x. x < lo \<or> hi \<le> x \<longrightarrow> m' x = m x)"

lemma same_outside_refl [simp]: "same_outside lo hi m m"
  by (simp add: same_outside_def)

lemma same_outside_store:
  "same_outside lo hi m m' \<Longrightarrow> lo \<le> a \<Longrightarrow> a + 4 \<le> hi \<Longrightarrow> same_outside lo hi m (store32 m' a v)"
  by (auto simp: same_outside_def store32_def)

lemma same_outside_load:
  "same_outside lo hi m m' \<Longrightarrow> a + 4 \<le> lo \<or> hi \<le> a \<Longrightarrow> load32 m' a = load32 m a"
  by (auto simp: same_outside_def load32_def)

lemma load32_less: "load32 m a < 2 ^ 32"
proof -
  have u: "unat w < 256" for w :: uchar using unsigned_less[of w] by simp
  show ?thesis using u[of "m a"] u[of "m (a + 1)"] u[of "m (a + 2)"] u[of "m (a + 3)"] by (simp add: load32_def)
qed

lemma same_outside_trans:
  "same_outside a b m m' \<Longrightarrow> same_outside c d m' m'' \<Longrightarrow> lo \<le> a \<Longrightarrow> lo \<le> c \<Longrightarrow> b \<le> hi \<Longrightarrow> d \<le> hi \<Longrightarrow>
     same_outside lo hi m m''"
  by (auto simp: same_outside_def)

lemma length_load_bytes [simp]: "length (load_bytes m a n) = n"
  by (simp add: load_bytes_def)

lemma load_store_bytes [simp]: "load_bytes (store_bytes m a bs) a (length bs) = bs"
  by (rule nth_equalityI) (simp_all add: load_bytes_def store_bytes_def)

lemma same_outside_store_bytes:
  "same_outside lo hi m m' \<Longrightarrow> lo \<le> a \<Longrightarrow> a + length bs \<le> hi \<Longrightarrow> same_outside lo hi m (store_bytes m' a bs)"
  by (auto simp: same_outside_def store_bytes_def)

lemma same_outside_load_bytes:
  "same_outside lo hi m m' \<Longrightarrow> a + n \<le> lo \<or> hi \<le> a \<Longrightarrow> load_bytes m' a n = load_bytes m a n"
  by (auto simp: same_outside_def load_bytes_def)

lemma length_bytes_of [simp]: "length (bytes_of s) = length s"
  by (simp add: bytes_of_def)

lemma char_byte [simp]: "char_of (unat (word_of_nat (of_char c) :: uchar)) = c"
proof -
  have "(of_char c :: nat) < 2 ^ 8" by simp
  then have "unat (word_of_nat (of_char c) :: uchar) = of_char c" by (simp only: unat_byte mod_less)
  then show ?thesis by simp
qed

lemma map_char_bytes_of [simp]: "map (\<lambda>b. char_of (unat b)) (bytes_of s) = s"
  by (simp add: bytes_of_def comp_def)

end
