(* ===== verification/Initrdfs.thy ===== *)
theory Initrdfs
  imports Directory Memory
begin

text \<open>
  The initial ramdisk filesystem: \<^verbatim>\<open>src/fs/initrdfs/inode.c\<close>, \<^verbatim>\<open>src/fs/initrdfs/super.c\<close> and the
  structures of \<^verbatim>\<open>src/include/fs/initrdfs.h\<close>. The image lies in memory at the address \<open>loc\<close>: a header of
  12 bytes, the table of inodes of 28 bytes each (the flag byte is followed by three bytes of padding), and
  the contents. A directory's contents are entries of 68 bytes: an inode number and a name of 64 bytes.
\<close>

definition INITRD_MAGIC :: nat where "INITRD_MAGIC = 0x54494E49"
definition INITRD_FILENAME_LEN :: nat where "INITRD_FILENAME_LEN = 64"
definition header_size :: nat where "header_size = 12"
definition inode_size :: nat where "inode_size = 28"
definition entry_size :: nat where "entry_size = 4 + INITRD_FILENAME_LEN"

record initrd_inode =
  i_inode :: nat
  i_offset :: nat
  i_mode :: nat
  i_gid :: nat
  i_uid :: nat
  i_flags :: uchar
  i_size :: nat

definition get_inode :: "memory \<Rightarrow> nat \<Rightarrow> nat \<Rightarrow> initrd_inode" where
  "get_inode m loc k =
    (let p = loc + header_size + inode_size * k in
     \<lparr>i_inode = load32 m p, i_offset = load32 m (p + 4), i_mode = load32 m (p + 8), i_gid = load32 m (p + 12),
      i_uid = load32 m (p + 16), i_flags = m (p + 20), i_size = load32 m (p + 24)\<rparr>)"

section \<open>File operations\<close>

text \<open>The sum of the offset and the size wraps.\<close>

definition initrd_read :: "memory \<Rightarrow> nat \<Rightarrow> initrd_inode \<Rightarrow> nat \<Rightarrow> nat \<Rightarrow> nat \<times> uchar list" where
  "initrd_read m loc i offset sz =
    (if offset > i_size i then (0, [])
     else let n = (if add32 offset sz > i_size i then i_size i - offset else sz)
          in (n, load_bytes m (loc + i_offset i + offset) n))"

definition initrd_write :: int where "initrd_write = err EINVAL"

definition entry_ino :: "memory \<Rightarrow> nat \<Rightarrow> initrd_inode \<Rightarrow> nat \<Rightarrow> nat" where
  "entry_ino m loc i k = load32 m (loc + i_offset i + entry_size * k)"

definition entry_name :: "memory \<Rightarrow> nat \<Rightarrow> initrd_inode \<Rightarrow> nat \<Rightarrow> nat \<Rightarrow> string" where
  "entry_name m loc i k n = load_string m (loc + i_offset i + entry_size * k + 4) n"

record dirent =
  d_ino :: nat
  d_name :: string
  d_namlen :: nat
  d_type :: uchar

text \<open>A name without a terminator in its 64 bytes makes \<^verbatim>\<open>strncpy\<close> run past the buffer: \<open>None\<close> on the outside.\<close>

definition initrd_readdir :: "memory \<Rightarrow> nat \<Rightarrow> initrd_inode \<Rightarrow> nat \<Rightarrow> (errno + dirent) option" where
  "initrd_readdir m loc i index =
    (if index \<ge> i_size i div entry_size then Some (Inl EINVAL)
     else let name = entry_name m loc i index (INITRD_FILENAME_LEN + 1) in
       if length name > INITRD_FILENAME_LEN then None
       else let nm = take (INITRD_FILENAME_LEN - 1) name in
         Some (Inr \<lparr>d_ino = entry_ino m loc i index, d_name = nm, d_namlen = length nm,
           d_type = i_flags (get_inode m loc (entry_ino m loc i index))\<rparr>))"

text \<open>
  The search runs from the last entry to the first. Comparing a name with an entry reads at most one byte
  more of the entry than the name has.
\<close>

fun find_entry :: "memory \<Rightarrow> nat \<Rightarrow> initrd_inode \<Rightarrow> string \<Rightarrow> nat \<Rightarrow> nat option" where
  "find_entry m loc i name 0 = None"
| "find_entry m loc i name (Suc k) =
     (if namei_match name (entry_name m loc i k (Suc (length name))) then Some (entry_ino m loc i k) else find_entry m loc i name k)"

section \<open>Super block and inodes\<close>

text \<open>An inode number above the number of inodes leaves the fields at zero.\<close>

definition initrd_read_inode :: "memory \<Rightarrow> nat \<Rightarrow> nat \<Rightarrow> uint \<Rightarrow> vnode" where
  "initrd_read_inode m loc sb ino =
    (let i = get_inode m loc (unat ino); ok = \<not> unat ino > load32 m (loc + 4) in
     \<lparr>v_ino = ino, v_count = 1, v_uid = (if ok then word_of_nat (i_uid i) else 0), v_gid = (if ok then word_of_nat (i_gid i) else 0),
      v_mode = (if ok then word_of_nat (i_mode i) else 0), v_flags = (if ok then ucast (i_flags i) else 0),
      v_size = (if ok then word_of_nat (i_size i) else 0), v_sb = sb, v_lookup = ok, v_u = (if ok then i_inode i else 0), v_mount = None, v_cover = None\<rparr>)"

text \<open>The inode structure a directory or file works with is the one its own table entry names.\<close>

definition initrdfs_i :: "memory \<Rightarrow> nat \<Rightarrow> uint \<Rightarrow> initrd_inode" where
  "initrdfs_i m loc ino = get_inode m loc (i_inode (get_inode m loc (unat ino)))"

definition initrd_lookup :: "memory \<Rightarrow> nat \<Rightarrow> lookup_op" where
  "initrd_lookup m loc dir name st = do {
     v \<leftarrow> vnodes st dir;
     let i = initrdfs_i m loc (v_ino v);
     case find_entry m loc i name (i_size i div entry_size) of
       None \<Rightarrow> Some (None, st)
     | Some ino \<Rightarrow> iget (initrd_read_inode m loc) (Some (v_sb v)) (word_of_nat ino) st
   }"

definition read_initrd_sb :: "memory \<Rightarrow> nat \<Rightarrow> nat \<Rightarrow> vfs \<Rightarrow> (bool \<times> vfs) option" where
  "read_initrd_sb m loc sb st =
    (if load32 m loc \<noteq> INITRD_MAGIC then Some (False, st)
     else do {
       s \<leftarrow> supers st sb;
       (r, st1) \<leftarrow> iget (initrd_read_inode m loc) (Some sb) 0 (st\<lparr>supers := (supers st)(sb \<mapsto> s\<lparr>s_op := True\<rparr>)\<rparr>);
       s1 \<leftarrow> supers st1 sb;
       Some (True, st1\<lparr>supers := (supers st1)(sb \<mapsto> s1\<lparr>s_root := r\<rparr>)\<rparr>)
     })"

section \<open>Searching\<close>

lemma find_entry_None:
  "find_entry m loc i name K = None \<longleftrightarrow> (\<forall>k < K. \<not> namei_match name (entry_name m loc i k (Suc (length name))))"
  by (induction K) (auto simp: less_Suc_eq)

lemma find_entry_last:
  "k < K \<Longrightarrow> namei_match name (entry_name m loc i k (Suc (length name))) \<Longrightarrow>
     (\<And>j. k < j \<Longrightarrow> j < K \<Longrightarrow> \<not> namei_match name (entry_name m loc i j (Suc (length name)))) \<Longrightarrow>
     find_entry m loc i name K = Some (entry_ino m loc i k)"
proof (induction K)
  case (Suc K)
  then show ?case by (cases "k = K") auto
qed simp

interpretation initrd: fs_directory
  "\<lambda>i. i_size i div entry_size" "\<lambda>i k name. namei_match name (entry_name m loc i k (Suc (length name)))"
  "\<lambda>i k. word_of_nat (entry_ino m loc i k)" "\<lambda>i name. map_option word_of_nat (find_entry m loc i name (i_size i div entry_size))"
  "\<lambda>v. Some (initrdfs_i m loc (v_ino v))" "initrd_read_inode m loc" "initrd_lookup m loc"
  for m loc
  by unfold_locales
    (simp_all add: find_entry_None find_entry_last initrd_lookup_def Let_def option.case_distrib option.map_comp split: option.splits cong: option.case_cong)

section \<open>Reading\<close>

text \<open>
  reading inside the file returns exactly the bytes from the offset on, as many as asked for or as
  there are, when offset and size together stay below 4 GiB.
\<close>

theorem initrd_read_window:
  assumes "load_bytes m (loc + i_offset i) (i_size i) = contents" "offset + sz < 2 ^ 32"
  shows "initrd_read m loc i offset sz = (let w = take sz (drop offset contents) in (length w, w))"
proof -
  have l: "length contents = i_size i" using assms(1) by auto
  have b: "load_bytes m (loc + i_offset i + offset) n = take n (drop offset contents)" if "offset + n \<le> i_size i" for n
    by (rule nth_equalityI) (use that l in \<open>auto simp: assms(1)[symmetric] load_bytes_def add.assoc\<close>)
  consider (behind) "offset > i_size i" | (cut) "offset \<le> i_size i" "i_size i < offset + sz" | (whole) "offset + sz \<le> i_size i" by linarith
  then show ?thesis
  proof cases
    case cut
    then have "load_bytes m (loc + i_offset i + offset) (i_size i - offset) = take sz (drop offset contents)" using b[of "i_size i - offset"] l by simp
    then show ?thesis using cut l assms(2) by (simp add: initrd_read_def Let_def)
  next
    case whole
    then show ?thesis using b[of sz] l assms(2) by (simp add: initrd_read_def Let_def)
  qed (use l in \<open>simp add: initrd_read_def Let_def\<close>)
qed

theorem initrd_read_window_witness:
  "initrd_read (\<lambda>a. word_of_nat a) 0 \<lparr>i_inode = 0, i_offset = 5, i_mode = 0, i_gid = 0, i_uid = 0, i_flags = 1, i_size = 4\<rparr> 1 9 = (3, [6, 7, 8])"
proof -
  have l: "load_bytes (\<lambda>a. word_of_nat a) 5 4 = [5, 6, 7, 8]" by (simp add: load_bytes_def upt_rec)
  show ?thesis
    using initrd_read_window[of "\<lambda>a. word_of_nat a" 0 "\<lparr>i_inode = 0, i_offset = 5, i_mode = 0, i_gid = 0, i_uid = 0, i_flags = 1, i_size = 4\<rparr>" "[5, 6, 7, 8]" 1 9] l
    by (simp add: Let_def)
qed

text \<open>A size so large that the sum wraps is not cut to the file.\<close>

lemma initrd_read_wraps:
  assumes "offset \<le> i_size i" "offset + sz = 2 ^ 32" shows "fst (initrd_read m loc i offset sz) = sz"
  using assms by (simp add: initrd_read_def add32_def Let_def)

end
