(* ===== verification/Mkinitrd.thy ===== *)
theory Mkinitrd
  imports Initrdfs
begin

text \<open>
  The host tool that builds the initial ramdisk, \<^verbatim>\<open>tools/mkinitrd/main.c\<close>, and the agreement of its image
  with what the kernel's filesystem reads. The directory tree that the tool reads through \<^verbatim>\<open>readdir\<close> and
  \<^verbatim>\<open>stat\<close> is a datatype; an entry list is in the order of \<^verbatim>\<open>readdir\<close>, without \<^verbatim>\<open>.\<close> and \<^verbatim>\<open>..\<close>.
  The buffer \<^verbatim>\<open>filebuf\<close> is a memory with base address 0 and the length \<open>filelen\<close>; bytes that
  \<^verbatim>\<open>realloc\<close> adds are whatever the memory holds. \<open>None\<close> is a write outside the buffer or outside one of
  the two path buffers of 255 bytes.
\<close>

record stat =
  st_mode :: nat
  st_gid :: nat
  st_uid :: nat

datatype fs_node = FileNode stat "uchar list" | DirNode stat "(string \<times> fs_node) list"

record mk =
  mk_mem :: memory
  filelen :: nat
  tmp_inode :: nat
  hentries :: nat

definition HARDLINKS :: nat where "HARDLINKS = 2"

section \<open>The tool\<close>

text \<open>\<^verbatim>\<open>count_of_inodes\<close> with the recursion on; \<open>n\<close> is the length of the path so far.\<close>

fun count_of_inodes :: "nat \<Rightarrow> (string \<times> fs_node) list \<Rightarrow> nat option" where
  "count_of_inodes n [] = Some 0"
| "count_of_inodes n ((name, FileNode st c) # es) = map_option Suc (count_of_inodes n es)"
| "count_of_inodes n ((name, DirNode st ds) # es) =
     (if n + 1 + length name \<ge> 255 then None
      else do {
        tmp \<leftarrow> count_of_inodes (n + 1 + length name) ds;
        res \<leftarrow> count_of_inodes n es;
        Some (Suc (tmp + res))
      })"

definition expand_initrd :: "nat \<Rightarrow> mk \<Rightarrow> mk" where
  "expand_initrd diff s = s\<lparr>filelen := add32 (filelen s) diff\<rparr>"

definition createinode :: "stat \<Rightarrow> uchar \<Rightarrow> nat \<Rightarrow> mk \<Rightarrow> initrd_inode \<times> mk" where
  "createinode st dt sz s =
    (\<lparr>i_inode = tmp_inode s, i_offset = filelen s, i_mode = st_mode st mod 2 ^ 32, i_gid = st_gid st mod 2 ^ 32,
      i_uid = st_uid st mod 2 ^ 32, i_flags = dt, i_size = sz mod 2 ^ 32\<rparr>, s\<lparr>tmp_inode := add32 (tmp_inode s) 1\<rparr>)"

definition put_inode :: "nat \<Rightarrow> initrd_inode \<Rightarrow> memory \<Rightarrow> memory" where
  "put_inode k i m =
    (let p = header_size + inode_size * k;
         m1 = store32 (store32 (store32 (store32 (store32 m p (i_inode i)) (p + 4) (i_offset i)) (p + 8) (i_mode i)) (p + 12) (i_gid i))
                (p + 16) (i_uid i)
     in store32 (m1(p + 20 := i_flags i)) (p + 24) (i_size i))"

text \<open>\<^verbatim>\<open>inodes[inode.inode] = inode\<close>\<close>

definition set_inode :: "initrd_inode \<Rightarrow> mk \<Rightarrow> mk option" where
  "set_inode i s =
    (if header_size + inode_size * Suc (i_inode i) > filelen s then None else Some (s\<lparr>mk_mem := put_inode (i_inode i) i (mk_mem s)\<rparr>))"

definition put_string :: "nat \<Rightarrow> string \<Rightarrow> mk \<Rightarrow> mk option" where
  "put_string a str s =
    (if a + length str + 1 > filelen s then None else Some (s\<lparr>mk_mem := store_bytes (mk_mem s) a (bytes_of str @ [0])\<rparr>))"

definition put_word :: "nat \<Rightarrow> nat \<Rightarrow> mk \<Rightarrow> mk option" where
  "put_word a v s = (if a + 4 > filelen s then None else Some (s\<lparr>mk_mem := store32 (mk_mem s) a v\<rparr>))"

definition clear_name :: "nat \<Rightarrow> mk \<Rightarrow> mk option" where
  "clear_name a s =
    (if a + INITRD_FILENAME_LEN > filelen s then None
     else Some (s\<lparr>mk_mem := store_bytes (mk_mem s) a (replicate INITRD_FILENAME_LEN 0)\<rparr>))"

text \<open>\<^verbatim>\<open>savefile\<close> with \<^verbatim>\<open>savedir\<close>; the loop of \<^verbatim>\<open>savedir\<close> over the entries is \<open>save_entries\<close>.\<close>

fun savefile :: "fs_node \<Rightarrow> nat \<Rightarrow> nat option \<Rightarrow> mk \<Rightarrow> (nat \<times> mk) option"
  and save_entries :: "(string \<times> fs_node) list \<Rightarrow> nat \<Rightarrow> nat \<Rightarrow> nat \<Rightarrow> nat \<Rightarrow> mk \<Rightarrow> mk option" where
  "savefile (FileNode st c) n parent s = do {
     let (i, s1) = createinode st 1 (length c) s;
     let s2 = expand_initrd (i_size i) (s1\<lparr>hentries := Suc (hentries s1)\<rparr>);
     s3 \<leftarrow> set_inode i (s2\<lparr>mk_mem := store_bytes (mk_mem s2) (i_offset i) (take (i_size i) c)\<rparr>);
     Some (i_inode i, s3)
   }"
| "savefile (DirNode st es) n parent s = do {
     let (i, s1) = createinode st 2 (entry_size * (length es + HARDLINKS)) (s\<lparr>hentries := Suc (hentries s)\<rparr>);
     let s2 = expand_initrd (i_size i) s1;
     s3 \<leftarrow> put_word (i_offset i) (i_inode i) s2;
     s4 \<leftarrow> put_string (i_offset i + 4) ''.'' s3;
     s5 \<leftarrow> put_word (i_offset i + entry_size) (case parent of None \<Rightarrow> i_inode i | Some p \<Rightarrow> p) s4;
     s6 \<leftarrow> put_string (i_offset i + entry_size + 4) ''..'' s5;
     s7 \<leftarrow> save_entries es n (i_inode i) (i_offset i) HARDLINKS (s6\<lparr>hentries := hentries s6 + 2\<rparr>);
     s8 \<leftarrow> set_inode i s7;
     Some (i_inode i, s8)
   }"
| "save_entries [] n ino eo k s = Some s"
| "save_entries ((name, t) # es) n ino eo k s = do {
     s1 \<leftarrow> clear_name (eo + entry_size * k + 4) s;
     s2 \<leftarrow> put_string (eo + entry_size * k + 4) name s1;
     (tmp, s3) \<leftarrow> (if n + 1 + length name \<ge> 255 then None else savefile t (n + 1 + length name) (Some ino) s2);
     s4 \<leftarrow> put_word (eo + entry_size * k) tmp s3;
     save_entries es n ino eo (Suc k) s4
   }"

text \<open>\<^verbatim>\<open>main\<close>, for a directory with the given entries; \<open>n\<close> is the length of its path. The image is written out.\<close>

definition mkinitrd :: "nat \<Rightarrow> stat \<Rightarrow> (string \<times> fs_node) list \<Rightarrow> memory \<Rightarrow> (memory \<times> nat) option" where
  "mkinitrd n st es junk = do {
     cnt \<leftarrow> (if n \<ge> 256 then None else count_of_inodes n es);
     let inodecount = Suc cnt;
     let s = expand_initrd (header_size + inodecount * inode_size) \<lparr>mk_mem = junk, filelen = 0, tmp_inode = 0, hentries = 0\<rparr>;
     let s1 = s\<lparr>mk_mem := store_bytes (mk_mem s) header_size (replicate (inodecount * inode_size) 0)\<rparr>;
     (r, s2) \<leftarrow> savefile (DirNode st es) n None s1;
     Some (store32 (store32 (store32 (mk_mem s2) 0 INITRD_MAGIC) 4 inodecount) 8 (hentries s2), filelen s2)
   }"

section \<open>The layout of an image\<close>

lemmas layout = header_size_def inode_size_def entry_size_def INITRD_FILENAME_LEN_def

text \<open>The number of inodes and of content bytes of a tree.\<close>

fun nodes :: "fs_node \<Rightarrow> nat" and nodess :: "(string \<times> fs_node) list \<Rightarrow> nat" where
  "nodes (FileNode st c) = 1"
| "nodes (DirNode st es) = Suc (nodess es)"
| "nodess [] = 0"
| "nodess ((name, t) # es) = nodes t + nodess es"

fun sizeof :: "fs_node \<Rightarrow> nat" and sizeofs :: "(string \<times> fs_node) list \<Rightarrow> nat" where
  "sizeof (FileNode st c) = length c"
| "sizeof (DirNode st es) = entry_size * (length es + 2) + sizeofs es"
| "sizeofs [] = 0"
| "sizeofs ((name, t) # es) = sizeof t + sizeofs es"

text \<open>Names fit into an entry and paths into the buffers of the tool.\<close>

fun fits_paths :: "nat \<Rightarrow> fs_node \<Rightarrow> bool" and fits_pathss :: "nat \<Rightarrow> (string \<times> fs_node) list \<Rightarrow> bool" where
  "fits_paths n (FileNode st c) = True"
| "fits_paths n (DirNode st es) = fits_pathss n es"
| "fits_pathss n [] = True"
| "fits_pathss n ((name, t) # es) =
     (length name < INITRD_FILENAME_LEN \<and> NUL \<notin> set name \<and> n + 1 + length name < 255 \<and> fits_paths (n + 1 + length name) t \<and> fits_pathss n es)"

definition inode_of :: "stat \<Rightarrow> nat \<Rightarrow> nat \<Rightarrow> uchar \<Rightarrow> nat \<Rightarrow> initrd_inode" where
  "inode_of st ino off fl sz = \<lparr>i_inode = ino, i_offset = off, i_mode = st_mode st mod 2 ^ 32, i_gid = st_gid st mod 2 ^ 32,
     i_uid = st_uid st mod 2 ^ 32, i_flags = fl, i_size = sz\<rparr>"

definition entry_at :: "memory \<Rightarrow> nat \<Rightarrow> nat \<Rightarrow> string \<Rightarrow> nat \<Rightarrow> bool" where
  "entry_at m loc a name ino \<longleftrightarrow> load32 m (loc + a) = ino \<and> load_bytes m (loc + a + 4) (Suc (length name)) = bytes_of name @ [0]"

text \<open>The image at \<open>loc\<close> holds the tree with inode number \<open>ino\<close>, its contents at offset \<open>off\<close>.\<close>

fun rep :: "memory \<Rightarrow> nat \<Rightarrow> nat \<Rightarrow> nat \<Rightarrow> nat option \<Rightarrow> fs_node \<Rightarrow> bool"
  and reps :: "memory \<Rightarrow> nat \<Rightarrow> nat \<Rightarrow> nat \<Rightarrow> nat \<Rightarrow> nat \<Rightarrow> nat \<Rightarrow> (string \<times> fs_node) list \<Rightarrow> bool" where
  "rep m loc ino off parent (FileNode st c) =
     (get_inode m loc ino = inode_of st ino off 1 (length c) \<and> load_bytes m (loc + off) (length c) = c)"
| "rep m loc ino off parent (DirNode st es) =
     (get_inode m loc ino = inode_of st ino off 2 (entry_size * (length es + 2)) \<and>
      entry_at m loc off ''.'' ino \<and> entry_at m loc (off + entry_size) ''..'' (case parent of None \<Rightarrow> ino | Some p \<Rightarrow> p) \<and>
      reps m loc ino off 2 (Suc ino) (off + entry_size * (length es + 2)) es)"
| "reps m loc par eo k ino off [] = True"
| "reps m loc par eo k ino off ((name, t) # es) =
     (entry_at m loc (eo + entry_size * k) name ino \<and> rep m loc ino off (Some par) t \<and>
      reps m loc par eo (Suc k) (ino + nodes t) (off + sizeof t) es)"

section \<open>What a part of the image depends on\<close>

definition table :: "nat \<Rightarrow> nat \<Rightarrow> nat set" where
  "table a b = {header_size + inode_size * a ..< header_size + inode_size * b}"

definition agree :: "memory \<Rightarrow> nat \<Rightarrow> memory \<Rightarrow> nat \<Rightarrow> nat set \<Rightarrow> bool" where
  "agree m l m' l' S \<longleftrightarrow> (\<forall>x \<in> S. m' (l' + x) = m (l + x))"

lemma agree_subset: "agree m l m' l' S \<Longrightarrow> T \<subseteq> S \<Longrightarrow> agree m l m' l' T"
  by (auto simp: agree_def)

lemma agree_load32: "agree m l m' l' {a..<a + 4} \<Longrightarrow> load32 m' (l' + a) = load32 m (l + a)"
proof -
  assume "agree m l m' l' {a..<a + 4}"
  then have "m' (l' + (a + i)) = m (l + (a + i))" if "i < 4" for i using that by (auto simp: agree_def)
  from this[of 0] this[of 1] this[of 2] this[of 3] show ?thesis by (simp add: load32_def add.assoc)
qed

lemma agree_bytes: "agree m l m' l' {a..<a + n} \<Longrightarrow> load_bytes m' (l' + a) n = load_bytes m (l + a) n"
  by (auto simp: agree_def load_bytes_def add.assoc)

lemma agree_get_inode:
  assumes "agree m l m' l' (table k (Suc k))"
  shows "get_inode m' l' k = get_inode m l k"
proof -
  let ?p = "header_size + inode_size * k"
  have w: "load32 m' (l' + (?p + i)) = load32 m (l + (?p + i))" if "i + 4 \<le> 28" for i
    by (rule agree_load32[OF agree_subset[OF assms]]) (use that in \<open>auto simp: table_def inode_size_def\<close>)
  have "m' (l' + (?p + 20)) = m (l + (?p + 20))" using assms by (auto simp: agree_def table_def inode_size_def)
  then show ?thesis using w[of 0] w[of 4] w[of 8] w[of 12] w[of 16] w[of 24] by (simp add: get_inode_def Let_def add.assoc)
qed

lemma agree_entry:
  assumes "agree m l m' l' {a..<a + 5 + length name}" shows "entry_at m' l' a name ino = entry_at m l a name ino"
proof -
  have "load32 m' (l' + a) = load32 m (l + a)" by (rule agree_load32[OF agree_subset[OF assms]]) auto
  moreover have "load_bytes m' (l' + (a + 4)) (Suc (length name)) = load_bytes m (l + (a + 4)) (Suc (length name))"
    by (rule agree_bytes[OF agree_subset[OF assms]]) auto
  ultimately show ?thesis by (simp add: entry_at_def add.assoc)
qed

lemma table_mono: "c \<le> a \<Longrightarrow> b \<le> d \<Longrightarrow> table a b \<subseteq> table c d"
  by (auto simp: table_def inode_size_def)

lemma rep_frame:
  "rep m l ino off par t \<Longrightarrow> fits_paths n t \<Longrightarrow> agree m l m' l' (table ino (ino + nodes t) \<union> {off..<off + sizeof t}) \<Longrightarrow> rep m' l' ino off par t"
  "reps m l p eo k ino off es \<Longrightarrow> fits_pathss n es \<Longrightarrow>
     agree m l m' l' (table ino (ino + nodess es) \<union> {eo + entry_size * k..<eo + entry_size * (k + length es)} \<union> {off..<off + sizeofs es}) \<Longrightarrow>
     reps m' l' p eo k ino off es"
proof (induction m l ino off par t and m l p eo k ino off es arbitrary: n and n rule: rep_reps.induct)
  case (1 m loc ino off parent st c)
  have "get_inode m' l' ino = get_inode m loc ino" by (rule agree_get_inode[OF agree_subset[OF 1(3)]]) simp
  moreover have "load_bytes m' (l' + off) (length c) = load_bytes m (loc + off) (length c)"
    by (rule agree_bytes[OF agree_subset[OF 1(3)]]) simp
  ultimately show ?case using 1(1) by simp
next
  case (2 m loc ino off parent st es)
  let ?S = "table ino (ino + nodes (DirNode st es)) \<union> {off..<off + sizeof (DirNode st es)}"
  have "get_inode m' l' ino = get_inode m loc ino"
    by (rule agree_get_inode[OF agree_subset[OF 2(4)]]) (use table_mono[of ino ino "Suc ino" "Suc (ino + nodess es)"] in auto)
  moreover have "entry_at m' l' off ''.'' j = entry_at m loc off ''.'' j" for j
    by (rule agree_entry[OF agree_subset[OF 2(4)]]) (auto simp: layout)
  moreover have "entry_at m' l' (off + entry_size) ''..'' j = entry_at m loc (off + entry_size) ''..'' j" for j
    by (rule agree_entry[OF agree_subset[OF 2(4)]]) (auto simp: layout)
  moreover have "reps m' l' ino off 2 (Suc ino) (off + entry_size * (length es + 2)) es"
  proof (rule 2(1))
    show "reps m loc ino off 2 (Suc ino) (off + entry_size * (length es + 2)) es" using 2(2) by simp
    show "fits_pathss n es" using 2(3) by simp
    have "table (Suc ino) (Suc ino + nodess es) \<subseteq> table ino (ino + nodes (DirNode st es))" by (rule table_mono) simp_all
    then show "agree m loc m' l' (table (Suc ino) (Suc ino + nodess es) \<union> {off + entry_size * 2..<off + entry_size * (2 + length es)} \<union>
        {off + entry_size * (length es + 2)..<off + entry_size * (length es + 2) + sizeofs es})"
      by (intro agree_subset[OF 2(4)]) (auto simp: algebra_simps)
  qed
  ultimately show ?case using 2(2) by simp
next
  case (4 m loc par eo k ino off name t es)
  have nm: "length name < 64" using 4(4) by (simp add: layout)
  have "entry_at m' l' (eo + entry_size * k) name ino = entry_at m loc (eo + entry_size * k) name ino"
    by (rule agree_entry[OF agree_subset[OF 4(5)]]) (use nm in \<open>auto simp: layout\<close>)
  moreover have "rep m' l' ino off (Some par) t"
  proof (rule 4(1))
    have "table ino (ino + nodes t) \<subseteq> table ino (ino + nodess ((name, t) # es))" by (rule table_mono) simp_all
    then show "agree m loc m' l' (table ino (ino + nodes t) \<union> {off..<off + sizeof t})" by (intro agree_subset[OF 4(5)]) auto
  qed (use 4(3,4) in auto)
  moreover have "reps m' l' par eo (Suc k) (ino + nodes t) (off + sizeof t) es"
  proof (rule 4(2))
    have "table (ino + nodes t) (ino + nodes t + nodess es) \<subseteq> table ino (ino + nodess ((name, t) # es))" by (rule table_mono) simp_all
    then show "agree m loc m' l' (table (ino + nodes t) (ino + nodes t + nodess es) \<union>
        {eo + entry_size * Suc k..<eo + entry_size * (Suc k + length es)} \<union> {off + sizeof t..<off + sizeof t + sizeofs es})"
      by (intro agree_subset[OF 4(5)]) (auto simp: algebra_simps)
  qed (use 4(3,4) in auto)
  ultimately show ?case using 4(3) by simp
qed simp_all

section \<open>The tool writes the layout\<close>

definition only :: "memory \<Rightarrow> memory \<Rightarrow> nat set \<Rightarrow> bool" where
  "only m m' S \<longleftrightarrow> (\<forall>x. x \<notin> S \<longrightarrow> m' x = m x)"

lemma only_trans: "only m m' S \<Longrightarrow> only m' m'' T \<Longrightarrow> S \<subseteq> U \<Longrightarrow> T \<subseteq> U \<Longrightarrow> only m m'' U"
  by (auto simp: only_def) (metis subsetD)

lemma only_mono: "only m m' S \<Longrightarrow> S \<subseteq> U \<Longrightarrow> only m m' U"
  by (auto simp: only_def)

lemma only_agree: "only m m' S \<Longrightarrow> S \<inter> T = {} \<Longrightarrow> agree m 0 m' 0 T"
  by (auto simp: only_def agree_def)

lemma only_put:
  "only m (store32 m a v) {a..<a + 4}" "only m (store_bytes m a bs) {a..<a + length bs}" "only m (put_inode k i m) (table k (Suc k))"
  by (auto simp: only_def store32_def store_bytes_def put_inode_def Let_def table_def layout)

lemma get_put_inode:
  assumes "i_inode i < 2 ^ 32" "i_offset i < 2 ^ 32" "i_mode i < 2 ^ 32" "i_gid i < 2 ^ 32" "i_uid i < 2 ^ 32" "i_size i < 2 ^ 32"
  shows "get_inode (put_inode k i m) 0 k = i"
proof -
  have u: "load32 (m(b := v)) a = load32 m a" if "b < a \<or> a + 4 \<le> b" for m :: memory and a b v
    using that by (auto simp: load32_def)
  have b: "store32 m a v x = m x" if "x < a" for m a v x using that by (simp add: store32_def)
  show ?thesis using assms by (cases i) (simp add: get_inode_def put_inode_def Let_def load_store_other u b)
qed

lemma entry_put:
  assumes "ino < 2 ^ 32"
  shows "entry_at (store32 (store_bytes m (a + 4) (bytes_of name @ [0])) a ino) 0 a name ino"
    "entry_at (store_bytes (store32 m a ino) (a + 4) (bytes_of name @ [0])) 0 a name ino"
proof -
  have l: "load_bytes (store_bytes m (a + 4) (bytes_of name @ [0])) (a + 4) (Suc (length name)) = bytes_of name @ [0]" for m
    using load_store_bytes[of m "a + 4" "bytes_of name @ [0]"] by simp
  have "load_bytes (store32 m' a ino) (a + 4) n = load_bytes m' (a + 4) n" for m' n
    by (auto simp: load_bytes_def store32_def)
  then show "entry_at (store32 (store_bytes m (a + 4) (bytes_of name @ [0])) a ino) 0 a name ino"
    using l assms by (simp add: entry_at_def)
  have "load32 (store_bytes m' (a + 4) bs) a = load32 m' a" for m' bs by (simp add: load32_def store_bytes_def)
  then show "entry_at (store_bytes (store32 m a ino) (a + 4) (bytes_of name @ [0])) 0 a name ino"
    using l assms by (simp add: entry_at_def)
qed

text \<open>The state in which a tree is written: its place is free, the table has room and nothing wraps.\<close>

definition room :: "nat \<Rightarrow> mk \<Rightarrow> nat \<Rightarrow> nat \<Rightarrow> nat \<Rightarrow> nat \<Rightarrow> bool" where
  "room N s ino off nn sz \<longleftrightarrow> tmp_inode s = ino \<and> filelen s = off \<and> ino + nn \<le> N \<and> header_size + inode_size * N \<le> off \<and> off + sz < 2 ^ 32"

lemma room_less: "room N s ino off nn sz \<Longrightarrow> ino + nn < 2 ^ 32 \<and> header_size + inode_size * (ino + nn) \<le> off"
  by (auto simp: room_def layout)

lemma savefile_file:
  assumes r: "room N s ino off 1 (length c)"
  shows "\<exists>s'. savefile (FileNode st c) n par s = Some (ino, s') \<and> room N s' (Suc ino) (off + length c) 0 0 \<and>
    rep (mk_mem s') 0 ino off par (FileNode st c) \<and> only (mk_mem s) (mk_mem s') (table ino (Suc ino) \<union> {off..<off + length c})"
proof -
  let ?i = "inode_of st ino off 1 (length c)" and ?m = "store_bytes (mk_mem s) off c"
  have b: "off + length c < 2 ^ 32" "length c < 2 ^ 32" "ino < 2 ^ 32" "off < 2 ^ 32" "add32 ino 1 = Suc ino"
    "header_size + inode_size * Suc ino \<le> off" "tmp_inode s = ino" "filelen s = off" using r room_less[OF r] by (auto simp: room_def)
  let ?s = "s\<lparr>mk_mem := put_inode ino ?i ?m, filelen := off + length c, tmp_inode := Suc ino, hentries := Suc (hentries s)\<rparr>"
  have "savefile (FileNode st c) n par s = Some (ino, ?s)"
    using b by (simp add: createinode_def expand_initrd_def set_inode_def inode_of_def Let_def)
  moreover have g: "get_inode (put_inode ino ?i ?m) 0 ino = ?i" by (rule get_put_inode) (use b in \<open>simp_all add: inode_of_def\<close>)
  moreover have "load_bytes (put_inode ino ?i ?m) (0 + off) (length c) = load_bytes ?m (0 + off) (length c)"
    by (rule agree_bytes[OF only_agree[OF only_put(3)]]) (use b in \<open>auto simp: table_def\<close>)
  moreover have "only (mk_mem s) (put_inode ino ?i ?m) (table ino (Suc ino) \<union> {off..<off + length c})"
    by (rule only_trans[OF only_put(2) only_put(3)]) auto
  moreover have "room N ?s (Suc ino) (off + length c) 0 0" using r by (simp add: room_def)
  ultimately show ?thesis by (intro exI[of _ ?s]) simp
qed

lemma disjoint_subset: "A \<inter> B = {} \<Longrightarrow> C \<subseteq> A \<Longrightarrow> C \<inter> B = {}" for A B C :: "'a set"
  by blast

lemma savefile_dir:
  assumes r: "room N s ino off (nodes (DirNode st es)) (sizeof (DirNode st es))" and par: "\<forall>p. par = Some p \<longrightarrow> p < 2 ^ 32"
    and fit: "fits_pathss n es"
    and IH: "\<And>s1. room N s1 (Suc ino) (off + entry_size * (length es + 2)) (nodess es) (sizeofs es) \<Longrightarrow>
      \<exists>s'. save_entries es n ino off 2 s1 = Some s' \<and> room N s' (Suc ino + nodess es) (off + entry_size * (length es + 2) + sizeofs es) 0 0 \<and>
        reps (mk_mem s') 0 ino off 2 (Suc ino) (off + entry_size * (length es + 2)) es \<and>
        only (mk_mem s1) (mk_mem s') (table (Suc ino) (Suc ino + nodess es) \<union> {off + entry_size * 2..<off + entry_size * (2 + length es)} \<union>
          {off + entry_size * (length es + 2)..<off + entry_size * (length es + 2) + sizeofs es})"
  shows "\<exists>s'. savefile (DirNode st es) n par s = Some (ino, s') \<and> room N s' (ino + nodes (DirNode st es)) (off + sizeof (DirNode st es)) 0 0 \<and>
    rep (mk_mem s') 0 ino off par (DirNode st es) \<and>
    only (mk_mem s) (mk_mem s') (table ino (ino + nodes (DirNode st es)) \<union> {off..<off + sizeof (DirNode st es)})"
proof -
  let ?sz = "entry_size * (length es + 2)" and ?p = "case par of None \<Rightarrow> ino | Some p \<Rightarrow> p"
  let ?i = "inode_of st ino off 2 ?sz"
  have b: "off + ?sz < 2 ^ 32" "?sz < 2 ^ 32" "ino < 2 ^ 32" "off < 2 ^ 32" "add32 ino 1 = Suc ino" "add32 off ?sz = off + ?sz"
    "header_size + inode_size * (ino + nodes (DirNode st es)) \<le> off" "tmp_inode s = ino" "filelen s = off" "?p < 2 ^ 32"
    using r room_less[OF r] par by (auto simp: room_def split: option.splits)
  let ?m1 = "store_bytes (store32 (mk_mem s) off ino) (off + 4) (bytes_of ''.'' @ [0])"
  let ?m2 = "store_bytes (store32 ?m1 (off + entry_size) ?p) (off + entry_size + 4) (bytes_of ''..'' @ [0])"
  let ?s1 = "s\<lparr>tmp_inode := Suc ino, filelen := off + ?sz, mk_mem := ?m2, hentries := Suc (hentries s) + 2\<rparr>"
  have "room N ?s1 (Suc ino) (off + ?sz) (nodess es) (sizeofs es)" using r by (simp add: room_def algebra_simps)
  then obtain s2 where s2: "save_entries es n ino off 2 ?s1 = Some s2" "room N s2 (Suc ino + nodess es) (off + ?sz + sizeofs es) 0 0"
      "reps (mk_mem s2) 0 ino off 2 (Suc ino) (off + ?sz) es"
      "only ?m2 (mk_mem s2) (table (Suc ino) (Suc ino + nodess es) \<union> {off + entry_size * 2..<off + entry_size * (2 + length es)} \<union>
          {off + ?sz..<off + ?sz + sizeofs es})"
    using IH[of ?s1] by auto
  let ?s = "s2\<lparr>mk_mem := put_inode ino ?i (mk_mem s2)\<rparr>"
  have fl: "filelen s2 = off + ?sz + sizeofs es" using s2(2) by (simp add: room_def)
  have "header_size + inode_size * Suc ino \<le> off" using b(7) by (simp add: layout)
  then have "set_inode ?i s2 = Some ?s" using fl by (simp add: set_inode_def inode_of_def)
  then have run: "savefile (DirNode st es) n par s = Some (ino, ?s)"
    using b s2(1) by (simp add: createinode_def expand_initrd_def put_word_def put_string_def HARDLINKS_def inode_of_def Let_def layout cong: option.case_cong)
  let ?below = "{off..<off + ?sz + sizeofs es}"
  have tb: "table ino (ino + nodes (DirNode st es)) \<inter> ?below = {}" using b(7) by (auto simp: table_def)
  have t1: "table ino (Suc ino) \<subseteq> table ino (ino + nodes (DirNode st es))" by (rule table_mono) simp_all
  have t2: "table (Suc ino) (Suc ino + nodess es) \<subseteq> table ino (ino + nodes (DirNode st es))" by (rule table_mono) simp_all
  have t3: "table ino (Suc ino) \<inter> table (Suc ino) k = {}" for k by (auto simp: table_def)
  have g: "get_inode (mk_mem ?s) 0 ino = ?i" using get_put_inode[of ?i ino "mk_mem s2"] b by (simp add: inode_of_def)
  have oi: "agree (mk_mem s2) 0 (mk_mem ?s) 0 (table (Suc ino) (Suc ino + nodess es) \<union> ?below)"
  proof (rule only_agree)
    show "only (mk_mem s2) (mk_mem ?s) (table ino (Suc ino))" by (simp add: only_put)
    show "table ino (Suc ino) \<inter> (table (Suc ino) (Suc ino + nodess es) \<union> ?below) = {}"
      by (simp only: Int_Un_distrib t3 disjoint_subset[OF tb t1] Un_empty)
  qed
  have reps: "reps (mk_mem ?s) 0 ino off 2 (Suc ino) (off + ?sz) es"
    by (rule rep_frame(2)[OF s2(3) fit agree_subset[OF oi]]) (auto simp: algebra_simps)
  have hd: "agree ?m2 0 (mk_mem ?s) 0 {off..<off + 2 * entry_size}"
  proof -
    have "agree ?m2 0 (mk_mem s2) 0 {off..<off + 2 * entry_size}"
      by (rule only_agree[OF s2(4)]) (use tb t2 in \<open>auto simp: algebra_simps\<close>)
    moreover have "agree (mk_mem s2) 0 (mk_mem ?s) 0 {off..<off + 2 * entry_size}"
      by (rule agree_subset[OF oi]) (auto simp: algebra_simps)
    ultimately show ?thesis by (simp add: agree_def)
  qed
  have e1: "entry_at ?m2 0 off ''.'' ino"
  proof -
    have "agree ?m1 0 ?m2 0 {off..<off + 5 + length ''.''}"
      by (auto simp: agree_def store_bytes_def store32_def layout)
    then show ?thesis using entry_put(2)[OF b(3)] agree_entry by blast
  qed
  have e2: "entry_at ?m2 0 (off + entry_size) ''..'' ?p" by (rule entry_put(2)[OF b(10)])
  have "entry_at (mk_mem ?s) 0 off ''.'' ino" using e1 agree_entry[OF agree_subset[OF hd], of off "''.''" ino] by (simp add: layout)
  moreover have "entry_at (mk_mem ?s) 0 (off + entry_size) ''..'' ?p"
    using e2 agree_entry[OF agree_subset[OF hd], of "off + entry_size" "''..''" ?p] by (simp add: layout)
  ultimately have "rep (mk_mem ?s) 0 ino off par (DirNode st es)" using g reps by simp
  moreover have "only (mk_mem s) (mk_mem ?s) (table ino (ino + nodes (DirNode st es)) \<union> ?below)"
  proof -
    have "only (mk_mem s) ?m2 {off..<off + 2 * entry_size}" by (auto simp: only_def store_bytes_def store32_def layout)
    then have "only (mk_mem s) (mk_mem s2) (table ino (ino + nodes (DirNode st es)) \<union> ?below)"
      by (rule only_trans[OF _ s2(4)]) (use t2 in \<open>auto simp: algebra_simps\<close>)
    moreover have "only (mk_mem s2) (mk_mem ?s) (table ino (Suc ino))" by (simp add: only_put)
    ultimately show ?thesis by (rule only_trans) (use t1 in auto)
  qed
  moreover have "room N ?s (ino + nodes (DirNode st es)) (off + sizeof (DirNode st es)) 0 0" using s2(2) by (simp add: room_def add.assoc)
  ultimately show ?thesis using run by (intro exI[of _ ?s]) (simp add: add.assoc)
qed

lemma table_below: "b \<le> N \<Longrightarrow> table a b \<subseteq> {..<header_size + inode_size * N}"
  by (auto simp: table_def inode_size_def)

lemma saves:
  "room N s ino off (nodes t) (sizeof t) \<Longrightarrow> \<forall>p. par = Some p \<longrightarrow> p < 2 ^ 32 \<Longrightarrow> fits_paths n t \<Longrightarrow>
    \<exists>s'. savefile t n par s = Some (ino, s') \<and> room N s' (ino + nodes t) (off + sizeof t) 0 0 \<and>
      rep (mk_mem s') 0 ino off par t \<and> only (mk_mem s) (mk_mem s') (table ino (ino + nodes t) \<union> {off..<off + sizeof t})"
  "room N s ino off (nodess es) (sizeofs es) \<Longrightarrow> header_size + inode_size * N \<le> eo \<Longrightarrow> eo + entry_size * (k + length es) \<le> off \<Longrightarrow>
    p < 2 ^ 32 \<Longrightarrow> fits_pathss n es \<Longrightarrow>
    \<exists>s'. save_entries es n p eo k s = Some s' \<and> room N s' (ino + nodess es) (off + sizeofs es) 0 0 \<and>
      reps (mk_mem s') 0 p eo k ino off es \<and>
      only (mk_mem s) (mk_mem s') (table ino (ino + nodess es) \<union> {eo + entry_size * k..<eo + entry_size * (k + length es)} \<union> {off..<off + sizeofs es})"
proof (induction t and es arbitrary: s ino off par n and s ino off eo k p n rule: nodes_nodess.induct)
  case (1 st c)
  then show ?case using savefile_file[of N s ino off c st n par] by simp
next
  case (2 st es)
  show ?case
  proof (rule savefile_dir[OF 2(2,3)])
    show "fits_pathss n es" using 2(4) by simp
    have *: "header_size + inode_size * N \<le> off" "ino < 2 ^ 32" using 2(2) room_less[OF 2(2)] by (simp_all add: room_def)
    fix s1 assume "room N s1 (Suc ino) (off + entry_size * (length es + 2)) (nodess es) (sizeofs es)"
    from 2(1)[OF this *(1) _ *(2), of 2 n]
    show "\<exists>s'. save_entries es n ino off 2 s1 = Some s' \<and> room N s' (Suc ino + nodess es) (off + entry_size * (length es + 2) + sizeofs es) 0 0 \<and>
        reps (mk_mem s') 0 ino off 2 (Suc ino) (off + entry_size * (length es + 2)) es \<and>
        only (mk_mem s1) (mk_mem s') (table (Suc ino) (Suc ino + nodess es) \<union> {off + entry_size * 2..<off + entry_size * (2 + length es)} \<union>
          {off + entry_size * (length es + 2)..<off + entry_size * (length es + 2) + sizeofs es})"
      using 2(4) by (simp add: add.commute)
  qed
next
  case 3
  then show ?case by (simp add: only_def room_def)
next
  case (4 name t es)
  let ?a = "eo + entry_size * k" and ?U = "table ino (ino + nodess ((name, t) # es)) \<union>
      {eo + entry_size * k..<eo + entry_size * (k + length ((name, t) # es))} \<union> {off..<off + sizeofs ((name, t) # es)}"
  let ?m1 = "store_bytes (store_bytes (mk_mem s) (?a + 4) (replicate INITRD_FILENAME_LEN 0)) (?a + 4) (bytes_of name @ [0])"
  let ?s1 = "s\<lparr>mk_mem := ?m1\<rparr>"
  have nm: "length name < 64" "n + 1 + length name < 255" "fits_paths (n + 1 + length name) t" "fits_pathss n es" using 4(7) by (simp_all add: layout)
  have fl: "filelen s = off" "eo + entry_size * Suc k \<le> off" "header_size + inode_size * N \<le> off" "ino + nodes t + nodess es \<le> N"
    using 4(3,5) by (simp_all add: room_def algebra_simps)
  have r1: "room N ?s1 ino off (nodes t) (sizeof t)" using 4(3) by (simp add: room_def)
  obtain s2 where s2: "savefile t (n + 1 + length name) (Some p) ?s1 = Some (ino, s2)" "room N s2 (ino + nodes t) (off + sizeof t) 0 0"
      "rep (mk_mem s2) 0 ino off (Some p) t" "only ?m1 (mk_mem s2) (table ino (ino + nodes t) \<union> {off..<off + sizeof t})"
    using 4(1)[OF r1 _ nm(3), of "Some p"] 4(6) by auto
  let ?s3 = "s2\<lparr>mk_mem := store32 (mk_mem s2) ?a ino\<rparr>"
  have fl2: "filelen s2 = off + sizeof t" using s2(2) by (simp add: room_def)
  have r3: "room N ?s3 (ino + nodes t) (off + sizeof t) (nodess es) (sizeofs es)" using 4(3) s2(2) by (simp add: room_def)
  have eo3: "eo + entry_size * (Suc k + length es) \<le> off + sizeof t" using 4(5) by simp
  obtain s4 where s4: "save_entries es n p eo (Suc k) ?s3 = Some s4" "room N s4 (ino + nodes t + nodess es) (off + sizeof t + sizeofs es) 0 0"
      "reps (mk_mem s4) 0 p eo (Suc k) (ino + nodes t) (off + sizeof t) es"
      "only (mk_mem ?s3) (mk_mem s4) (table (ino + nodes t) (ino + nodes t + nodess es) \<union>
         {eo + entry_size * Suc k..<eo + entry_size * (Suc k + length es)} \<union> {off + sizeof t..<off + sizeof t + sizeofs es})"
    using 4(2)[OF r3 4(4) eo3 4(6) nm(4)] by auto
  have run: "save_entries ((name, t) # es) n p eo k s = Some s4"
    using s2(1) s4(1) nm fl fl2 by (simp add: clear_name_def put_string_def put_word_def layout)
  have tab: "x < header_size + inode_size * N" if "x \<in> table a b" "b \<le> N" for x a b using table_below[OF that(2)] that(1) by auto
  have bounds: "header_size + inode_size * N \<le> ?a" "?a + entry_size \<le> off" using 4(4,5) by (simp_all add: algebra_simps)
  have i32: "ino < 2 ^ 32" using room_less[OF 4(3)] by simp
  have d2: "(table ino (ino + nodes t) \<union> {off..<off + sizeof t}) \<inter> {?a..<?a + entry_size} = {}"
    using tab[of _ ino "ino + nodes t"] fl(4) bounds by fastforce
  have d4: "(table (ino + nodes t) (ino + nodes t + nodess es) \<union> {eo + entry_size * Suc k..<eo + entry_size * (Suc k + length es)} \<union>
      {off + sizeof t..<off + sizeof t + sizeofs es}) \<inter> {?a..<?a + entry_size} = {}"
    using tab[of _ "ino + nodes t" "ino + nodes t + nodess es"] fl(4) bounds by fastforce
  have d5: "(table (ino + nodes t) (ino + nodes t + nodess es) \<union> {eo + entry_size * Suc k..<eo + entry_size * (Suc k + length es)} \<union>
      {off + sizeof t..<off + sizeof t + sizeofs es}) \<inter> (table ino (ino + nodes t) \<union> {off..<off + sizeof t}) = {}"
  proof -
    have "table (ino + nodes t) (ino + nodes t + nodess es) \<inter> table ino (ino + nodes t) = {}" by (auto simp: table_def)
    moreover have "table (ino + nodes t) (ino + nodes t + nodess es) \<inter> {off..<off + sizeof t} = {}"
      using tab[of _ "ino + nodes t" "ino + nodes t + nodess es"] fl(3,4) by fastforce
    moreover have "{eo + entry_size * Suc k..<eo + entry_size * (Suc k + length es)} \<inter> table ino (ino + nodes t) = {}"
      using tab[of _ ino "ino + nodes t"] fl(4) 4(4) by fastforce
    moreover have "{eo + entry_size * Suc k..<eo + entry_size * (Suc k + length es)} \<inter> {off..<off + sizeof t} = {}" using 4(5) by auto
    moreover have "{off + sizeof t..<off + sizeof t + sizeofs es} \<inter> table ino (ino + nodes t) = {}"
      using tab[of _ ino "ino + nodes t"] fl(3,4) by fastforce
    moreover have "{off + sizeof t..<off + sizeof t + sizeofs es} \<inter> {off..<off + sizeof t} = {}" by auto
    ultimately show ?thesis by (simp only: Int_Un_distrib Int_Un_distrib2 Un_empty)
  qed
  have name2: "load_bytes (mk_mem s2) (?a + 4) (Suc (length name)) = bytes_of name @ [0]"
  proof -
    have "agree ?m1 0 (mk_mem s2) 0 {?a + 4..<?a + 4 + Suc (length name)}"
      by (rule agree_subset[OF only_agree[OF s2(4) d2]]) (use nm in \<open>auto simp: layout\<close>)
    then have "load_bytes (mk_mem s2) (0 + (?a + 4)) (Suc (length name)) = load_bytes ?m1 (0 + (?a + 4)) (Suc (length name))" by (rule agree_bytes)
    also have "\<dots> = bytes_of name @ [0]"
      using load_store_bytes[of "store_bytes (mk_mem s) (?a + 4) (replicate INITRD_FILENAME_LEN 0)" "?a + 4" "bytes_of name @ [0]"] by simp
    finally show ?thesis by simp
  qed
  have e3: "entry_at (mk_mem ?s3) 0 ?a name ino"
  proof -
    have "load_bytes (store32 (mk_mem s2) ?a ino) (?a + 4) (Suc (length name)) = load_bytes (mk_mem s2) (?a + 4) (Suc (length name))"
      by (auto simp: load_bytes_def store32_def)
    then show ?thesis using name2 i32 by (simp add: entry_at_def)
  qed
  have "entry_at (mk_mem s4) 0 ?a name ino"
    using e3 agree_entry[OF agree_subset[OF only_agree[OF s4(4) d4]], of ?a name ino] nm(1) by (simp add: layout)
  moreover have "rep (mk_mem s4) 0 ino off (Some p) t"
  proof -
    have "agree (mk_mem s2) 0 (mk_mem ?s3) 0 (table ino (ino + nodes t) \<union> {off..<off + sizeof t})"
      by (rule only_agree[of _ _ "{?a..<?a + entry_size}"]) (use d2 in \<open>auto simp: only_def store32_def layout\<close>)
    then have "rep (mk_mem ?s3) 0 ino off (Some p) t" by (rule rep_frame(1)[OF s2(3) nm(3)])
    then show ?thesis by (rule rep_frame(1)[OF _ nm(3) only_agree[OF s4(4) d5]])
  qed
  ultimately have reps4: "reps (mk_mem s4) 0 p eo k ino off ((name, t) # es)" using s4(3) by simp
  have "only (mk_mem s) (mk_mem s4) ?U"
  proof -
    have t1: "table ino (ino + nodes t) \<subseteq> table ino (ino + nodess ((name, t) # es))" by (rule table_mono) simp_all
    have t2: "table (ino + nodes t) (ino + nodes t + nodess es) \<subseteq> table ino (ino + nodess ((name, t) # es))" by (rule table_mono) simp_all
    have "only (mk_mem s) ?m1 {?a..<?a + entry_size}" using nm(1) by (auto simp: only_def store_bytes_def layout)
    then have "only (mk_mem s) (mk_mem s2) ?U" by (rule only_trans[OF _ s2(4)]) (use t1 in \<open>auto simp: layout\<close>)
    moreover have "only (mk_mem s2) (mk_mem ?s3) {?a..<?a + entry_size}" by (auto simp: only_def store32_def layout)
    ultimately have "only (mk_mem s) (mk_mem ?s3) ?U" by (rule only_trans) (auto simp: layout)
    then show ?thesis by (rule only_trans[OF _ s4(4)]) (use t2 in \<open>auto simp: layout\<close>)
  qed
  then show ?case using run s4(2) reps4 by (intro exI[of _ s4]) (simp add: add.assoc)
qed

lemma count_nodess: "fits_pathss n es \<Longrightarrow> count_of_inodes n es = Some (nodess es)"
  by (induction n es rule: count_of_inodes.induct) auto

definition image_size :: "(string \<times> fs_node) list \<Rightarrow> nat" where
  "image_size es = header_size + inode_size * Suc (nodess es) + entry_size * (length es + 2) + sizeofs es"

text \<open>The image of the tool holds the directory as inode 0.\<close>

lemma mkinitrd_image:
  assumes fit: "n < 255" "fits_pathss n es" and small: "image_size es < 2 ^ 32"
  shows "\<exists>img. mkinitrd n st es junk = Some (img, image_size es) \<and> load32 img 0 = INITRD_MAGIC \<and> load32 img 4 = Suc (nodess es) \<and>
    rep img 0 0 (header_size + inode_size * Suc (nodess es)) None (DirNode st es)"
proof -
  let ?N = "Suc (nodess es)" and ?off = "header_size + inode_size * Suc (nodess es)"
  let ?s = "\<lparr>mk_mem = store_bytes junk header_size (replicate (?N * inode_size) 0), filelen = ?off, tmp_inode = 0, hentries = 0\<rparr>"
  have r: "room ?N ?s 0 ?off (nodes (DirNode st es)) (sizeof (DirNode st es))" using small by (simp add: room_def image_size_def algebra_simps)
  obtain s2 where s2: "savefile (DirNode st es) n None ?s = Some (0, s2)" "room ?N s2 ?N (?off + sizeof (DirNode st es)) 0 0"
      "rep (mk_mem s2) 0 0 ?off None (DirNode st es)"
    using saves(1)[OF r, of None n] fit(2) by auto
  let ?img = "store32 (store32 (store32 (mk_mem s2) 0 INITRD_MAGIC) 4 ?N) 8 (hentries s2)"
  have "expand_initrd (header_size + ?N * inode_size) \<lparr>mk_mem = junk, filelen = 0, tmp_inode = 0, hentries = 0\<rparr> =
      \<lparr>mk_mem = junk, filelen = ?off, tmp_inode = 0, hentries = 0\<rparr>"
    using small by (simp add: expand_initrd_def image_size_def mult.commute add32_def)
  then have "mkinitrd n st es junk = Some (?img, filelen s2)"
    using s2(1) fit count_nodess[OF fit(2)] by (simp add: mkinitrd_def Let_def)
  moreover have "filelen s2 = image_size es" using s2(2) by (simp add: room_def image_size_def)
  moreover have "load32 ?img 0 = INITRD_MAGIC" "load32 ?img 4 = ?N"
    using small by (simp_all add: load_store_other INITRD_MAGIC_def image_size_def layout)
  moreover have "rep ?img 0 0 ?off None (DirNode st es)"
    by (rule rep_frame(1)[OF s2(3), of n]) (use fit in \<open>auto simp: agree_def table_def store32_def layout\<close>)
  ultimately show ?thesis by (intro exI[of _ ?img] conjI) (simp_all only:)
qed

section \<open>The kernel reads what the tool wrote\<close>

lemma load_string_bytes:
  assumes "load_bytes m a (Suc (length name)) = bytes_of name @ [0]" "NUL \<notin> set name"
  shows "load_string m a n = take n name"
proof -
  let ?f = "\<lambda>b :: uchar. char_of (unat b) :: char"
  have pre: "map ?f (load_bytes m a k) = take k (map ?f (load_bytes m a (Suc (length name))))" if "k \<le> Suc (length name)" for k
    by (rule nth_equalityI) (use that in \<open>simp_all add: load_bytes_def del: upt_Suc\<close>)
  have full: "map ?f (load_bytes m a (Suc (length name))) = name @ [NUL]"
  proof -
    have "char_of (0 :: nat) = NUL" by (simp add: char_of_def)
    then show ?thesis using assms(1) by simp
  qed
  show ?thesis
  proof (cases "n \<le> length name")
    case True
    then have "map ?f (load_bytes m a n) = take n name" using pre[of n] full by simp
    moreover have "NUL \<notin> set (take n name)" using assms(2) by (meson in_set_takeD)
    ultimately show ?thesis by (auto simp: load_string_def takeWhile_eq_all_conv)
  next
    case False
    then have "load_bytes m a n = load_bytes m a (Suc (length name)) @ load_bytes m (a + Suc (length name)) (n - Suc (length name))"
      by (intro nth_equalityI) (auto simp: load_bytes_def nth_append simp del: upt_Suc)
    then have "map ?f (load_bytes m a n) = name @ NUL # map ?f (load_bytes m (a + Suc (length name)) (n - Suc (length name)))"
      using full by simp
    moreover have "takeWhile (\<lambda>c. c \<noteq> NUL) (name @ NUL # ys) = name" for ys
      using assms(2) by (auto simp: takeWhile_tail takeWhile_eq_all_conv)
    ultimately show ?thesis using False by (simp add: load_string_def)
  qed
qed

lemma match_entry:
  assumes "load_bytes m a (Suc (length name)) = bytes_of name @ [0]" "NUL \<notin> set name" "CHR ''/'' \<notin> set name"
  shows "namei_match c (load_string m a (Suc (length c))) \<longleftrightarrow> component c = name"
proof -
  have t: "component (take k name) = take k name" for k
    using assms(3) by (auto simp: component_def takeWhile_eq_all_conv dest: in_set_takeD)
  have l: "length (component c) \<le> length c" by (simp add: component_def length_takeWhile_le)
  have "component c = take (Suc (length c)) name \<longleftrightarrow> component c = name"
  proof
    assume eq: "component c = take (Suc (length c)) name"
    then have "length (take (Suc (length c)) name) \<le> length c" using l by simp
    then have "length name \<le> length c" by (simp add: min_def split: if_splits)
    then show "component c = name" using eq by simp
  qed (use l in auto)
  then show ?thesis by (simp only: namei_match_iff load_string_bytes[OF assms(1,2)] t)
qed

lemma find_entry_spec:
  assumes "\<And>j. j < K \<Longrightarrow> load_bytes m (loc + i_offset i + entry_size * j + 4) (Suc (length (nm j))) = bytes_of (nm j) @ [0] \<and>
      NUL \<notin> set (nm j) \<and> CHR ''/'' \<notin> set (nm j)"
  shows "(\<And>j. j < K \<Longrightarrow> nm j \<noteq> component c) \<Longrightarrow> find_entry m loc i c K = None"
    "j < K \<Longrightarrow> nm j = component c \<Longrightarrow> (\<And>l. l < K \<Longrightarrow> l \<noteq> j \<Longrightarrow> nm l \<noteq> component c) \<Longrightarrow> find_entry m loc i c K = Some (entry_ino m loc i j)"
proof -
  have mt: "namei_match c (entry_name m loc i l (Suc (length c))) \<longleftrightarrow> component c = nm l" if "l < K" for l
    using match_entry assms[OF that] by (simp only: entry_name_def) blast
  show "find_entry m loc i c K = None" if "\<And>j. j < K \<Longrightarrow> nm j \<noteq> component c"
    using that mt unfolding find_entry_None by metis
  show "find_entry m loc i c K = Some (entry_ino m loc i j)"
    if j: "j < K" "nm j = component c" and u: "\<And>l. l < K \<Longrightarrow> l \<noteq> j \<Longrightarrow> nm l \<noteq> component c"
    by (rule find_entry_last[OF j(1)]) (use j u mt in \<open>metis nat_neq_iff\<close>)+
qed

lemma reps_nth:
  assumes "reps m loc par eo k ino off es" "q < length es"
  shows "\<exists>ino' off'. entry_at m loc (eo + entry_size * (k + q)) (fst (es ! q)) ino' \<and> rep m loc ino' off' (Some par) (snd (es ! q))"
  using assms
proof (induction es arbitrary: k ino off q)
  case (Cons e es)
  obtain name t where e: "e = (name, t)" by (cases e)
  show ?case
  proof (cases q)
    case 0
    then show ?thesis using Cons.prems e by auto
  next
    case (Suc q')
    then show ?thesis using Cons.IH[of "Suc k" "ino + nodes t" "off + sizeof t" q'] Cons.prems e by simp
  qed
qed simp

section \<open>Round trip\<close>

fun tree_at :: "fs_node \<Rightarrow> string list \<Rightarrow> fs_node option" where
  "tree_at t [] = Some t"
| "tree_at (FileNode st c) (cm # cs) = None"
| "tree_at (DirNode st es) (cm # cs) = (case map_of es cm of None \<Rightarrow> None | Some t \<Rightarrow> tree_at t cs)"

fun names_ok :: "fs_node \<Rightarrow> bool" and names_oks :: "(string \<times> fs_node) list \<Rightarrow> bool" where
  "names_ok (FileNode st c) = True"
| "names_ok (DirNode st es) = (distinct (map fst es) \<and> names_oks es)"
| "names_oks [] = True"
| "names_oks ((name, t) # es) = (name_ok name \<and> NUL \<notin> set name \<and> names_ok t \<and> names_oks es)"

text \<open>The search of the kernel for one name after the other, from a directory's inode number.\<close>

fun initrd_walk :: "memory \<Rightarrow> nat \<Rightarrow> nat \<Rightarrow> string list \<Rightarrow> nat option" where
  "initrd_walk m loc ino [] = Some ino"
| "initrd_walk m loc ino (cm # cs) =
     (let i = initrdfs_i m loc (word_of_nat ino) in
      case find_entry m loc i cm (i_size i div entry_size) of None \<Rightarrow> None | Some j \<Rightarrow> initrd_walk m loc j cs)"

lemma names_oks_nth: "names_oks es \<Longrightarrow> e \<in> set es \<Longrightarrow> name_ok (fst e) \<and> NUL \<notin> set (fst e) \<and> names_ok (snd e)"
  by (induction es) auto

lemma rep_inode: "rep m loc ino off par t \<Longrightarrow> ino < 2 ^ 32 \<Longrightarrow> initrdfs_i m loc (word_of_nat ino) = get_inode m loc ino \<and> i_offset (get_inode m loc ino) = off"
  by (cases t) (auto simp: initrdfs_i_def inode_of_def unsigned_of_nat take_bit_nat_eq_self)

lemma find_in_dir:
  assumes r: "rep m loc ino off par (DirNode st es)" and i32: "ino < 2 ^ 32" and ok: "names_ok (DirNode st es)" and cm: "name_ok cm"
  defines "i \<equiv> initrdfs_i m loc (word_of_nat ino)"
  shows "case map_of es cm of None \<Rightarrow> find_entry m loc i cm (i_size i div entry_size) = None
    | Some t \<Rightarrow> \<exists>j off'. find_entry m loc i cm (i_size i div entry_size) = Some j \<and> j < 2 ^ 32 \<and> rep m loc j off' (Some ino) t"
proof -
  have i: "i = inode_of st ino off 2 (entry_size * (length es + 2))" using rep_inode[OF r i32] r by (simp add: i_def)
  have K: "i_size i div entry_size = length es + 2" "i_offset i = off" by (simp_all add: i inode_of_def layout)
  define nm where "nm j = (if j = 0 then ''.'' else if j = 1 then ''..'' else fst (es ! (j - 2)))" for j
  have names: "name_ok (fst (es ! q)) \<and> NUL \<notin> set (fst (es ! q))" if "q < length es" for q
    using ok that names_oks_nth[of es "es ! q"] by simp
  have ent: "load_bytes m (loc + i_offset i + entry_size * j + 4) (Suc (length (nm j))) = bytes_of (nm j) @ [0] \<and> NUL \<notin> set (nm j) \<and> CHR ''/'' \<notin> set (nm j)"
    if j: "j < length es + 2" for j
  proof -
    consider "j = 0" | "j = 1" | q where "j = 2 + q" "q < length es" using j by (metis One_nat_def Suc_lessD add.commute add_2_eq_Suc' less_2_cases_iff le_Suc_ex nat_add_left_cancel_less not_less)
    then show ?thesis
    proof cases
      case 3
      then show ?thesis using reps_nth[of m loc ino off 2 "Suc ino" "off + entry_size * (length es + 2)" es q] r names[of q] K(2)
        by (auto simp: nm_def entry_at_def add.assoc name_ok_def)
    qed (use r K(2) in \<open>simp_all add: nm_def entry_at_def add.assoc\<close>)
  qed
  have cc: "component cm = cm" using component_join(2)[OF cm] .
  have no: "nm 0 \<noteq> cm" "nm 1 \<noteq> cm" using cm by (auto simp: nm_def name_ok_def)
  show ?thesis
  proof (cases "map_of es cm")
    case None
    then have "cm \<notin> fst ` set es" by (simp add: map_of_eq_None_iff)
    then have "nm j \<noteq> cm" if "j < length es + 2" for j
      using that no by (cases "j < 2") (auto simp: nm_def less_2_cases_iff dest!: nth_mem[of "j - 2"])
    then show ?thesis using None find_entry_spec(1)[of "length es + 2" m loc i nm cm] ent K cc by auto
  next
    case (Some t)
    then obtain q where q: "q < length es" "es ! q = (cm, t)" by (metis in_set_conv_nth map_of_SomeD)
    obtain j off' where j: "entry_at m loc (off + entry_size * (2 + q)) cm j" "rep m loc j off' (Some ino) t"
      using reps_nth[of m loc ino off 2 "Suc ino" "off + entry_size * (length es + 2)" es q] r q by auto
    have u: "nm l \<noteq> cm" if "l < length es + 2" "l \<noteq> 2 + q" for l
    proof (cases "l < 2")
      case False
      then have "fst (es ! (l - 2)) \<noteq> fst (es ! q)" using ok that q(1) nth_eq_iff_index_eq[of "map fst es" "l - 2" q] by auto
      then show ?thesis using q False by (simp add: nm_def)
    qed (use no in \<open>auto simp: less_2_cases_iff\<close>)
    have "find_entry m loc i cm (length es + 2) = Some (entry_ino m loc i (2 + q))"
      by (rule find_entry_spec(2)[where nm = nm]) (use ent q u cc in \<open>auto simp: nm_def\<close>)
    moreover have "entry_ino m loc i (2 + q) = j" using j(1) K(2) by (simp add: entry_ino_def entry_at_def add.assoc)
    moreover have "j < 2 ^ 32" using j(1) load32_less by (auto simp: entry_at_def)
    ultimately show ?thesis using Some j(2) K(1) by auto
  qed
qed

lemma names_ok_child: "names_ok (DirNode st es) \<Longrightarrow> map_of es cm = Some t \<Longrightarrow> names_ok t \<and> name_ok cm"
  using names_oks_nth[of es "(cm, t)"] map_of_SomeD by fastforce

lemma walk_rep:
  assumes "rep m loc ino off par t" "ino < 2 ^ 32" "names_ok t" "tree_at t cs = Some t'"
  shows "\<exists>j off' par'. initrd_walk m loc ino cs = Some j \<and> j < 2 ^ 32 \<and> rep m loc j off' par' t' \<and> names_ok t'"
  using assms
proof (induction t cs arbitrary: ino off par rule: tree_at.induct)
  case (3 st es cm cs)
  then obtain t where t: "map_of es cm = Some t" "tree_at t cs = Some t'" by (auto split: option.splits)
  note ok = names_ok_child[OF 3(4) t(1)]
  obtain j off' where j: "find_entry m loc (initrdfs_i m loc (word_of_nat ino)) cm
        (i_size (initrdfs_i m loc (word_of_nat ino)) div entry_size) = Some j" "j < 2 ^ 32" "rep m loc j off' (Some ino) t"
    using find_in_dir[OF 3(2,3,4), of cm] ok t(1) by auto
  then show ?case using 3(1)[OF t(1) j(3,2)] ok t(2) by (simp add: Let_def)
qed auto

text \<open>
  C2: the kernel reads from the image what the tool stored. If the tool is run on a directory tree whose
  names fit, and the image is loaded anywhere in memory, then looking up the components of a path finds the
  inode of the node the tree has there. For a file its size, mode and owner are those of the tree and
  reading it returns the stored bytes; in a directory a name is found if and only if the tree has it.
\<close>

theorem mkinitrd_roundtrip:
  assumes fit: "n < 255" "fits_pathss n es" "names_ok (DirNode st es)" and small: "image_size es < 2 ^ 32"
    and loaded: "\<forall>img len. mkinitrd n st es junk = Some (img, len) \<longrightarrow> (\<forall>x < len. mem (loc + x) = img x)"
    and path: "tree_at (DirNode st es) cs = Some t"
  shows "\<exists>ino. initrd_walk mem loc 0 cs = Some ino \<and>
    (let i = initrdfs_i mem loc (word_of_nat ino) in
     case t of
       FileNode fs c \<Rightarrow> i_flags i = 1 \<and> i_mode i = st_mode fs mod 2 ^ 32 \<and> i_uid i = st_uid fs mod 2 ^ 32 \<and> i_size i = length c \<and>
         initrd_read mem loc i 0 (length c) = (length c, c)
     | DirNode ds ds' \<Rightarrow> i_flags i = 2 \<and> i_mode i = st_mode ds mod 2 ^ 32 \<and>
         (\<forall>cm. name_ok cm \<longrightarrow> (find_entry mem loc i cm (i_size i div entry_size) = None \<longleftrightarrow> map_of ds' cm = None)))"
proof -
  let ?off = "header_size + inode_size * Suc (nodess es)"
  obtain img where img: "mkinitrd n st es junk = Some (img, image_size es)" "rep img 0 0 ?off None (DirNode st es)"
    using mkinitrd_image[OF fit(1,2) small] by blast
  have "mem (loc + x) = img x" if "x < image_size es" for x using loaded img(1) that by simp
  then have ag: "agree img 0 mem loc (table 0 (0 + nodes (DirNode st es)) \<union> {?off..<?off + sizeof (DirNode st es)})"
    by (auto simp: agree_def image_size_def table_def)
  have r: "rep mem loc 0 ?off None (DirNode st es)" by (rule rep_frame(1)[OF img(2) _ ag, of n]) (use fit in simp)
  obtain j off' par' where j: "initrd_walk mem loc 0 cs = Some j" "j < 2 ^ 32" "rep mem loc j off' par' t" "names_ok t"
    using walk_rep[OF r _ fit(3) path] by auto
  have ij: "initrdfs_i mem loc (word_of_nat j) = get_inode mem loc j" using rep_inode[OF j(3,2)] by simp
  show ?thesis
  proof (cases t)
    case (FileNode fs c)
    have i: "get_inode mem loc j = inode_of fs j off' 1 (length c)" and b: "load_bytes mem (loc + off') (length c) = c" using j(3) FileNode by auto
    have "length c < 2 ^ 32"
    proof -
      have "i_size (get_inode mem loc j) < 2 ^ 32" by (simp only: get_inode_def Let_def initrd_inode.simps load32_less)
      then show ?thesis by (simp add: i inode_of_def)
    qed
    then show ?thesis using j(1) FileNode i b by (simp add: ij inode_of_def initrd_read_def Let_def)
  next
    case (DirNode ds ds')
    have "find_entry mem loc (initrdfs_i mem loc (word_of_nat j)) cm (i_size (initrdfs_i mem loc (word_of_nat j)) div entry_size) = None \<longleftrightarrow>
        map_of ds' cm = None" if "name_ok cm" for cm
      using find_in_dir[of mem loc j off' par' ds ds' cm] j that DirNode by (auto split: option.splits)
    moreover have "get_inode mem loc j = inode_of ds j off' 2 (entry_size * (length ds' + 2))" using j(3) DirNode by simp
    ultimately show ?thesis using j(1) DirNode by (simp add: ij inode_of_def Let_def)
  qed
qed

text \<open>A directory with one subdirectory that holds one file.\<close>

definition demo_stat :: stat where "demo_stat = \<lparr>st_mode = 0x1ED, st_gid = 0, st_uid = 0\<rparr>"

definition demo_entries :: "(string \<times> fs_node) list" where
  "demo_entries = [(''bin'', DirNode demo_stat [(''sh'', FileNode demo_stat [0x7F, 0x45])])]"

theorem mkinitrd_roundtrip_witness:
  "\<exists>ino. initrd_walk (fst (the (mkinitrd 4 demo_stat demo_entries (\<lambda>_. 0)))) 0 0 [''bin'', ''sh''] = Some ino"
proof -
  have fit: "fits_pathss 4 demo_entries" "names_ok (DirNode demo_stat demo_entries)" "image_size demo_entries < 2 ^ 32"
    by (simp_all add: demo_entries_def name_ok_def image_size_def layout)
  have at: "tree_at (DirNode demo_stat demo_entries) [''bin'', ''sh''] = Some (FileNode demo_stat [0x7F, 0x45])" by (simp add: demo_entries_def)
  from mkinitrd_roundtrip[OF _ fit(1,2,3) _ at, of "\<lambda>_. 0" "fst (the (mkinitrd 4 demo_stat demo_entries (\<lambda>_. 0)))" 0]
  show ?thesis by auto
qed

end
