(* ===== verification/Dts.thy ===== *)
theory Dts
  imports Prelude
begin

text \<open>
  Descriptor tables and interrupt dispatch: \<^verbatim>\<open>src/kernel/dts.c\<close> and \<^verbatim>\<open>src/include/kernel/dts.h\<close>. The
  addresses of the tables, of the task state segment and of the assembler stubs are arguments; the writes
  to the interrupt controllers are a list of ports and bytes. A handler is an arbitrary function on the
  state \<open>'s\<close>. \<open>None\<close> is the endless loop after an unhandled interrupt.
\<close>

section \<open>Tables\<close>

record gdt_entry =
  limit_low :: ushort
  base_low :: ushort
  base_middle :: uchar
  access :: uchar
  granularity :: uchar
  base_high :: uchar

record idt_entry =
  base_lo :: ushort
  sel :: ushort
  always0 :: uchar
  gate_flags :: uchar
  base_hi :: ushort

record tss_entry =
  prev_tss :: uint
  esp0 :: uint
  ss0 :: uint
  esp1 :: uint
  ss1 :: uint
  esp2 :: uint
  ss2 :: uint
  tss_cr3 :: uint
  tss_eip :: uint
  tss_eflags :: uint
  tss_eax :: uint
  tss_ecx :: uint
  tss_edx :: uint
  tss_ebx :: uint
  tss_esp :: uint
  tss_ebp :: uint
  tss_esi :: uint
  tss_edi :: uint
  tss_es :: uint
  tss_cs :: uint
  tss_ss :: uint
  tss_ds :: uint
  tss_fs :: uint
  tss_gs :: uint
  tss_ldt :: uint
  tss_trap :: ushort
  iomap_base :: ushort

record gdt_pointer =
  ptr_limit :: ushort
  ptr_base :: uint

definition IRQ0 :: nat where "IRQ0 = 32"

definition gdt_set_gate :: "uint \<Rightarrow> uint \<Rightarrow> uchar \<Rightarrow> uchar \<Rightarrow> gdt_entry" where
  "gdt_set_gate base limit acc gran =
    \<lparr>limit_low = ucast (limit AND 0xFFFF), base_low = ucast (base AND 0xFFFF), base_middle = ucast (drop_bit 16 base AND 0xFF),
     access = acc, granularity = ucast (drop_bit 16 limit AND 0x0F) OR (gran AND 0xF0), base_high = ucast (drop_bit 24 base AND 0xFF)\<rparr>"

definition idt_set_gate :: "uint \<Rightarrow> ushort \<Rightarrow> uchar \<Rightarrow> idt_entry" where
  "idt_set_gate base s flags =
    \<lparr>base_lo = ucast (base AND 0xFFFF), sel = s, always0 = 0, gate_flags = flags OR 0x60, base_hi = ucast (drop_bit 16 base AND 0xFFFF)\<rparr>"

definition sizeof_tss :: uint where "sizeof_tss = 104"

text \<open>The limit is the end address of the segment, not its size.\<close>

definition write_tss :: "uint \<Rightarrow> uint \<Rightarrow> uint \<Rightarrow> gdt_entry \<times> tss_entry" where
  "write_tss base stk tos =
    (gdt_set_gate base (base + sizeof_tss) 0xE9 0,
     \<lparr>prev_tss = 0, esp0 = tos, ss0 = stk, esp1 = 0, ss1 = 0, esp2 = 0, ss2 = 0, tss_cr3 = 0, tss_eip = 0, tss_eflags = 0,
      tss_eax = 0, tss_ecx = 0, tss_edx = 0, tss_ebx = 0, tss_esp = 0, tss_ebp = 0, tss_esi = 0, tss_edi = 0,
      tss_es = 0x13, tss_cs = 0x0B, tss_ss = 0x13, tss_ds = 0x13, tss_fs = 0x13, tss_gs = 0x13, tss_ldt = 0,
      tss_trap = 0, iomap_base = 0\<rparr>)"

definition set_kernel_stack :: "uint \<Rightarrow> tss_entry \<Rightarrow> tss_entry" where
  "set_kernel_stack stack t = t\<lparr>esp0 := stack\<rparr>"

definition init_gdt :: "uint \<Rightarrow> uint \<Rightarrow> gdt_pointer \<times> gdt_entry list \<times> tss_entry" where
  "init_gdt gdt_base tss_base =
    (let (g, t) = write_tss tss_base 0x10 0 in
     (\<lparr>ptr_limit = 8 * 6 - 1, ptr_base = gdt_base\<rparr>,
      [gdt_set_gate 0 0 0 0, gdt_set_gate 0 0xFFFFFFFF 0x9A 0xCF, gdt_set_gate 0 0xFFFFFFFF 0x92 0xCF,
       gdt_set_gate 0 0xFFFFFFFF 0xFA 0xCF, gdt_set_gate 0 0xFFFFFFFF 0xF2 0xCF, g], t))"

text \<open>The initialisation of the two interrupt controllers: IRQs 0 to 15 become the vectors 32 to 47.\<close>

definition pic_setup :: "(nat \<times> uchar) list" where
  "pic_setup = [(0x20, 0x11), (0xA0, 0x11), (0x21, 0x20), (0xA1, 0x28), (0x21, 0x04), (0xA1, 0x02), (0x21, 0x01), (0xA1, 0x01),
     (0x21, 0), (0xA1, 0)]"

definition null_gate :: idt_entry where
  "null_gate = \<lparr>base_lo = 0, sel = 0, always0 = 0, gate_flags = 0, base_hi = 0\<rparr>"

text \<open>The stubs \<^verbatim>\<open>isr0\<close> to \<^verbatim>\<open>isr31\<close> and \<^verbatim>\<open>isr128\<close>, and \<^verbatim>\<open>irq0\<close> to \<^verbatim>\<open>irq15\<close>.\<close>

definition init_idt :: "(nat \<Rightarrow> uint) \<Rightarrow> (nat \<Rightarrow> uint) \<Rightarrow> idt_entry list" where
  "init_idt isr irq =
    (let t = replicate 256 null_gate;
         t1 = fold (\<lambda>nr t. t[nr := idt_set_gate (isr nr) 0x08 0x8E]) [0..<32] t;
         t2 = fold (\<lambda>nr t. t[IRQ0 + nr := idt_set_gate (irq nr) 0x08 0x8E]) [0..<16] t1
     in t2[128 := idt_set_gate (isr 128) 0x08 0x8E])"

section \<open>Dispatch\<close>

record registers =
  ds :: uint
  edi :: uint
  esi :: uint
  ebp :: uint
  esp :: uint
  ebx :: uint
  edx :: uint
  ecx :: uint
  eax :: uint
  int_no :: uint
  err_code :: uint
  eip :: uint
  cs :: uint
  eflags :: uint
  useresp :: uint
  ss :: uint

text \<open>A handler gets a pointer to the saved registers and may change them.\<close>

type_synonym 's handler = "registers \<times> 's \<Rightarrow> registers \<times> 's"
type_synonym 's handlers = "uchar \<Rightarrow> 's handler option"

record 's dts =
  gdt :: "gdt_entry list"
  gdt_ptr :: gdt_pointer
  tss_ent :: tss_entry
  idt :: "idt_entry list"
  idt_ptr :: gdt_pointer
  interrupt_handlers :: "'s handlers"
  pic_ports :: "(nat \<times> uchar) list"

definition setup_dts :: "uint \<Rightarrow> uint \<Rightarrow> uint \<Rightarrow> (nat \<Rightarrow> uint) \<Rightarrow> (nat \<Rightarrow> uint) \<Rightarrow> 's dts" where
  "setup_dts gdt_base tss_base idt_base isr irq =
    (let (p, g, t) = init_gdt gdt_base tss_base in
     \<lparr>gdt = g, gdt_ptr = p, tss_ent = t, idt = init_idt isr irq, idt_ptr = \<lparr>ptr_limit = 8 * 256 - 1, ptr_base = idt_base\<rparr>,
      interrupt_handlers = (\<lambda>_. None), pic_ports = pic_setup\<rparr>)"

definition register_interrupt_handler :: "uchar \<Rightarrow> 's handler \<Rightarrow> 's handlers \<Rightarrow> 's handlers" where
  "register_interrupt_handler n h hs = hs(n \<mapsto> h)"

definition exception_messages :: "string list" where
  "exception_messages =
    [''Division By Zero'', ''Debug'', ''Non Maskable Interrupt'', ''Breakpoint'', ''Into Detected Overflow'', ''Out of Bounds'', ''Invalid Opcode'', ''No Coprocessor'', ''Double Fault'', ''Coprocessor Segment Overrun'', ''Bad TSS'',
     ''Segment Not Present'', ''Stack Fault'', ''General Protection Fault'', ''Page Fault'', ''Unknown Interrupt'',
     ''Coprocessor Fault'', ''Alignment Check'', ''Machine Check''] @
     replicate 13 ''Reserved''"

text \<open>The message for an interrupt without a handler; the machine then loops.\<close>

definition unhandled_message :: "uchar \<Rightarrow> string option" where
  "unhandled_message n = (if n < 32 then Some (exception_messages ! unat n) else None)"

definition isr_handler :: "'s handlers \<Rightarrow> registers \<Rightarrow> 's \<Rightarrow> (registers \<times> 's) option" where
  "isr_handler hs regs s =
    (case hs (ucast (int_no regs AND 0xFF)) of Some h \<Rightarrow> Some (h (regs, s)) | None \<Rightarrow> None)"

text \<open>
  The table has 256 entries; \<^verbatim>\<open>irq_handler\<close> indexes it with the full number. The acknowledgements are sent
  before the handler runs.
\<close>

definition irq_handler :: "'s handlers \<Rightarrow> registers \<Rightarrow> 's \<Rightarrow> ((nat \<times> uchar) list \<times> registers \<times> 's) option" where
  "irq_handler hs regs s =
    (if int_no regs \<ge> 256 then None
     else
       let acks = (if int_no regs \<ge> 40 then [(0xA0, 0x20)] else []) @ [(0x20, 0x20)] in
       Some (acks, case hs (ucast (int_no regs)) of Some h \<Rightarrow> h (regs, s) | None \<Rightarrow> (regs, s)))"

section \<open>What the processor reads\<close>

definition gate_base :: "gdt_entry \<Rightarrow> uint" where
  "gate_base g = ucast (base_low g) OR push_bit 16 (ucast (base_middle g)) OR push_bit 24 (ucast (base_high g))"

definition gate_limit :: "gdt_entry \<Rightarrow> uint" where
  "gate_limit g = ucast (limit_low g) OR push_bit 16 (ucast (granularity g AND 0x0F))"

definition gate_offset :: "idt_entry \<Rightarrow> uint" where
  "gate_offset e = ucast (base_lo e) OR push_bit 16 (ucast (base_hi e))"

lemma masks:
  "(0xFFFF :: uint) = mask 16" "(0xFF :: uint) = mask 8" "(0x0F :: uint) = mask 4" "(0xFFFFF :: uint) = mask 20"
  "(0x0F :: uchar) = mask 4" "(0xF0 :: uchar) = push_bit 4 (mask 4)"
  by (simp_all add: mask_eq_exp_minus_1)

lemma gdt_gate_decode:
  "gate_base (gdt_set_gate base limit acc gran) = base" "gate_limit (gdt_set_gate base limit acc gran) = limit AND 0xFFFFF"
proof -
  show "gate_base (gdt_set_gate base limit acc gran) = base"
  proof (rule bit_word_eqI)
    fix n assume "n < LENGTH(32)"
    then show "bit (gate_base (gdt_set_gate base limit acc gran)) n \<longleftrightarrow> bit base n"
      by (cases "n < 24") (auto simp: gate_base_def gdt_set_gate_def masks bit_simps)
  qed
  show "gate_limit (gdt_set_gate base limit acc gran) = limit AND 0xFFFFF"
    by (rule bit_word_eqI) (auto simp: gate_limit_def gdt_set_gate_def masks bit_simps)
qed

lemma idt_gate_decode: "gate_offset (idt_set_gate base s flags) = base"
  by (rule bit_word_eqI) (auto simp: gate_offset_def idt_set_gate_def masks bit_simps)

lemma fold_update:
  "length (fold (\<lambda>nr t. t[b + nr := g nr]) [0..<k] t) = length t"
  "i < length t \<Longrightarrow> fold (\<lambda>nr t. t[b + nr := g nr]) [0..<k] t ! i = (if b \<le> i \<and> i < b + k then g (i - b) else t ! i)"
proof (induction k)
  case (Suc k)
  { case 1 show ?case using Suc(1) by simp }
  { case 2 show ?case using Suc 2 by (auto simp: nth_list_update less_Suc_eq) }
qed auto

text \<open>
  The table the processor uses has exactly the vectors 0 to 47 and 128: each leads to its own stub in the
  kernel code segment, and every other entry is not present. All of them, those of exceptions and hardware
  interrupts too, have descriptor privilege level 3, so that a user program may raise any of them.
\<close>

lemma init_idt_gates:
  assumes "n < 256"
  shows "let e = init_idt isr irq ! n in
    (if n < 48 \<or> n = 128
     then gate_offset e = (if n < 32 \<or> n = 128 then isr n else irq (n - 32)) \<and> sel e = 0x08 \<and> bit (gate_flags e) 7 \<and>
       drop_bit 5 (gate_flags e) AND 3 = 3
     else \<not> bit (gate_flags e) 7) \<and> length (init_idt isr irq) = 256"
proof -
  let ?g = "\<lambda>a. idt_set_gate a 0x08 0x8E"
  let ?t1 = "fold (\<lambda>nr t. t[0 + nr := ?g (isr nr)]) [0..<32] (replicate 256 null_gate)"
  let ?t2 = "fold (\<lambda>nr t. t[32 + nr := ?g (irq nr)]) [0..<16] ?t1"
  have t: "init_idt isr irq = ?t2[128 := ?g (isr 128)]" by (simp add: init_idt_def IRQ0_def Let_def)
  have l: "length ?t1 = 256" "length ?t2 = 256" by (simp_all only: fold_update length_replicate)
  have "?t1 ! n = (if n < 32 then ?g (isr n) else null_gate)" using fold_update(2)[of n "replicate 256 null_gate" 0 "\<lambda>nr. ?g (isr nr)" 32] assms by simp
  moreover have "?t2 ! n = (if 32 \<le> n \<and> n < 32 + 16 then ?g (irq (n - 32)) else ?t1 ! n)" by (rule fold_update(2)) (use assms l(1) in simp)
  ultimately have e: "init_idt isr irq ! n = (if n = 128 then ?g (isr 128) else if n < 32 then ?g (isr n) else if n < 48 then ?g (irq (n - 32)) else null_gate)"
    using assms l(2) by (simp add: t nth_list_update)
  have "bit (gate_flags (?g a)) 7 \<and> drop_bit 5 (gate_flags (?g a)) AND 3 = 3 \<and> sel (?g a) = 8" for a
    by (simp add: idt_set_gate_def)
  moreover have "\<not> bit (gate_flags null_gate) 7" by (simp add: null_gate_def)
  moreover have "length (init_idt isr irq) = 256" using l(2) t by simp
  ultimately show ?thesis unfolding e Let_def using idt_gate_decode by (simp add: not_less)
qed

lemma init_idt_gates_witness: "gate_offset (init_idt (\<lambda>n. of_nat n) (\<lambda>n. 0x1000 + of_nat n) ! 33) = 0x1001"
  using init_idt_gates[of 33 "\<lambda>n. of_nat n" "\<lambda>n. 0x1000 + of_nat n"] by (simp add: Let_def)

text \<open>The task segment's limit is its end address, so that the segment reaches beyond the structure.\<close>

lemma tss_limit: "gate_limit (fst (write_tss base stk tos)) = (base + sizeof_tss) AND 0xFFFFF"
  by (simp add: write_tss_def gdt_gate_decode)

end
