(* ===== verification/Tasks.thy ===== *)
theory Tasks
  imports Files
begin

text \<open>
  Processes: \<^verbatim>\<open>src/kernel/sched.c\<close>, \<^verbatim>\<open>src/kernel/exit.c\<close> and the task functions of
  \<^verbatim>\<open>src/kernel/task.c\<close>. The task table is a list of 64 entries; \<open>beyond\<close> is what lies in memory behind it,
  which two functions use as if it were a task. Values that come from the processor or from another
  component are arguments: the registers saved by a switch, the directory returned by
  \<^verbatim>\<open>clone_directory\<close> and the stack returned by \<^verbatim>\<open>_kmalloc_a\<close>.
\<close>

definition SIGCHLD :: int where "SIGCHLD = 17"
definition SIGCONT :: int where "SIGCONT = 18"
definition INIT_PID :: int where "INIT_PID = 1"

section \<open>The scheduler\<close>

definition wake :: "task \<Rightarrow> task" where
  "wake t = (if t_pid t \<noteq> NO_TASK \<and> t_signals t \<noteq> 0 \<and> t_state t = TASK_BLOCKED then t\<lparr>t_state := TASK_WAITING\<rparr> else t)"

definition runnable :: "task \<Rightarrow> bool" where
  "runnable t \<longleftrightarrow> t_pid t \<noteq> NO_TASK \<and> t_state t = TASK_WAITING"

text \<open>The first task from index \<open>i\<close> on that waits for the processor, or the end of the table.\<close>

function next_waiting :: "task list \<Rightarrow> nat \<Rightarrow> nat" where
  "next_waiting ts i = (if i \<ge> NR_TASKS then i else if runnable (ts ! i) then i else next_waiting ts (Suc i))"
  by pat_completeness auto
termination by (relation "measure (\<lambda>(ts, i). NR_TASKS - i)") auto

declare next_waiting.simps [simp del]

definition schedule :: "'d kernel \<Rightarrow> nat \<times> 'd kernel" where
  "schedule k =
    (let k1 = k\<lparr>tasks := map wake (tasks k), beyond := wake (beyond k)\<rparr>;
         i = next_waiting (tasks k1) (nat (t_pid (cur k1) + 1))
     in (if i = NR_TASKS then 0 else i, k1))"

text \<open>
  A switch saves the registers of the current task and continues the one the scheduler chooses; the
  loading of its registers and page directory is the processor's part.
\<close>

definition switch_task :: "uint \<Rightarrow> uint \<Rightarrow> uint \<Rightarrow> 'd kernel \<Rightarrow> 'd kernel" where
  "switch_task eip esp ebp k =
    (let k1 = set_cur (\<lambda>t. t\<lparr>t_eip := eip, t_esp := esp, t_ebp := ebp,
                 t_state := (if t_state t = TASK_RUNNING then TASK_WAITING else t_state t)\<rparr>) k;
         (i, k2) = schedule k1
     in set_cur (\<lambda>t. t\<lparr>t_state := TASK_RUNNING\<rparr>) (k2\<lparr>current := i\<rparr>))"

definition sys_pause :: "uint \<Rightarrow> uint \<Rightarrow> uint \<Rightarrow> 'd kernel \<Rightarrow> 'd kernel" where
  "sys_pause eip esp ebp k = switch_task eip esp ebp (set_cur (\<lambda>t. t\<lparr>t_state := TASK_BLOCKED\<rparr>) k)"

section \<open>Signals\<close>

definition may_signal :: "cred \<Rightarrow> cred \<Rightarrow> int \<Rightarrow> bool" where
  "may_signal me a sign \<longleftrightarrow> I_AM_ROOT me \<or> c_uid a = c_uid me \<or> c_uid a = c_euid me \<or> c_euid a = c_uid me \<or>
     c_euid a = c_euid me \<or> sign = SIGCONT"

definition send_signal :: "cred \<Rightarrow> int \<Rightarrow> task \<Rightarrow> int \<times> task" where
  "send_signal me sign a =
    (if may_signal me (t_cred a) sign then (0, a\<lparr>t_signals := t_signals a OR push_bit (nat (sign - 1)) 1\<rparr>) else (err EPERM, a))"

text \<open>One of the three loops over the table: the tasks selected by \<open>sel\<close> are signalled in turn.\<close>

fun signal_tasks :: "cred \<Rightarrow> int \<Rightarrow> (task \<Rightarrow> bool) \<Rightarrow> task list \<Rightarrow> task list \<times> bool \<times> bool" where
  "signal_tasks me sign sel [] = ([], False, False)"
| "signal_tasks me sign sel (t # ts) =
     (let (ts', found, perm) = signal_tasks me sign sel ts in
      if t_pid t \<noteq> NO_TASK \<and> sel t
      then (let (r, t') = send_signal me sign t in (t' # ts', True, perm \<or> r \<noteq> err EPERM))
      else (t # ts', found, perm))"

definition signal_all :: "int \<Rightarrow> (task \<Rightarrow> bool) \<Rightarrow> 'd kernel \<Rightarrow> int \<times> 'd kernel" where
  "signal_all sign sel k =
    (let (ts, found, perm) = signal_tasks (t_cred (cur k)) sign sel (tasks k) in
     (if \<not> found then err ESRCH else if \<not> perm then err EPERM else 0, k\<lparr>tasks := ts\<rparr>))"

text \<open>A process number is compared with \<^verbatim>\<open>NR_TASKS\<close> by \<^verbatim>\<open>>\<close>, so that 64 is the entry behind the table.\<close>

definition sys_kill :: "int \<Rightarrow> int \<Rightarrow> 'd kernel \<Rightarrow> int \<times> 'd kernel" where
  "sys_kill pid sign k =
    (if sign < 1 \<or> sign > 32 then (err EINVAL, k)
     else if pid = 0 then signal_all sign (\<lambda>t. t_pgrp t = t_pgrp (cur k)) k
     else if pid = - 1 then signal_all sign (\<lambda>t. True) k
     else if pid < - 1 then signal_all sign (\<lambda>t. t_pgrp t = - pid) k
     else if pid > int NR_TASKS then (err ESRCH, k)
     else if pid = int NR_TASKS then
       (if t_pid (beyond k) = NO_TASK then (err ESRCH, k)
        else let (r, t) = send_signal (t_cred (cur k)) sign (beyond k) in (r, k\<lparr>beyond := t\<rparr>))
     else if t_pid (tasks k ! nat pid) = NO_TASK then (err ESRCH, k)
     else let (r, t) = send_signal (t_cred (cur k)) sign (tasks k ! nat pid) in (r, k\<lparr>tasks := (tasks k)[nat pid := t]\<rparr>))"

section \<open>Creating and ending processes\<close>

definition setup_tasking :: "nat \<Rightarrow> uint \<Rightarrow> 'd kernel \<Rightarrow> 'd kernel" where
  "setup_tasking dir stack k =
    (let ts = map (\<lambda>i. if i = 0 then tasks k ! 0 else (tasks k ! i)\<lparr>t_pid := NO_TASK\<rparr>) [0..<NR_TASKS];
         t = (ts ! 0)\<lparr>t_pid := 0, t_pgrp := 0, t_parent := 0, t_esp := 0, t_ebp := 0, t_eip := 0, t_state := TASK_RUNNING,
               t_directory := dir, t_cred := \<lparr>c_uid = 0, c_euid = 0, c_gid = 0, c_egid = 0, c_root = None, c_pwd = None\<rparr>,
               t_signals := 0, t_close_on_exec := 0, t_files := replicate NR_OPEN None, t_kernel_stack := stack\<rparr>
     in k\<lparr>tasks := ts[0 := t], current := 0\<rparr>)"

definition free_task :: "task list \<Rightarrow> nat" where
  "free_task ts = length (takeWhile (\<lambda>t. t_pid t \<noteq> NO_TASK) ts)"

text \<open>The descriptors of the child are counted from the last to the first.\<close>

fun count_files :: "nat option list \<Rightarrow> (nat \<Rightarrow> FILE option) \<Rightarrow> (nat \<Rightarrow> FILE option) option" where
  "count_files [] fm = Some fm"
| "count_files (None # fs) fm = count_files fs fm"
| "count_files (Some f # fs) fm = do {
     fm1 \<leftarrow> count_files fs fm;
     x \<leftarrow> fm1 f;
     Some (fm1(f \<mapsto> x\<lparr>f_count := f_count x + 1\<rparr>))
   }"

definition bump_opt :: "nat option \<Rightarrow> vfs \<Rightarrow> vfs option" where
  "bump_opt no st = (case no of None \<Rightarrow> Some st | Some n \<Rightarrow> bump n st)"

text \<open>The parent's part of \<^verbatim>\<open>fork\<close>; the new kernel stack is stored in the parent.\<close>

definition sys_fork :: "nat \<Rightarrow> uint \<Rightarrow> uint \<Rightarrow> uint \<Rightarrow> uint \<Rightarrow> 'd kernel \<Rightarrow> (int \<times> 'd kernel) option" where
  "sys_fork dir stack eip esp ebp k =
    (let i = free_task (tasks k) in
     if i \<ge> NR_TASKS then Some (- 1, k)
     else do {
       let p = cur k;
       let child = p\<lparr>t_pid := int i, t_esp := 0, t_ebp := 0, t_eip := 0, t_exit_code := 0, t_state := TASK_WAITING,
                     t_parent := t_pid p, t_directory := dir, t_signals := 0\<rparr>;
       fm1 \<leftarrow> count_files (t_files child) (fstore k);
       st1 \<leftarrow> bump_opt (c_pwd (t_cred p)) (kvfs k);
       st2 \<leftarrow> bump_opt (c_root (t_cred p)) st1;
       let k1 = set_cur (\<lambda>t. t\<lparr>t_kernel_stack := stack\<rparr>) (k\<lparr>fstore := fm1, kvfs := st2, tasks := (tasks k)[i := child]\<rparr>);
       Some (int i, k1\<lparr>tasks := (tasks k1)[i := child\<lparr>t_esp := esp, t_ebp := ebp, t_eip := eip\<rparr>]\<rparr>)
     })"

definition sys_getpid :: "'d kernel \<Rightarrow> int" where "sys_getpid k = t_pid (cur k)"
definition sys_getppid :: "'d kernel \<Rightarrow> int" where "sys_getppid k = t_parent (cur k)"

fun close_all :: "(nat \<Rightarrow> 'd file_operations) \<Rightarrow> nat \<Rightarrow> 'd kernel \<Rightarrow> 'd kernel option" where
  "close_all fop 0 k = Some k"
| "close_all fop (Suc i) k = Option.bind (sys_close fop (int i) k) (\<lambda>(r, k1). close_all fop i k1)"

text \<open>
  The orphans are given to process 1. Task 0 halts the machine (\<open>None\<close>). The page directory and the
  kernel stack are released before the switch.
\<close>

definition sys_exit :: "(nat \<Rightarrow> 'd file_operations) \<Rightarrow> int \<Rightarrow> uint \<Rightarrow> uint \<Rightarrow> uint \<Rightarrow> 'd kernel \<Rightarrow> 'd kernel option" where
  "sys_exit fop status eip esp ebp k = do {
     let me = t_pid (cur k);
     let k1 = k\<lparr>tasks := map (\<lambda>t. if t_pid t \<noteq> NO_TASK \<and> t_parent t = me then t\<lparr>t_parent := INIT_PID\<rparr> else t) (tasks k)\<rparr>;
     k2 \<leftarrow> close_all fop NR_OPEN k1;
     if t_pid (cur k2) = 0 then None
     else do {
       let k3 = set_cur (\<lambda>t. t\<lparr>t_state := TASK_ZOMBIE, t_exit_code := status\<rparr>) k2;
       let (r, k4) = sys_kill (t_parent (cur k3)) SIGCHLD k3;
       Some (switch_task eip esp ebp k4)
     }
   }"

text \<open>The busy loop ends when the task is a zombie; \<open>None\<close> is the state in which it does not end.\<close>

definition sys_waitpid :: "int \<Rightarrow> 'd kernel \<Rightarrow> ((int \<times> int) \<times> 'd kernel) option" where
  "sys_waitpid pid k =
    (if pid \<le> 0 \<or> pid \<ge> int NR_TASKS then Some ((err ECHILD, 0), k)
     else let t = tasks k ! nat pid in
       if t_state t \<noteq> TASK_ZOMBIE then None
       else Some ((pid, t_exit_code t), k\<lparr>tasks := (tasks k)[nat pid := t\<lparr>t_pid := NO_TASK\<rparr>]\<rparr>))"

section \<open>Every waiting task runs\<close>

text \<open>An entry of the table holds the process with its number, or none.\<close>

definition table_ok :: "task list \<Rightarrow> bool" where
  "table_ok ts \<longleftrightarrow> length ts = NR_TASKS \<and> (\<forall>i < NR_TASKS. t_pid (ts ! i) = int i \<or> t_pid (ts ! i) = NO_TASK)"

definition sched_ok :: "'d kernel \<Rightarrow> bool" where
  "sched_ok k \<longleftrightarrow> table_ok (tasks k) \<and> current k < NR_TASKS \<and> t_pid (cur k) \<noteq> NO_TASK \<and> t_pid (tasks k ! 0) \<noteq> NO_TASK"

lemma wake_simps [simp]:
  "t_pid (wake t) = t_pid t" "t_files (wake t) = t_files t" "runnable t \<Longrightarrow> runnable (wake t)" "t_cred (wake t) = t_cred t"
  "t_state (wake t) = TASK_ZOMBIE \<longleftrightarrow> t_state t = TASK_ZOMBIE"
  by (simp_all add: wake_def runnable_def)

lemma next_waiting_spec:
  assumes "i \<le> NR_TASKS"
  shows "i \<le> next_waiting ts i \<and> next_waiting ts i \<le> NR_TASKS \<and>
    (next_waiting ts i < NR_TASKS \<longrightarrow> runnable (ts ! next_waiting ts i)) \<and>
    (\<forall>l. i \<le> l \<longrightarrow> l < next_waiting ts i \<longrightarrow> \<not> runnable (ts ! l))"
  using assms
proof (induction ts i rule: next_waiting.induct)
  case (1 ts i)
  show ?case
  proof (cases "i \<ge> NR_TASKS \<or> runnable (ts ! i)")
    case True
    then have "next_waiting ts i = i" by (subst next_waiting.simps) auto
    then show ?thesis using True 1(2) by auto
  next
    case False
    then have "next_waiting ts i = next_waiting ts (Suc i)" by (subst next_waiting.simps) auto
    moreover have "Suc i \<le> next_waiting ts (Suc i) \<and> next_waiting ts (Suc i) \<le> NR_TASKS \<and>
        (next_waiting ts (Suc i) < NR_TASKS \<longrightarrow> runnable (ts ! next_waiting ts (Suc i))) \<and>
        (\<forall>l. Suc i \<le> l \<longrightarrow> l < next_waiting ts (Suc i) \<longrightarrow> \<not> runnable (ts ! l))"
      using 1(1) False by (meson Suc_leI not_le)
    ultimately show ?thesis using False by (metis Suc_leD le_antisym not_less_eq_eq)
  qed
qed

text \<open>The state the scheduler sees, and the entries after the switch.\<close>

definition yielded :: "uint \<Rightarrow> uint \<Rightarrow> uint \<Rightarrow> 'd kernel \<Rightarrow> task list" where
  "yielded eip esp ebp k = map wake ((tasks k)[current k := (cur k)\<lparr>t_eip := eip, t_esp := esp, t_ebp := ebp,
     t_state := (if t_state (cur k) = TASK_RUNNING then TASK_WAITING else t_state (cur k))\<rparr>])"

definition chosen :: "task list \<Rightarrow> nat \<Rightarrow> nat" where
  "chosen ts c = (let i = next_waiting ts (Suc c) in if i = NR_TASKS then 0 else i)"

lemma switch_task_eq:
  assumes "sched_ok k"
  shows "current (switch_task eip esp ebp k) = chosen (yielded eip esp ebp k) (current k)"
    "tasks (switch_task eip esp ebp k) = (yielded eip esp ebp k)[chosen (yielded eip esp ebp k) (current k) :=
       (yielded eip esp ebp k ! chosen (yielded eip esp ebp k) (current k))\<lparr>t_state := TASK_RUNNING\<rparr>]"
proof -
  have c: "current k < length (tasks k)" "t_pid (tasks k ! current k) = int (current k)"
    using assms by (auto simp: sched_ok_def table_ok_def cur_def)
  have "nat (1 + int (current k)) = Suc (current k)" by simp
  then show "current (switch_task eip esp ebp k) = chosen (yielded eip esp ebp k) (current k)"
    "tasks (switch_task eip esp ebp k) = (yielded eip esp ebp k)[chosen (yielded eip esp ebp k) (current k) :=
       (yielded eip esp ebp k ! chosen (yielded eip esp ebp k) (current k))\<lparr>t_state := TASK_RUNNING\<rparr>]"
    using c by (simp_all add: switch_task_def schedule_def set_cur_def cur_def yielded_def chosen_def Let_def add.commute)
qed

lemma yielded_simps:
  assumes "current k < length (tasks k)" "i < length (tasks k)"
  shows "t_pid (yielded eip esp ebp k ! i) = t_pid (tasks k ! i)" "t_files (yielded eip esp ebp k ! i) = t_files (tasks k ! i)"
    "length (yielded eip esp ebp k) = length (tasks k)"
    "t_state (yielded eip esp ebp k ! i) = TASK_ZOMBIE \<longleftrightarrow> t_state (tasks k ! i) = TASK_ZOMBIE"
    "runnable (tasks k ! i) \<Longrightarrow> runnable (yielded eip esp ebp k ! i)"
  using assms by (auto simp: yielded_def nth_list_update cur_def runnable_def wake_def)

lemma chosen_bounds:
  assumes "c < NR_TASKS"
  shows "chosen ts c < NR_TASKS" "chosen ts c = 0 \<or> (c < chosen ts c \<and> runnable (ts ! chosen ts c))"
proof -
  have "Suc c \<le> NR_TASKS" using assms by simp
  note w = next_waiting_spec[OF this, of ts]
  show "chosen ts c < NR_TASKS" using w assms by (simp add: chosen_def Let_def)
  show "chosen ts c = 0 \<or> (c < chosen ts c \<and> runnable (ts ! chosen ts c))" using w by (simp add: chosen_def Let_def)
qed

lemma chosen_progress:
  assumes "c < p" "p < NR_TASKS" "runnable (ts ! p)"
  shows "c < chosen ts c \<and> chosen ts c \<le> p"
proof -
  have "next_waiting ts (Suc c) \<le> p" using next_waiting_spec[of "Suc c" ts] assms by (meson Suc_leI less_le_trans not_le less_imp_le)
  then show ?thesis using next_waiting_spec[of "Suc c" ts] assms by (auto simp: chosen_def Let_def)
qed

lemma switch_sched_ok: "sched_ok k \<Longrightarrow> sched_ok (switch_task eip esp ebp k)"
proof -
  assume ok: "sched_ok k"
  let ?ts = "yielded eip esp ebp k" and ?c = "chosen (yielded eip esp ebp k) (current k)"
  have l: "current k < NR_TASKS" "length (tasks k) = NR_TASKS" "current k < length (tasks k)"
    using ok by (auto simp: sched_ok_def table_ok_def)
  have pid: "t_pid (?ts ! i) = t_pid (tasks k ! i)" if "i < NR_TASKS" for i
    by (rule yielded_simps(1)) (use l that in simp_all)
  have len: "length ?ts = NR_TASKS" using l by (simp add: yielded_def)
  note ch = chosen_bounds[OF l(1), of ?ts]
  have alive: "t_pid (?ts ! ?c) \<noteq> NO_TASK"
    using ch pid[of 0] ok by (auto simp: sched_ok_def runnable_def NR_TASKS_def)
  show ?thesis
    using ok pid len ch(1) alive l by (auto simp: sched_ok_def table_ok_def cur_def switch_task_eq[OF ok] nth_list_update NR_TASKS_def)
qed

text \<open>
  One turn: the current task runs and changes the kernel state into \<open>m\<close>, possibly blocking, forking or
  ending itself, and is then switched away. Only the waiting task \<open>p\<close> is left alone.
\<close>

definition turn :: "nat \<Rightarrow> 'd kernel \<Rightarrow> 'd kernel \<Rightarrow> bool" where
  "turn p k k' \<longleftrightarrow> (\<exists>m eip esp ebp. sched_ok m \<and> current m = current k \<and>
     (runnable (tasks k ! p) \<longrightarrow> runnable (tasks m ! p)) \<and> k' = switch_task eip esp ebp m)"

definition rounds :: "nat \<Rightarrow> nat \<Rightarrow> nat" where
  "rounds p c = (if c \<le> p then p - c else NR_TASKS - c + p)"

lemma turn_progress:
  assumes "turn p k k'" "p < NR_TASKS" "runnable (tasks k ! p)" "current k \<noteq> p"
  shows "rounds p (current k') < rounds p (current k)" "current k' \<noteq> p \<Longrightarrow> runnable (tasks k' ! p)"
proof -
  obtain m eip esp ebp where m: "sched_ok m" "current m = current k" "runnable (tasks m ! p)" "k' = switch_task eip esp ebp m"
    using assms(1,3) by (auto simp: turn_def)
  let ?ts = "yielded eip esp ebp m"
  have l: "current m < NR_TASKS" "length (tasks m) = NR_TASKS" using m(1) by (auto simp: sched_ok_def table_ok_def)
  have r: "runnable (?ts ! p)" by (rule yielded_simps(5)) (use l m(3) assms(2) in simp_all)
  have k': "current k' = chosen ?ts (current m)" using switch_task_eq(1)[OF m(1)] m(4) by simp
  show "rounds p (current k') < rounds p (current k)"
  proof (cases "current k < p")
    case True
    then show ?thesis using chosen_progress[of "current m" p ?ts] r assms(2) k' m(2) by (auto simp: rounds_def)
  next
    case False
    then have "p < current k" using assms(4) by simp
    then show ?thesis using chosen_bounds[OF l(1), of ?ts] k' m(2) l(1) by (auto simp: rounds_def)
  qed
  show "runnable (tasks k' ! p)" if "current k' \<noteq> p"
    using r that k' m(4) switch_task_eq(2)[OF m(1), of eip esp ebp] by simp
qed

text \<open>
  C9: a task that waits for the processor gets it: whatever the other tasks do in their turns, before 64
  switches have passed it is the current task.
\<close>

theorem waiting_task_scheduled:
  assumes "\<forall>j. turn p (ks j) (ks (Suc j))" "p < NR_TASKS" "runnable (tasks (ks 0) ! p)" "current (ks 0) < NR_TASKS"
  shows "\<exists>j < NR_TASKS. current (ks j) = p"
proof -
  have "\<exists>j \<le> n. current (ks (i + j)) = p" if "rounds p (current (ks i)) \<le> n" "runnable (tasks (ks i) ! p) \<or> current (ks i) = p" for n i
    using that
  proof (induction n arbitrary: i)
    case 0
    then show ?case using turn_progress[OF assms(1)[rule_format, of i] assms(2)] by auto
  next
    case (Suc n)
    show ?case
    proof (cases "current (ks i) = p")
      case False
      then have r: "runnable (tasks (ks i) ! p)" using Suc.prems by simp
      note t = turn_progress[OF assms(1)[rule_format, of i] assms(2) r False]
      have "\<exists>j \<le> n. current (ks (Suc i + j)) = p" by (rule Suc.IH) (use t Suc.prems in auto)
      then show ?thesis by (metis Suc_le_mono add_Suc_shift)
    qed auto
  qed
  moreover have "rounds p (current (ks 0)) \<le> NR_TASKS - 1" using assms(2,4) by (auto simp: rounds_def NR_TASKS_def)
  ultimately have "\<exists>j \<le> NR_TASKS - 1. current (ks (0 + j)) = p" using assms(3) by blast
  then show ?thesis by (force simp: NR_TASKS_def)
qed

definition demo_procs :: "unit kernel" where
  "demo_procs = demo_kernel\<lparr>tasks := map (\<lambda>i. (demo_task (replicate 32 None))\<lparr>t_pid := int i, t_state := (if i = 0 then TASK_RUNNING else TASK_WAITING)\<rparr>) [0..<64]\<rparr>"

theorem waiting_task_scheduled_witness:
  "\<exists>j < NR_TASKS. current ((switch_task 0 0 0 ^^ j) demo_procs) = 5"
proof (rule waiting_task_scheduled)
  have ok: "sched_ok demo_procs"
    by (simp add: sched_ok_def table_ok_def demo_procs_def demo_kernel_def cur_def NR_TASKS_def NO_TASK_def)
  have "sched_ok ((switch_task 0 0 0 ^^ j) demo_procs)" for j
    by (induction j) (simp_all add: ok switch_sched_ok)
  then show "\<forall>j. turn 5 ((switch_task 0 0 0 ^^ j) demo_procs) ((switch_task 0 0 0 ^^ Suc j) demo_procs)"
    by (auto simp: turn_def)
  show "runnable (tasks ((switch_task 0 0 0 ^^ 0) demo_procs) ! 5)" "current ((switch_task 0 0 0 ^^ 0) demo_procs) < NR_TASKS" "5 < NR_TASKS"
    by (simp_all add: runnable_def demo_procs_def demo_kernel_def NR_TASKS_def NO_TASK_def)
qed

end
