(* ===== verification/Processes.thy ===== *)
theory Processes
  imports Tasks
begin

text \<open>
  The invariant that ties the task table to the open files, and its preservation by the system calls that
  change them. The kernel's behaviour is a step relation: one step is one system call of the current task
  or one timer interrupt.
\<close>

section \<open>The invariant\<close>

definition dead :: "task \<Rightarrow> bool" where
  "dead t \<longleftrightarrow> t_pid t = NO_TASK \<or> t_state t = TASK_ZOMBIE"

text \<open>Ended tasks hold no descriptor; the current task and task 0 have not ended.\<close>

definition procs_ok :: "'d kernel \<Rightarrow> bool" where
  "procs_ok k \<longleftrightarrow> sched_ok k \<and> (\<forall>i < NR_TASKS. dead (tasks k ! i) \<longrightarrow> t_files (tasks k ! i) = replicate NR_OPEN None) \<and>
     \<not> dead (cur k) \<and> \<not> dead (tasks k ! 0)"

definition kernel_inv :: "'d kernel \<Rightarrow> bool" where
  "kernel_inv k \<longleftrightarrow> files_inv k \<and> procs_ok k"

text \<open>The same while the current task may have ended, just before a switch.\<close>

definition leaving_inv :: "'d kernel \<Rightarrow> bool" where
  "leaving_inv k \<longleftrightarrow> files_inv k \<and> sched_ok k \<and> (\<forall>i < NR_TASKS. dead (tasks k ! i) \<longrightarrow> t_files (tasks k ! i) = replicate NR_OPEN None) \<and>
     \<not> dead (tasks k ! 0)"

lemma kernel_leaving: "kernel_inv k \<longleftrightarrow> leaving_inv k \<and> \<not> dead (cur k)"
  by (auto simp: kernel_inv_def procs_ok_def leaving_inv_def)

section \<open>System calls on files\<close>

text \<open>Calls that leave the processes alone, except for the descriptors of the current one.\<close>

definition same_procs :: "'d kernel \<Rightarrow> 'd kernel \<Rightarrow> bool" where
  "same_procs k k' \<longleftrightarrow> current k' = current k \<and> length (tasks k') = length (tasks k) \<and>
     (\<forall>i < length (tasks k). t_pid (tasks k' ! i) = t_pid (tasks k ! i) \<and> t_state (tasks k' ! i) = t_state (tasks k ! i) \<and>
        (i \<noteq> current k \<longrightarrow> t_files (tasks k' ! i) = t_files (tasks k ! i)))"

lemma same_procs_refl [simp]: "same_procs k k"
  by (simp add: same_procs_def)

lemma same_procs_trans [trans]: "same_procs a b \<Longrightarrow> same_procs b c \<Longrightarrow> same_procs a c"
  by (simp add: same_procs_def)

lemma same_procs_tasks: "tasks k' = tasks k \<Longrightarrow> current k' = current k \<Longrightarrow> same_procs k k'"
  by (simp add: same_procs_def)

lemma same_procs_set_cur:
  "t_pid (g (cur k)) = t_pid (cur k) \<Longrightarrow> t_state (g (cur k)) = t_state (cur k) \<Longrightarrow> same_procs k (set_cur g k)"
  by (auto simp: same_procs_def set_cur_def cur_def) (metis nth_list_update_eq nth_list_update_neq)+

lemma procs_ok_same:
  assumes "procs_ok k" "same_procs k k'"
  shows "procs_ok k'"
proof -
  have s: "sched_ok k" "length (tasks k) = NR_TASKS" "current k < NR_TASKS" "current k' = current k"
    using assms by (auto simp: procs_ok_def sched_ok_def table_ok_def same_procs_def)
  have p: "t_pid (tasks k' ! i) = t_pid (tasks k ! i)" "t_state (tasks k' ! i) = t_state (tasks k ! i)"
    "i \<noteq> current k \<Longrightarrow> t_files (tasks k' ! i) = t_files (tasks k ! i)" if "i < NR_TASKS" for i
    using assms(2) s(2) that by (auto simp: same_procs_def)
  have d: "dead (tasks k' ! i) = dead (tasks k ! i)" if "i < NR_TASKS" for i using p[OF that] by (simp add: dead_def)
  have z: "0 < NR_TASKS" by (simp add: NR_TASKS_def)
  have "sched_ok k'" using assms s p z by (simp add: sched_ok_def table_ok_def cur_def same_procs_def)
  moreover have "t_files (tasks k' ! i) = replicate NR_OPEN None" if "i < NR_TASKS" "dead (tasks k' ! i)" for i
  proof -
    have "i \<noteq> current k" using that d assms(1) s(3) by (auto simp: procs_ok_def cur_def)
    then show ?thesis using that d p assms(1) by (simp add: procs_ok_def)
  qed
  ultimately show ?thesis using assms(1) d s z by (simp add: procs_ok_def cur_def)
qed

lemma put_file_same: "put_file fop f k = Some k' \<Longrightarrow> same_procs k k'"
  by (rule same_procs_tasks) (auto simp: put_file_def set_file_def split: bind_splits if_splits)

lemma same_procs_set_cur_trans:
  "same_procs (set_cur g k) k' \<Longrightarrow> t_pid (g (cur k)) = t_pid (cur k) \<Longrightarrow> t_state (g (cur k)) = t_state (cur k) \<Longrightarrow> same_procs k k'"
  using same_procs_set_cur same_procs_trans by blast

lemma sys_close_same: "sys_close fop fd k = Some (r, k') \<Longrightarrow> same_procs k k'"
  by (auto simp: sys_close_def split: if_splits option.splits dest!: put_file_same dest: same_procs_set_cur_trans)

lemma set_file_same [simp]: "same_procs k (set_file f x k)"
  by (rule same_procs_tasks) (simp_all add: set_file_def)

lemma sys_dup2_same: "sys_dup2 fop fd fd2 k = Some (r, k') \<Longrightarrow> same_procs k k'"
  by (auto simp: sys_dup2_def split: if_splits bind_splits
      intro!: same_procs_trans[OF sys_close_same same_procs_trans[OF same_procs_set_cur set_file_same]])

lemma k_namei_same: "k_namei lk name k = Some (r, k1) \<Longrightarrow> same_procs k k1"
  by (rule same_procs_tasks) (auto dest: k_namei_frame)

lemma sys_open_same:
  assumes "sys_open lk fop name flag k = Some (r, k')" shows "same_procs k k'"
proof (cases "free_fd (t_files (cur k)) \<ge> NR_OPEN")
  case False
  then obtain r1 k1 where k1: "k_namei lk name k = Some (r1, k1)"
    using assms by (cases "k_namei lk name k") (auto simp: sys_open_def Let_def)
  show ?thesis
  proof (cases r1)
    case (Inr n)
    let ?k2 = "k1\<lparr>next_file := Suc (next_file k1), kdev := snd (open_fs fop n (kdev k1))\<rparr>"
    have "same_procs k1 ?k2" by (rule same_procs_tasks) simp_all
    then show ?thesis using assms False k1 Inr
      by (auto simp: sys_open_def Let_def split: bind_splits
          intro!: same_procs_trans[OF k_namei_same[OF k1] same_procs_trans[OF _ same_procs_trans[OF set_file_same same_procs_set_cur]]])
  qed (use assms False k1 in \<open>auto simp: sys_open_def Let_def intro: k_namei_same\<close>)
qed (use assms in \<open>simp add: sys_open_def\<close>)

lemmas file_call_same = sys_close_same sys_dup2_same sys_open_same

lemma kernel_inv_file_call:
  "kernel_inv k \<Longrightarrow> sys_close fop fd k = Some (r, k') \<Longrightarrow> kernel_inv k'"
  "kernel_inv k \<Longrightarrow> sys_dup2 fop fd fd2 k = Some (r, k') \<Longrightarrow> kernel_inv k'"
  "kernel_inv k \<Longrightarrow> sys_open lk fop name flag k = Some (r, k') \<Longrightarrow> kernel_inv k'"
  by (auto simp: kernel_inv_def dest: sys_close_inv sys_dup2_inv sys_open_inv file_call_same intro: procs_ok_same)

lemma sys_dup_inv: "kernel_inv k \<Longrightarrow> sys_dup fop fd k = Some (r, k') \<Longrightarrow> kernel_inv k'"
  by (auto simp: sys_dup_def Let_def split: if_splits intro: kernel_inv_file_call)

section \<open>Calls that leave the descriptors alone\<close>

lemma refs_map: "map t_files ts' = map t_files ts \<Longrightarrow> refs ts' = refs ts"
  by (simp add: refs_def fun_eq_iff)

lemma files_inv_same_files:
  assumes "files_inv k" "map t_files (tasks k') = map t_files (tasks k)" "current k' < NR_TASKS" "fstore k' = fstore k" "next_file k' = next_file k"
  shows "files_inv k'"
proof -
  have l: "length (tasks k') = length (tasks k)" using assms(2) by (metis length_map)
  have "length (t_files t) = NR_OPEN" if "t \<in> set (tasks k')" for t
  proof -
    have "t_files t \<in> set (map t_files (tasks k))" using that assms(2) by (metis image_eqI image_set)
    then show ?thesis using assms(1) by (auto simp: files_inv_def tables_ok_def)
  qed
  then show ?thesis using assms l refs_map[OF assms(2)]
    by (simp add: files_inv_def tables_ok_def counts_ok_def cong: option.case_cong)
qed

lemma counts_same:
  fixes k k' :: "'d kernel"
  shows "kernel_inv k \<Longrightarrow> tasks k' = tasks k \<Longrightarrow> current k' = current k \<Longrightarrow> next_file k' = next_file k \<Longrightarrow>
   fstore k' = (fstore k)(f \<mapsto> y) \<Longrightarrow> fstore k f = Some x \<Longrightarrow> f_count y = f_count x \<Longrightarrow> kernel_inv k'"
proof -
  assume a: "kernel_inv k" "tasks k' = tasks k" "current k' = current k" "next_file k' = next_file k" "fstore k' = (fstore k)(f \<mapsto> y)"
    "fstore k f = Some x" "f_count y = f_count x"
  have c: "counts_ok k" "tables_ok k" using a(1) by (simp_all add: kernel_inv_def files_inv_def)
  have "counts_ok k'"
    by (rule counts_okI) (use a counts_ok_None[OF c(1)] counts_ok_Some[OF c(1)] in \<open>auto split: if_splits\<close>)
  moreover have "procs_ok k'" using procs_ok_same[of k k'] same_procs_tasks[of k' k] a by (simp add: kernel_inv_def)
  ultimately show "kernel_inv k'" using a(2,3) c(2) by (simp add: kernel_inv_def files_inv_def tables_ok_def)
qed

lemma advance_count [simp]: "f_count (advance v x r) = f_count x"
  by (simp add: advance_def)

lemma sys_read_inv: "kernel_inv k \<Longrightarrow> sys_read fop fd sz k = Some (r, k') \<Longrightarrow> kernel_inv k'"
  by (auto simp: sys_read_def set_file_def split: option.splits bind_splits if_splits prod.splits intro: counts_same)

lemma sys_write_inv: "kernel_inv k \<Longrightarrow> sys_write fop fd buf k = Some (r, k') \<Longrightarrow> kernel_inv k'"
  by (auto simp: sys_write_def set_file_def split: option.splits bind_splits if_splits prod.splits intro: counts_same)

lemma leaving_switch:
  assumes "leaving_inv k" shows "kernel_inv (switch_task eip esp ebp k)"
proof -
  let ?k = "switch_task eip esp ebp k" and ?ts = "yielded eip esp ebp k" and ?c = "chosen (yielded eip esp ebp k) (current k)"
  have ok: "sched_ok k" "files_inv k" using assms by (auto simp: leaving_inv_def)
  have l: "current k < NR_TASKS" "length (tasks k) = NR_TASKS" "length ?ts = NR_TASKS" using ok by (auto simp: sched_ok_def table_ok_def yielded_def)
  have y: "t_files (?ts ! i) = t_files (tasks k ! i)" "t_pid (?ts ! i) = t_pid (tasks k ! i)"
    "t_state (?ts ! i) = TASK_ZOMBIE \<longleftrightarrow> t_state (tasks k ! i) = TASK_ZOMBIE" if "i < NR_TASKS" for i
    by (rule yielded_simps; use l that in simp)+
  note c = chosen_bounds[OF l(1), of ?ts]
  have k': "tasks ?k = ?ts[?c := (?ts ! ?c)\<lparr>t_state := TASK_RUNNING\<rparr>]" "current ?k = ?c" using switch_task_eq[OF ok(1)] by simp_all
  have d: "dead (tasks ?k ! i) \<longrightarrow> dead (tasks k ! i)" "t_files (tasks ?k ! i) = t_files (tasks k ! i)" if "i < NR_TASKS" for i
    using y[OF that] c(1) l(3) that by (auto simp: k' dead_def nth_list_update)
  have "map t_files (tasks ?k) = map t_files (tasks k)" using d(2) l k' by (auto intro: nth_equalityI)
  moreover have "fstore ?k = fstore k" "next_file ?k = next_file k" by (simp_all add: switch_task_def schedule_def set_cur_def Let_def)
  ultimately have "files_inv ?k" by (intro files_inv_same_files[OF ok(2)]) (simp_all add: k'(2) c(1))
  moreover have "sched_ok ?k" using switch_sched_ok[OF ok(1)] .
  moreover have "\<not> dead (cur ?k)" using \<open>sched_ok ?k\<close> c(1) l(3) by (simp add: sched_ok_def dead_def cur_def k')
  moreover have "\<not> dead (tasks ?k ! 0)" using d(1)[of 0] assms by (auto simp: leaving_inv_def NR_TASKS_def)
  ultimately show ?thesis using d assms by (auto simp: kernel_inv_def procs_ok_def leaving_inv_def)
qed

text \<open>A change of the table that keeps the number, the state and the descriptors of every task.\<close>

definition core :: "task \<Rightarrow> int \<times> task_state \<times> nat option list" where
  "core t = (t_pid t, t_state t, t_files t)"

lemma map_core_nth:
  assumes "map core ts' = map core ts" "i < length ts"
  shows "t_pid (ts' ! i) = t_pid (ts ! i)" "t_state (ts' ! i) = t_state (ts ! i)" "t_files (ts' ! i) = t_files (ts ! i)" "dead (ts' ! i) = dead (ts ! i)"
proof -
  have "length ts' = length ts" using assms(1) by (metis length_map)
  then have "core (ts' ! i) = core (ts ! i)" using assms by (metis nth_map)
  then show "t_pid (ts' ! i) = t_pid (ts ! i)" "t_state (ts' ! i) = t_state (ts ! i)" "t_files (ts' ! i) = t_files (ts ! i)" "dead (ts' ! i) = dead (ts ! i)"
    by (auto simp: core_def dead_def)
qed

lemma leaving_core:
  fixes k k' :: "'d kernel"
  assumes inv: "leaving_inv k" and m: "map core (tasks k') = map core (tasks k)"
    and e: "current k' = current k" "fstore k' = fstore k" "next_file k' = next_file k"
  shows "leaving_inv k'" "dead (cur k') = dead (cur k)"
proof -
  have l: "length (tasks k) = NR_TASKS" "current k < NR_TASKS" "length (tasks k') = NR_TASKS"
    using inv map_eq_imp_length_eq[OF m] by (auto simp: leaving_inv_def sched_ok_def table_ok_def)
  note n = map_core_nth[OF m, unfolded l(1)]
  have mf: "map t_files (tasks k') = map t_files (tasks k)" by (rule nth_equalityI) (simp_all add: l n(3))
  have "files_inv k" using inv by (simp add: leaving_inv_def)
  then have "files_inv k'" by (rule files_inv_same_files[OF _ mf _ e(2,3)]) (simp add: e(1) l(2))
  moreover have z: "0 < NR_TASKS" by (simp add: NR_TASKS_def)
  have "sched_ok k" using inv by (simp add: leaving_inv_def)
  then have "sched_ok k'" using n(1) l e z by (simp add: sched_ok_def table_ok_def cur_def)
  moreover have "t_files (tasks k' ! i) = replicate NR_OPEN None" if "i < NR_TASKS" "dead (tasks k' ! i)" for i
    using inv n(3,4) that by (simp add: leaving_inv_def)
  moreover have "\<not> dead (tasks k' ! 0)" using inv n(4)[OF z] by (simp add: leaving_inv_def)
  ultimately show "leaving_inv k'" unfolding leaving_inv_def by blast
  show "dead (cur k') = dead (cur k)" using n(4) l(2) e(1) by (simp add: cur_def)
qed

lemma core_signal: "send_signal me sign t = (r, t') \<Longrightarrow> core t' = core t"
  by (auto simp: send_signal_def core_def split: if_splits)

lemma core_signal_tasks: "signal_tasks me sign sel ts = (ts', r) \<Longrightarrow> map core ts' = map core ts"
  by (induction ts arbitrary: ts' r) (auto split: prod.splits if_splits simp: Let_def core_signal)

lemma map_core_update: "core t = core (ts ! i) \<Longrightarrow> map core (ts[i := t]) = map core ts"
  by (metis list_update_id map_update)

lemma sys_kill_core:
  assumes "sys_kill pid sign k = (r, k')"
  shows "map core (tasks k') = map core (tasks k)" "current k' = current k" "fstore k' = fstore k" "next_file k' = next_file k"
proof -
  have a: "map core (tasks (snd (signal_all sign sel k))) = map core (tasks k) \<and> current (snd (signal_all sign sel k)) = current k \<and>
      fstore (snd (signal_all sign sel k)) = fstore k \<and> next_file (snd (signal_all sign sel k)) = next_file k" for sel
    using core_signal_tasks[of "t_cred (cur k)" sign sel "tasks k"] by (auto simp: signal_all_def split: prod.splits)
  have u: "map core ((tasks k)[i := t]) = map core (tasks k)" if "send_signal me sign (tasks k ! i) = (x, t)" for me i x t
    using map_core_update core_signal[OF that] by blast
  have "k' = snd (sys_kill pid sign k)" using assms by simp
  then show "map core (tasks k') = map core (tasks k)" "current k' = current k" "fstore k' = fstore k" "next_file k' = next_file k"
    using a u by (auto simp: sys_kill_def Let_def split: prod.splits if_splits)
qed

lemma sys_kill_inv: "kernel_inv k \<Longrightarrow> sys_kill pid sign k = (r, k') \<Longrightarrow> kernel_inv k'"
  using leaving_core[of k k'] sys_kill_core[of pid sign k r k'] by (simp add: kernel_leaving)

text \<open>A new state of the current task.\<close>

lemma set_state_leaving:
  assumes inv: "kernel_inv k" and s: "st = TASK_ZOMBIE \<Longrightarrow> t_files (cur k) = replicate NR_OPEN None \<and> current k \<noteq> 0"
  shows "leaving_inv (set_cur (\<lambda>t. t\<lparr>t_state := st, t_exit_code := e t\<rparr>) k)"
proof -
  let ?k = "set_cur (\<lambda>t. t\<lparr>t_state := st, t_exit_code := e t\<rparr>) k"
  have lv: "leaving_inv k" "\<not> dead (cur k)" using inv by (simp_all add: kernel_leaving)
  have ok: "sched_ok k" "files_inv k" using lv(1) by (simp_all add: leaving_inv_def)
  have l: "length (tasks k) = NR_TASKS" "current k < NR_TASKS" using ok by (auto simp: sched_ok_def table_ok_def)
  have z: "0 < NR_TASKS" by (simp add: NR_TASKS_def)
  have n: "t_pid (tasks ?k ! i) = t_pid (tasks k ! i)" "t_files (tasks ?k ! i) = t_files (tasks k ! i)"
    "i \<noteq> current k \<Longrightarrow> tasks ?k ! i = tasks k ! i" if "i < NR_TASKS" for i
    using that l by (auto simp: set_cur_def cur_def nth_list_update)
  have c: "current ?k = current k" "fstore ?k = fstore k" "next_file ?k = next_file k" "length (tasks ?k) = NR_TASKS"
    using l by (simp_all add: set_cur_def)
  have mf: "map t_files (tasks ?k) = map t_files (tasks k)" by (rule nth_equalityI) (simp_all add: l c n(2))
  have "files_inv ?k" by (rule files_inv_same_files[OF ok(2) mf _ c(2,3)]) (simp add: c(1) l(2))
  moreover have "sched_ok ?k" using ok(1) n(1) c l z by (simp add: sched_ok_def table_ok_def cur_def)
  moreover have "t_files (tasks ?k ! i) = replicate NR_OPEN None" if "i < NR_TASKS" "dead (tasks ?k ! i)" for i
  proof (cases "i = current k")
    case True
    then have "st = TASK_ZOMBIE" using that lv(2) l by (auto simp: set_cur_def cur_def dead_def)
    then show ?thesis using s True n(2)[OF that(1)] by (simp add: cur_def)
  next
    case False
    then show ?thesis using that n lv(1) by (simp add: leaving_inv_def)
  qed
  moreover have "\<not> dead (tasks ?k ! 0)"
  proof (cases "current k = 0")
    case True
    then have "st \<noteq> TASK_ZOMBIE" using s by blast
    then show ?thesis using True lv(2) l by (auto simp: set_cur_def cur_def dead_def)
  next
    case False
    then show ?thesis using n(3)[OF z] lv(1) by (simp add: leaving_inv_def)
  qed
  ultimately show ?thesis unfolding leaving_inv_def by blast
qed

lemma sys_pause_inv: "kernel_inv k \<Longrightarrow> kernel_inv (sys_pause eip esp ebp k)"
  using leaving_switch[OF set_state_leaving[of k TASK_BLOCKED t_exit_code]] by (simp add: sys_pause_def)

lemma timer_inv: "kernel_inv k \<Longrightarrow> kernel_inv (switch_task eip esp ebp k)"
  by (simp add: kernel_leaving leaving_switch[unfolded kernel_leaving])

lemma sys_waitpid_inv:
  assumes inv: "kernel_inv k" and w: "sys_waitpid pid k = Some (r, k')"
  shows "kernel_inv k'"
proof (cases "pid \<le> 0 \<or> pid \<ge> int NR_TASKS")
  case True
  then show ?thesis using w inv by (auto simp: sys_waitpid_def split: if_splits)
next
  case False
  let ?p = "nat pid"
  have p: "?p < NR_TASKS" "0 < ?p" using False by auto
  have zk: "t_state (tasks k ! ?p) = TASK_ZOMBIE" and k': "k' = k\<lparr>tasks := (tasks k)[?p := (tasks k ! ?p)\<lparr>t_pid := NO_TASK\<rparr>]\<rparr>"
    using w False by (auto simp: sys_waitpid_def Let_def split: if_splits)
  have lv: "leaving_inv k" "\<not> dead (cur k)" using inv by (simp_all add: kernel_leaving)
  have ok: "sched_ok k" "files_inv k" using lv(1) by (simp_all add: leaving_inv_def)
  have l: "length (tasks k) = NR_TASKS" "current k < NR_TASKS" using ok by (auto simp: sched_ok_def table_ok_def)
  have ne: "current k \<noteq> ?p" using zk lv(2) by (auto simp: dead_def cur_def)
  have length_k': "length (tasks k') = NR_TASKS" using l by (simp add: k')
  have n: "t_files (tasks k' ! i) = t_files (tasks k ! i)" "i \<noteq> ?p \<Longrightarrow> tasks k' ! i = tasks k ! i" if "i < NR_TASKS" for i
    using that l p by (auto simp: k' nth_list_update)
  have mf: "map t_files (tasks k') = map t_files (tasks k)" by (rule nth_equalityI) (simp_all add: l n(1) length_k')
  have "files_inv k'" by (rule files_inv_same_files[OF ok(2) mf]) (simp_all add: k' l)
  moreover have "sched_ok k'" using ok(1) p ne l by (auto simp: sched_ok_def table_ok_def cur_def k' nth_list_update)
  moreover have "t_files (tasks k' ! i) = replicate NR_OPEN None" if "i < NR_TASKS" "dead (tasks k' ! i)" for i
  proof -
    have "dead (tasks k ! i)" using that n(2)[OF that(1)] zk by (cases "i = ?p") (auto simp: dead_def)
    then show ?thesis using n(1)[OF that(1)] lv(1) that(1) by (simp add: leaving_inv_def)
  qed
  moreover have "\<not> dead (tasks k' ! 0)" "\<not> dead (cur k')" using lv p ne by (auto simp: leaving_inv_def k' cur_def)
  ultimately show ?thesis unfolding kernel_leaving leaving_inv_def by blast
qed

section \<open>Ending a process\<close>

lemma close_all_inv:
  assumes "kernel_inv k" "close_all fop n k = Some k'" "n \<le> NR_OPEN"
  shows "kernel_inv k' \<and> current k' = current k \<and> length (t_files (cur k')) = NR_OPEN \<and>
    (\<forall>i < NR_OPEN. t_files (cur k') ! i = (if i < n then None else t_files (cur k) ! i))"
  using assms
proof (induction n arbitrary: k)
  case 0
  have "tables_ok k" using 0(1) by (simp add: kernel_inv_def files_inv_def)
  then show ?case using 0 cur_in by (auto simp: tables_ok_def)
next
  case (Suc n)
  obtain r k1 where k1: "sys_close fop (int n) k = Some (r, k1)" "close_all fop n k1 = Some k'"
    using Suc.prems(2) by (auto split: bind_splits)
  have i1: "kernel_inv k1" using kernel_inv_file_call(1)[OF Suc.prems(1) k1(1)] .
  have "tables_ok k" using Suc.prems(1) by (simp add: kernel_inv_def files_inv_def)
  then have len: "length (t_files (cur k)) = NR_OPEN" using cur_in by (auto simp: tables_ok_def)
  have c: "current k1 = current k" "t_files (cur k1) = (t_files (cur k))[n := None]"
    using sys_close_inv[OF _ k1(1)] Suc.prems(1,3) by (auto simp: kernel_inv_def)
  have n: "n \<le> NR_OPEN" using Suc.prems(3) by simp
  have IH: "kernel_inv k'" "current k' = current k1" "length (t_files (cur k')) = NR_OPEN"
      "\<And>i. i < NR_OPEN \<Longrightarrow> t_files (cur k') ! i = (if i < n then None else t_files (cur k1) ! i)"
    using Suc.IH[OF i1 k1(2) n] by auto
  have "t_files (cur k') ! i = (if i < Suc n then None else t_files (cur k) ! i)" if "i < NR_OPEN" for i
    using IH(4)[OF that] c(2) len that by (auto simp: nth_list_update)
  then show ?case using IH(1-3) c(1) by auto
qed

lemma sys_exit_inv:
  assumes inv: "kernel_inv k" and x: "sys_exit fop status eip esp ebp k = Some k'"
  shows "kernel_inv k'"
proof -
  let ?k1 = "k\<lparr>tasks := map (\<lambda>t. if t_pid t \<noteq> NO_TASK \<and> t_parent t = t_pid (cur k) then t\<lparr>t_parent := INIT_PID\<rparr> else t) (tasks k)\<rparr>"
  have m: "map core (tasks ?k1) = map core (tasks k)" by (simp add: core_def)
  have i1: "kernel_inv ?k1" using leaving_core[OF _ m] inv by (simp add: kernel_leaving)
  obtain k2 where k2: "close_all fop NR_OPEN ?k1 = Some k2" "t_pid (cur k2) \<noteq> 0"
    using x by (auto simp: sys_exit_def Let_def split: bind_splits if_splits)
  have c: "kernel_inv k2" "length (t_files (cur k2)) = NR_OPEN" "\<And>i. i < NR_OPEN \<Longrightarrow> t_files (cur k2) ! i = None"
    using close_all_inv[OF i1 k2(1)] by auto
  have e: "t_files (cur k2) = replicate NR_OPEN None" by (rule nth_equalityI) (simp_all add: c)
  have nz: "current k2 \<noteq> 0" using k2(2) c(1) by (auto simp: kernel_inv_def procs_ok_def sched_ok_def table_ok_def cur_def NR_TASKS_def)
  let ?k3 = "set_cur (\<lambda>t. t\<lparr>t_state := TASK_ZOMBIE, t_exit_code := status\<rparr>) k2"
  have l3: "leaving_inv ?k3" using set_state_leaving[OF c(1), of TASK_ZOMBIE "\<lambda>_. status"] e nz by simp
  obtain r k4 where k4: "sys_kill (t_parent (cur ?k3)) SIGCHLD ?k3 = (r, k4)" by (cases "sys_kill (t_parent (cur ?k3)) SIGCHLD ?k3")
  have "leaving_inv k4" using leaving_core(1)[OF l3 sys_kill_core[OF k4]] .
  moreover have "k' = switch_task eip esp ebp k4" using x k2 k4 by (simp add: sys_exit_def Let_def)
  ultimately show ?thesis using leaving_switch by blast
qed

section \<open>Creating a process\<close>

lemma count_files_eq:
  "count_files fs fm = Some fm' \<Longrightarrow>
     fm' f = map_option (\<lambda>x. x\<lparr>f_count := f_count x + of_nat (count_list fs (Some f))\<rparr>) (fm f)"
proof (induction fs fm arbitrary: fm' rule: count_files.induct)
  case (3 g fs fm)
  then obtain fm1 x where "count_files fs fm = Some fm1" "fm1 g = Some x" "fm' = fm1(g \<mapsto> x\<lparr>f_count := f_count x + 1\<rparr>)"
    by (auto split: bind_splits)
  then show ?case using 3 by (cases "fm f") (auto simp: algebra_simps)
qed (auto simp: map_option.identity)

lemma count_None [simp]: "count_list (replicate n (None :: nat option)) (Some f) = 0"
  by (simp add: count_list_0_iff)

lemma sys_fork_inv:
  assumes inv: "kernel_inv k" and w: "sys_fork dir stack eip esp ebp k = Some (r, k')"
  shows "kernel_inv k'"
proof (cases "free_task (tasks k) \<ge> NR_TASKS")
  case True
  then show ?thesis using w inv by (simp add: sys_fork_def)
next
  case False
  let ?i = "free_task (tasks k)" and ?p = "(cur k)\<lparr>t_kernel_stack := stack\<rparr>"
  let ?child = "(cur k)\<lparr>t_pid := int ?i, t_exit_code := 0, t_state := TASK_WAITING, t_parent := t_pid (cur k), t_directory := dir,
     t_signals := 0, t_esp := esp, t_ebp := ebp, t_eip := eip\<rparr>"
  have lv: "leaving_inv k" "\<not> dead (cur k)" using inv by (simp_all add: kernel_leaving)
  have ok: "sched_ok k" "tables_ok k" "counts_ok k" using lv(1) by (simp_all add: leaving_inv_def files_inv_def)
  have l: "length (tasks k) = NR_TASKS" "current k < NR_TASKS" using ok by (auto simp: sched_ok_def table_ok_def)
  have np: "t_pid (tasks k ! ?i) = NO_TASK"
    using nth_length_takeWhile[of "\<lambda>t. t_pid t \<noteq> NO_TASK" "tasks k"] False l by (simp add: free_task_def)
  then have i: "?i < NR_TASKS" "dead (tasks k ! ?i)" "t_files (tasks k ! ?i) = replicate NR_OPEN None" "?i \<noteq> current k"
    using False lv by (auto simp: dead_def leaving_inv_def cur_def)
  have i0: "?i \<noteq> 0" using np lv(1) by (metis dead_def leaving_inv_def)
  obtain fm where fm: "count_files (t_files (cur k)) (fstore k) = Some fm" and k': "tasks k' = (tasks k)[current k := ?p, ?i := ?child]"
      "current k' = current k" "fstore k' = fm" "next_file k' = next_file k"
    using w False i(1,4) l by (auto simp: sys_fork_def Let_def set_cur_def cur_def list_update_swap[of "free_task (tasks k)"] split: bind_splits)
  have rf: "refs (tasks k') f = refs (tasks k) f + count_list (t_files (cur k)) (Some f)" for f
    using refs_update[of ?i "(tasks k)[current k := ?p]" ?child f] refs_update[of "current k" "tasks k" ?p f] i l by (simp add: k' cur_def)
  have n: "tasks k' ! j = (if j = ?i then ?child else if j = current k then ?p else tasks k ! j)" if "j < NR_TASKS" for j
    using that i l by (auto simp: k' nth_list_update)
  have "length (t_files t) = NR_OPEN" if "t \<in> set (tasks k')" for t
  proof -
    obtain j where j: "j < NR_TASKS" "t = tasks k' ! j" using \<open>t \<in> set (tasks k')\<close> l by (auto simp: in_set_conv_nth k')
    have "length (t_files u) = NR_OPEN" if "u = cur k \<or> u = tasks k ! j" for u
      using that ok(2) cur_in[OF ok(2)] j(1) by (auto simp: tables_ok_def)
    then show ?thesis using n[OF j(1)] j(2) by simp
  qed
  then have t': "tables_ok k'" using l by (simp add: tables_ok_def k')
  have "counts_ok k'"
  proof (rule counts_okI)
    show "refs (tasks k') f = 0" if "fstore k' f = None" for f
    proof -
      have f: "fstore k f = None" using that count_files_eq[OF fm, of f] by (simp add: k')
      then have "refs (tasks k) f = 0" using counts_ok_None[OF ok(3)] by blast
      moreover from this have "count_list (t_files (cur k)) (Some f) = 0"
        using cur_in[OF ok(2)] by (auto simp: refs_def count_list_0_iff)
      ultimately show ?thesis using rf by simp
    qed
    show "f < next_file k' \<and> refs (tasks k') f \<noteq> 0 \<and> unat (f_count x) = refs (tasks k') f" if fx: "fstore k' f = Some x" for f x
    proof -
      obtain y where y: "fstore k f = Some y" "x = y\<lparr>f_count := f_count y + of_nat (count_list (t_files (cur k)) (Some f))\<rparr>"
        using fx count_files_eq[OF fm, of f] by (auto simp: k')
      note c = counts_ok_Some[OF ok(3) y(1)]
      have b: "refs (tasks k') f < 2 ^ LENGTH(32)" using refs_bound[OF t', of f] by simp
      have "f_count y = of_nat (unat (f_count y))" by simp
      then have "f_count y = of_nat (refs (tasks k) f)" using c by simp
      then have "f_count x = of_nat (refs (tasks k) f + count_list (t_files (cur k)) (Some f))" using y(2) by simp
      then have "f_count x = of_nat (refs (tasks k') f)" using rf by simp
      then have "unat (f_count x) = refs (tasks k') f" using b by (simp only: unsigned_of_nat take_bit_nat_eq_self of_nat_id)
      then show ?thesis using c rf by (simp add: k')
    qed
  qed
  moreover have "sched_ok k'" using ok(1) n l i i0 by (auto simp: sched_ok_def table_ok_def k' cur_def nth_list_update NO_TASK_def)
  moreover have "t_files (tasks k' ! j) = replicate NR_OPEN None" if "j < NR_TASKS" "dead (tasks k' ! j)" for j
    using that n[OF that(1)] lv by (auto simp: leaving_inv_def dead_def NO_TASK_def cur_def split: if_splits)
  moreover have "\<not> dead (tasks k' ! 0)" "\<not> dead (cur k')"
    using n[of 0] n[OF l(2)] lv i i0 k'(2) by (auto simp: leaving_inv_def dead_def cur_def NR_TASKS_def)
  ultimately show ?thesis using t' unfolding kernel_leaving leaving_inv_def files_inv_def by blast
qed

lemma kernel_inv_frame:
  fixes k k' :: "'d kernel"
  assumes "kernel_inv k" "tasks k' = tasks k" "current k' = current k" "fstore k' = fstore k" "next_file k' = next_file k"
  shows "kernel_inv k'"
  using leaving_core[of k k'] assms by (simp add: kernel_leaving)

lemma k_namei_inv: "k_namei lk name k = Some (r, k1) \<Longrightarrow> kernel_inv k \<Longrightarrow> kernel_inv k1"
  using kernel_inv_frame[of k k1] k_namei_frame[of lk name k r k1] by simp

lemma set_cred_inv:
  assumes "kernel_inv k" shows "kernel_inv (set_cur (\<lambda>t. t\<lparr>t_cred := c t\<rparr>) k)"
proof -
  have "map core (tasks (set_cur (\<lambda>t. t\<lparr>t_cred := c t\<rparr>) k)) = map core (tasks k)"
    unfolding set_cur_def by (simp del: map_update add: map_core_update core_def cur_def)
  then show ?thesis using leaving_core[of k "set_cur (\<lambda>t. t\<lparr>t_cred := c t\<rparr>) k"] assms by (simp add: kernel_leaving set_cur_def)
qed

lemma sys_chdir_inv: "kernel_inv k \<Longrightarrow> sys_chdir lk name k = Some (r, k') \<Longrightarrow> kernel_inv k'"
  by (auto simp: sys_chdir_def split: bind_splits sum.splits if_splits) (erule (1) k_namei_inv | rule set_cred_inv, erule (1) k_namei_inv)+

lemma sys_chroot_inv: "kernel_inv k \<Longrightarrow> sys_chroot lk name k = Some (r, k') \<Longrightarrow> kernel_inv k'"
  by (auto simp: sys_chroot_def split: bind_splits sum.splits if_splits) (erule (1) k_namei_inv | rule set_cred_inv, erule (1) k_namei_inv)+

lemma sys_ioctl_inv: "kernel_inv k \<Longrightarrow> sys_ioctl fop fd cmd arg k = Some (r, k') \<Longrightarrow> kernel_inv k'"
  by (auto simp: sys_ioctl_def split: option.splits bind_splits prod.splits intro: kernel_inv_frame)

section \<open>Every run of the kernel\<close>

inductive kstep :: "lookup_op \<Rightarrow> (nat \<Rightarrow> 'd file_operations) \<Rightarrow> 'd kernel \<Rightarrow> 'd kernel \<Rightarrow> bool"
  for lk :: lookup_op and fop :: "nat \<Rightarrow> 'd file_operations" where
  open_step: "sys_open lk fop name flag k = Some (r, k') \<Longrightarrow> kstep lk fop k k'"
| close_step: "sys_close fop fd k = Some (r, k') \<Longrightarrow> kstep lk fop k k'"
| dup_step: "sys_dup fop fd k = Some (r, k') \<Longrightarrow> kstep lk fop k k'"
| dup2_step: "sys_dup2 fop fd fd2 k = Some (r, k') \<Longrightarrow> kstep lk fop k k'"
| read_step: "sys_read fop fd sz k = Some (rb, k') \<Longrightarrow> kstep lk fop k k'"
| write_step: "sys_write fop fd buf k = Some (r, k') \<Longrightarrow> kstep lk fop k k'"
| chdir_step: "sys_chdir lk name k = Some (r, k') \<Longrightarrow> kstep lk fop k k'"
| fork_step: "sys_fork dir stack eip esp ebp k = Some (r, k') \<Longrightarrow> kstep lk fop k k'"
| exit_step: "sys_exit fop status eip esp ebp k = Some k' \<Longrightarrow> kstep lk fop k k'"
| waitpid_step: "sys_waitpid pid k = Some (rs, k') \<Longrightarrow> kstep lk fop k k'"
| kill_step: "sys_kill pid sign k = (r, k') \<Longrightarrow> kstep lk fop k k'"
| pause_step: "kstep lk fop k (sys_pause eip esp ebp k)"
| timer_step: "kstep lk fop k (switch_task eip esp ebp k)"

lemma kstep_inv: "kstep lk fop k k' \<Longrightarrow> kernel_inv k \<Longrightarrow> kernel_inv k'"
  by (induction rule: kstep.induct)
    (blast intro: kernel_inv_file_call sys_dup_inv sys_read_inv sys_write_inv sys_chdir_inv sys_fork_inv sys_exit_inv sys_waitpid_inv
      sys_kill_inv sys_pause_inv timer_inv)+

lemma kernel_inv_counts:
  assumes "kernel_inv k"
  shows "(\<forall>f x. fstore k f = Some x \<longrightarrow> unat (f_count x) = refs (tasks k) f \<and> refs (tasks k) f > 0) \<and>
    (\<forall>t \<in> set (tasks k). \<forall>f. Some f \<in> set (t_files t) \<longrightarrow> fstore k f \<noteq> None \<and> \<not> dead t)"
proof -
  have c: "counts_ok k" "procs_ok k" using assms by (simp_all add: kernel_inv_def files_inv_def)
  have "fstore k f \<noteq> None \<and> \<not> dead t" if t: "t \<in> set (tasks k)" "Some f \<in> set (t_files t)" for t f
  proof -
    have "refs (tasks k) f \<noteq> 0" using t by (auto simp: refs_def count_list_0_iff)
    moreover have "\<not> dead t"
    proof
      assume d: "dead t"
      have "length (tasks k) = NR_TASKS" using c(2) by (simp add: procs_ok_def sched_ok_def table_ok_def)
      then obtain j where "j < NR_TASKS" "t = tasks k ! j" using t(1) by (auto simp: in_set_conv_nth)
      then have "t_files t = replicate NR_OPEN None" using d c(2) by (simp add: procs_ok_def)
      then show False using t(2) by simp
    qed
    ultimately show ?thesis using counts_ok_None[OF c(1), of f] by auto
  qed
  moreover have "unat (f_count x) = refs (tasks k) f \<and> refs (tasks k) f > 0" if "fstore k f = Some x" for f x
    using counts_ok_Some[OF c(1) that] by simp
  ultimately show ?thesis by blast
qed

text \<open>
  C1: whatever sequence of system calls and timer interrupts the kernel executes, the count of every
  \<^verbatim>\<open>FILE\<close> is the number of descriptors that refer to it in all tasks together, no descriptor refers to a
  released \<^verbatim>\<open>FILE\<close>, and a task that has ended holds no descriptor.
\<close>

theorem file_counts_exact:
  assumes "(kstep lk fop)\<^sup>*\<^sup>* k0 k" "kernel_inv k0"
  shows "(\<forall>f x. fstore k f = Some x \<longrightarrow> unat (f_count x) = refs (tasks k) f \<and> refs (tasks k) f > 0) \<and>
    (\<forall>t \<in> set (tasks k). \<forall>f. Some f \<in> set (t_files t) \<longrightarrow> fstore k f \<noteq> None \<and> \<not> dead t)"
proof -
  have "kernel_inv k" using assms by (induction rule: rtranclp_induct) (auto intro: kstep_inv)
  then show ?thesis by (rule kernel_inv_counts)
qed

text \<open>A kernel with one process, which has a file open.\<close>

definition demo_run :: "unit kernel" where
  "demo_run = demo_kernel\<lparr>tasks := demo_task (Some 0 # replicate 31 None) # replicate 63 ((demo_task (replicate 32 None))\<lparr>t_pid := NO_TASK\<rparr>)\<rparr>"

lemma demo_run_inv: "kernel_inv demo_run"
proof -
  have mf: "map t_files (tasks demo_run) = map t_files (tasks demo_kernel)" by (simp add: demo_run_def demo_kernel_def demo_task_def)
  have "files_inv demo_run" by (rule files_inv_same_files[OF demo_files_inv mf]) (simp_all add: demo_run_def demo_kernel_def NR_TASKS_def)
  moreover have n: "tasks demo_run ! i = (if i = 0 then demo_task (Some 0 # replicate 31 None) else (demo_task (replicate 32 None))\<lparr>t_pid := NO_TASK\<rparr>)"
    if "i < NR_TASKS" for i using that by (simp add: demo_run_def NR_TASKS_def nth_Cons')
  have a: "\<not> dead (demo_task (Some 0 # replicate 31 None))" "t_pid (demo_task (Some 0 # replicate 31 None)) = 0"
    by (simp_all add: dead_def demo_task_def NO_TASK_def)
  have l: "length (tasks demo_run) = NR_TASKS" "current demo_run = 0" "0 < NR_TASKS" by (simp_all add: demo_run_def demo_kernel_def NR_TASKS_def)
  have "sched_ok demo_run" using n l a by (auto simp: sched_ok_def table_ok_def cur_def NO_TASK_def)
  moreover have "t_files (tasks demo_run ! i) = replicate NR_OPEN None" if "i < NR_TASKS" "dead (tasks demo_run ! i)" for i
    using n[OF that(1)] that(2) a by (auto simp: NR_OPEN_def demo_task_def)
  ultimately show ?thesis using n[OF l(3)] a l by (simp add: kernel_inv_def procs_ok_def cur_def)
qed

lemma demo_fork: "\<exists>k'. sys_fork 1 0 0 0 0 demo_run = Some (1, k') \<and> fstore k' = [0 \<mapsto> demo_file\<lparr>f_count := 2\<rparr>]"
proof -
  have fi: "free_task (tasks demo_run) = 1"
    by (simp add: free_task_def demo_run_def demo_task_def NO_TASK_def numeral_eq_Suc)
  have "count_files (replicate m None) fm = Some fm" for m fm by (induction m) simp_all
  then have cf: "count_files (Some 0 # replicate 31 None) [0 \<mapsto> demo_file] = Some [0 \<mapsto> demo_file\<lparr>f_count := 2\<rparr>]"
    by (simp add: demo_file_def)
  show ?thesis
    using fi cf by (simp add: sys_fork_def NR_TASKS_def Let_def cur_def demo_run_def demo_kernel_def demo_task_def demo_cred_def bump_opt_def
        bump_def upd_vnode_def demo_tree_def set_cur_def)
qed

theorem file_counts_exact_witness:
  "\<exists>k x. (kstep demo_lk demo_fops)\<^sup>*\<^sup>* demo_run k \<and> fstore k 0 = Some x \<and> unat (f_count x) = 2 \<and> refs (tasks k) 0 = 2"
proof -
  obtain k' where k': "sys_fork 1 0 0 0 0 demo_run = Some (1, k')" "fstore k' = [0 \<mapsto> demo_file\<lparr>f_count := 2\<rparr>]" using demo_fork by blast
  have st: "(kstep demo_lk demo_fops)\<^sup>*\<^sup>* demo_run k'" using fork_step[OF k'(1)] by blast
  have "unat (f_count (demo_file\<lparr>f_count := 2\<rparr>)) = refs (tasks k') 0"
    using file_counts_exact[OF st demo_run_inv] k'(2) by (auto dest!: spec[of _ 0])
  then show ?thesis using st k'(2) by (intro exI[of _ k'] exI[of _ "demo_file\<lparr>f_count := 2\<rparr>"]) simp
qed

end
