(* ===== verification/Exec.thy ===== *)
theory Exec
  imports Memory
begin

text \<open>
  The stack of a new program: \<^verbatim>\<open>write_vector\<close>, \<^verbatim>\<open>new_stack\<close> and \<^verbatim>\<open>make_new_stack\<close> of \<^verbatim>\<open>src/fs/exec.c\<close>. The argument and
  environment vectors are arrays of pointers in memory, as the caller passes them; everything is read from
  and written to one memory. \<open>None\<close> is the use of a null pointer, a vector or string without an end, or a copy
  between overlapping strings, which \<^verbatim>\<open>strncpy\<close> leaves undefined.
\<close>

definition USER_STACK_POS :: nat where "USER_STACK_POS = 0x80000000"
definition USER_STACK_SIZE :: nat where "USER_STACK_SIZE = 0x1000"
definition STACK_NOMEM :: nat where "STACK_NOMEM = 0xFFFFFFFF"
definition PAGE_BYTES :: nat where "PAGE_BYTES = 0x1000"

section \<open>Vectors\<close>

partial_function (option) mem_strlen :: "memory \<Rightarrow> nat \<Rightarrow> nat option" where
  "mem_strlen m a = (if m a = 0 then Some 0 else do { n \<leftarrow> mem_strlen m (a + 1); Some (Suc n) })"

partial_function (option) vec_len :: "memory \<Rightarrow> nat \<Rightarrow> nat option" where
  "vec_len m v = (if load32 m v = 0 then Some 0 else do { n \<leftarrow> vec_len m (v + 4); Some (Suc n) })"

text \<open>The strings are copied from the last to the first, each below the one before.\<close>

fun write_strings :: "nat \<Rightarrow> nat \<Rightarrow> nat \<Rightarrow> memory \<Rightarrow> (nat \<times> memory) option" where
  "write_strings vec 0 buf m = Some (buf, m)"
| "write_strings vec (Suc i) buf m = do {
     let p = load32 m (vec + 4 * i);
     l \<leftarrow> mem_strlen m p;
     let b = sub32 buf (l + 1);
     if b < p + (l + 1) \<and> p < b + (l + 1) then None
     else write_strings vec i b (store_bytes m b (load_bytes m p (l + 1)))
   }"

fun write_ptrs :: "nat \<Rightarrow> nat \<Rightarrow> nat \<Rightarrow> nat \<Rightarrow> memory \<Rightarrow> (nat \<times> memory) option" where
  "write_ptrs vec 0 oldbuf buf m = Some (buf, m)"
| "write_ptrs vec (Suc i) oldbuf buf m = do {
     l \<leftarrow> mem_strlen m (load32 m (vec + 4 * i));
     let ob = sub32 oldbuf (l + 1);
     let b = sub32 buf 4;
     write_ptrs vec i ob b (store32 m b ob)
   }"

definition write_vector :: "nat \<Rightarrow> nat \<Rightarrow> memory \<Rightarrow> (nat \<times> memory) option" where
  "write_vector vec buf m =
    (if vec = 0 then Some (0, m)
     else do {
       n \<leftarrow> vec_len m vec;
       (b1, m1) \<leftarrow> write_strings vec n buf m;
       let b2 = sub32 b1 4;
       write_ptrs vec n buf b2 (store32 m1 b2 0)
     })"

section \<open>The stack\<close>

text \<open>The pages \<^verbatim>\<open>new_stack\<close> requests, from the highest to the lowest; the counter is unsigned.\<close>

partial_function (option) stack_pages :: "nat \<Rightarrow> nat \<Rightarrow> nat list option" where
  "stack_pages i low =
    (if i \<ge> low then do { ps \<leftarrow> stack_pages (sub32 i PAGE_BYTES) low; Some (i # ps) } else Some [])"

definition new_stack :: "nat \<Rightarrow> nat \<Rightarrow> nat list option" where
  "new_stack pos sz = stack_pages pos (sub32 pos sz)"

definition make_new_stack :: "nat \<Rightarrow> nat \<Rightarrow> nat \<Rightarrow> memory \<Rightarrow> (nat \<times> memory) option" where
  "make_new_stack argv envp pos m = do {
     (envs, m1) \<leftarrow> write_vector envp pos m;
     if envs = STACK_NOMEM then Some (STACK_NOMEM, m1)
     else do {
       let esp = (if envs \<noteq> 0 then envs else pos);
       (args, m2) \<leftarrow> write_vector argv esp m1;
       if args = STACK_NOMEM then Some (STACK_NOMEM, m2)
       else if argv = 0 then None
       else do {
         n \<leftarrow> vec_len m2 argv;
         let esp = sub32 (if args \<noteq> 0 then args else esp) 12;
         Some (esp, store32 (store32 (store32 m2 esp n) (esp + 4) args) (esp + 8) envs)
       }
     }
   }"

section \<open>Vectors in memory\<close>

definition string_at :: "memory \<Rightarrow> nat \<Rightarrow> string \<Rightarrow> bool" where
  "string_at m a s \<longleftrightarrow> load_bytes m a (length s) = bytes_of s \<and> m (a + length s) = 0 \<and> NUL \<notin> set s"

definition vec_at :: "memory \<Rightarrow> nat \<Rightarrow> string list \<Rightarrow> bool" where
  "vec_at m v ss \<longleftrightarrow> v \<noteq> 0 \<and> load32 m (v + 4 * length ss) = 0 \<and>
     (\<forall>i < length ss. load32 m (v + 4 * i) \<noteq> 0 \<and> string_at m (load32 m (v + 4 * i)) (ss ! i))"

text \<open>The vector and its strings lie outside an interval.\<close>

definition vec_outside :: "memory \<Rightarrow> nat \<Rightarrow> string list \<Rightarrow> nat \<Rightarrow> nat \<Rightarrow> bool" where
  "vec_outside m v ss lo hi \<longleftrightarrow> (v + 4 * length ss + 4 \<le> lo \<or> hi \<le> v) \<and>
     (\<forall>i < length ss. load32 m (v + 4 * i) + length (ss ! i) + 1 \<le> lo \<or> hi \<le> load32 m (v + 4 * i))"

text \<open>The bytes the strings from the \<open>j\<close>-th on take, and those of the whole vector.\<close>

definition offs :: "string list \<Rightarrow> nat \<Rightarrow> nat" where
  "offs ss j = sum_list (map (\<lambda>s. length s + 1) (drop j ss))"

definition vec_size :: "string list \<Rightarrow> nat" where
  "vec_size ss = offs ss 0 + 4 * length ss + 4"

lemma offs_step: "i < length ss \<Longrightarrow> offs ss i = length (ss ! i) + 1 + offs ss (Suc i)"
  by (simp add: offs_def Cons_nth_drop_Suc[symmetric])

lemma offs_end [simp]: "offs ss (length ss) = 0"
  by (simp add: offs_def)

lemma offs_antimono:
  assumes "i \<le> j" shows "offs ss j \<le> offs ss i"
proof -
  have "drop j ss = drop (j - i) (drop i ss)" using assms by simp
  then have "sum_list (map (\<lambda>s. length s + 1) (drop i ss)) =
      sum_list (map (\<lambda>s. length s + 1) (take (j - i) (drop i ss))) + sum_list (map (\<lambda>s. length s + 1) (drop j ss))"
    by (metis append_take_drop_id map_append sum_list_append)
  then show ?thesis by (simp only: offs_def le_add2)
qed

lemma nth_bytes_of: "i < length s \<Longrightarrow> bytes_of s ! i = 0 \<longleftrightarrow> s ! i = NUL"
proof -
  assume i: "i < length s"
  have "(word_of_nat (of_char c) :: uchar) = 0 \<longleftrightarrow> c = NUL" for c
  proof
    assume "(word_of_nat (of_char c) :: uchar) = 0"
    then have "char_of (unat (word_of_nat (of_char c) :: uchar)) = (char_of (0 :: nat) :: char)" by simp
    then show "c = NUL" unfolding char_byte by (simp add: char_of_def)
  qed simp
  then show ?thesis using i by (simp add: bytes_of_def)
qed

lemma mem_strlen_at: "string_at m a s \<Longrightarrow> mem_strlen m a = Some (length s)"
proof (induction s arbitrary: a)
  case Nil
  then show ?case by (subst mem_strlen.simps) (simp add: string_at_def)
next
  case (Cons c s)
  have l: "load_bytes m a (Suc (length s)) = m a # load_bytes m (a + 1) (length s)"
    by (simp add: load_bytes_def upt_conv_Cons map_Suc_upt[symmetric] del: upt_Suc)
  then have "string_at m (a + 1) s" using Cons.prems by (simp add: string_at_def bytes_of_def)
  moreover have "m a \<noteq> 0" using Cons.prems l nth_bytes_of[of 0 "c # s"] by (auto simp: string_at_def bytes_of_def)
  ultimately show ?case using Cons.IH by (subst mem_strlen.simps) simp
qed

lemma vec_len_at:
  "load32 m (v + 4 * n) = 0 \<Longrightarrow> (\<And>i. i < n \<Longrightarrow> load32 m (v + 4 * i) \<noteq> 0) \<Longrightarrow> vec_len m v = Some n"
proof (induction n arbitrary: v)
  case 0
  then show ?case by (subst vec_len.simps) simp
next
  case (Suc n)
  have "vec_len m (v + 4) = Some n" using Suc.IH[of "v + 4"] Suc.prems(1) Suc.prems(2)[of "Suc i" for i] by (simp add: add.assoc)
  then show ?case using Suc.prems(2)[of 0] by (subst vec_len.simps) simp
qed

text \<open>Strings and vectors survive changes of memory elsewhere.\<close>

lemma string_at_outside:
  assumes "string_at m a s" "same_outside lo hi m m'" "a + length s + 1 \<le> lo \<or> hi \<le> a"
  shows "string_at m' a s"
proof -
  have "load_bytes m' a (length s) = load_bytes m a (length s)" by (rule same_outside_load_bytes[OF assms(2)]) (use assms(3) in auto)
  moreover have "m' (a + length s) = m (a + length s)" using assms(2,3) by (auto simp: same_outside_def)
  ultimately show ?thesis using assms(1) by (simp add: string_at_def)
qed

lemma vec_ptr_outside:
  "vec_outside m v ss lo hi \<Longrightarrow> same_outside lo hi m m' \<Longrightarrow> i \<le> length ss \<Longrightarrow> load32 m' (v + 4 * i) = load32 m (v + 4 * i)"
  by (rule same_outside_load) (auto simp: vec_outside_def)

lemma vec_at_outside:
  assumes v: "vec_at m v ss" and out: "vec_outside m v ss lo hi" and so: "same_outside lo hi m m'"
  shows "vec_at m' v ss"
proof -
  have "string_at m' (load32 m (v + 4 * i)) (ss ! i)" if "i < length ss" for i
    by (rule string_at_outside[OF _ so]) (use v out that in \<open>auto simp: vec_at_def vec_outside_def\<close>)
  then show ?thesis using v vec_ptr_outside[OF out so] by (simp add: vec_at_def)
qed

lemma vec_outside_mono: "vec_outside m v ss lo hi \<Longrightarrow> lo \<le> lo' \<Longrightarrow> hi' \<le> hi \<Longrightarrow> vec_outside m v ss lo' hi'"
  by (fastforce simp: vec_outside_def)

lemma load_store_take: "n \<le> length bs \<Longrightarrow> load_bytes (store_bytes m b bs) b n = take n bs"
  by (rule nth_equalityI) (simp_all add: load_bytes_def store_bytes_def)

lemma string_at_copy:
  assumes "string_at m p s" shows "string_at (store_bytes m b (load_bytes m p (length s + 1))) b s"
proof -
  have bs: "load_bytes m p (length s + 1) = bytes_of s @ [0]" using assms by (simp add: string_at_def load_bytes_def)
  have "store_bytes m b (bytes_of s @ [0]) (b + length s) = 0" by (simp add: store_bytes_def nth_append)
  then show ?thesis using assms load_store_take[of "length s" "bytes_of s @ [0]" m b] unfolding bs by (simp add: string_at_def)
qed

section \<open>Writing a vector\<close>

lemma write_strings_ok:
  assumes v: "vec_at m v ss" and out: "vec_outside m v ss (b - offs ss 0) b" and sz: "offs ss 0 \<le> b" "b < 2 ^ 32"
  shows "i \<le> length ss \<Longrightarrow> same_outside (b - offs ss i) b m mi \<Longrightarrow> (\<And>j. i \<le> j \<Longrightarrow> j < length ss \<Longrightarrow> string_at mi (b - offs ss j) (ss ! j)) \<Longrightarrow>
    \<exists>m'. write_strings v i (b - offs ss i) mi = Some (b - offs ss 0, m') \<and> same_outside (b - offs ss 0) b m m' \<and>
      (\<forall>j < length ss. string_at m' (b - offs ss j) (ss ! j))"
proof (induction i arbitrary: mi)
  case (Suc i)
  let ?p = "load32 m (v + 4 * i)" and ?s = "ss ! i"
  have i: "i < length ss" using Suc.prems(1) by simp
  have o: "offs ss (Suc i) = offs ss i - (length ?s + 1)" "length ?s + 1 + offs ss (Suc i) = offs ss i" "offs ss i \<le> offs ss 0" "offs ss (Suc i) \<le> offs ss 0"
    using offs_step[OF i] offs_antimono[of 0 i ss] offs_antimono[of 0 "Suc i" ss] by simp_all
  have so: "same_outside (b - offs ss 0) b m mi" using Suc.prems(2) o(4) by (auto simp: same_outside_def)
  have p: "load32 mi (v + 4 * i) = ?p" using vec_ptr_outside[OF out so] i by simp
  have po: "?p + length ?s + 1 \<le> b - offs ss 0 \<or> b \<le> ?p" using out i by (simp add: vec_outside_def)
  have st: "string_at mi ?p ?s" by (rule string_at_outside[OF _ so po]) (use v i in \<open>simp add: vec_at_def\<close>)
  have b: "sub32 (b - offs ss (Suc i)) (Suc (length ?s)) = b - offs ss i" using o sz by (subst sub32_id) simp_all
  have no: "\<not> (b - offs ss i < ?p + (length ?s + 1) \<and> ?p < b - offs ss i + (length ?s + 1))" using po o sz by linarith
  let ?m = "store_bytes mi (b - offs ss i) (load_bytes mi ?p (length ?s + 1))"
  have step: "write_strings v (Suc i) (b - offs ss (Suc i)) mi = write_strings v i (b - offs ss i) ?m"
    using no by (auto simp: p b mem_strlen_at[OF st] Let_def)
  have "same_outside (b - offs ss i) b m mi" using Suc.prems(2) o(1) by (auto simp: same_outside_def)
  then have s1: "same_outside (b - offs ss i) b m ?m" by (rule same_outside_store_bytes) (use o sz in simp_all)
  have "string_at ?m (b - offs ss j) (ss ! j)" if j: "i \<le> j" "j < length ss" for j
  proof (cases "j = i")
    case True
    then show ?thesis using string_at_copy[OF st] by simp
  next
    case False
    have "offs ss j \<le> offs ss (Suc i)" by (rule offs_antimono) (use j False in simp)
    then have "b - offs ss (Suc i) \<le> b - offs ss j" by simp
    moreover have so': "same_outside (b - offs ss i) (b - offs ss (Suc i)) mi ?m"
      by (rule same_outside_store_bytes[OF same_outside_refl]) (use o sz in simp_all)
    ultimately show ?thesis using string_at_outside[OF Suc.prems(3)[of j] so'] j False by simp
  qed
  then show ?case using Suc.IH[OF _ s1] i step by simp
qed simp

lemma write_ptrs_ok:
  assumes v: "vec_at m v ss" and out: "vec_outside m v ss (b - vec_size ss) b" and sz: "vec_size ss \<le> b" "b < 2 ^ 32"
  defines "b2 \<equiv> b - offs ss 0 - 4"
  shows "i \<le> length ss \<Longrightarrow> same_outside (b - vec_size ss) b m mi \<Longrightarrow>
    (\<And>j. i \<le> j \<Longrightarrow> j < length ss \<Longrightarrow> load32 mi (b2 - 4 * (length ss - j)) = b - offs ss j) \<Longrightarrow>
    \<exists>m'. write_ptrs v i (b - offs ss i) (b2 - 4 * (length ss - i)) mi = Some (b - vec_size ss, m') \<and> same_outside (b - vec_size ss) b2 mi m' \<and>
      (\<forall>j < length ss. load32 m' (b2 - 4 * (length ss - j)) = b - offs ss j)"
proof (induction i arbitrary: mi)
  case 0
  have "b2 - 4 * (length ss - 0) = b - vec_size ss" by (simp add: b2_def vec_size_def)
  then show ?case using 0 by simp
next
  case (Suc i)
  let ?p = "load32 m (v + 4 * i)" and ?s = "ss ! i" and ?a = "b2 - 4 * (length ss - i)"
  have i: "i < length ss" using Suc.prems(1) by simp
  have o: "length ?s + 1 + offs ss (Suc i) = offs ss i" "offs ss i \<le> offs ss 0" using offs_step[OF i] offs_antimono[of 0 i ss] by simp_all
  have st: "string_at mi (load32 mi (v + 4 * i)) ?s" using vec_at_outside[OF v out Suc.prems(2)] i by (simp add: vec_at_def)
  have ob: "sub32 (b - offs ss (Suc i)) (Suc (length ?s)) = b - offs ss i" using o sz by (subst sub32_id) (simp_all add: vec_size_def)
  have room: "4 * (length ss - i) + 4 \<le> b - offs ss 0" "4 * (length ss - i) = 4 * (length ss - Suc i) + 4" using sz i by (simp_all add: vec_size_def)
  then have ba: "sub32 (b2 - 4 * (length ss - Suc i)) 4 = ?a" using sz by (subst sub32_id) (simp_all add: b2_def)
  have lo: "b - vec_size ss \<le> ?a" "?a + 4 \<le> b2" using room by (simp_all add: b2_def vec_size_def)
  let ?m = "store32 mi ?a (b - offs ss i)"
  have step: "write_ptrs v (Suc i) (b - offs ss (Suc i)) (b2 - 4 * (length ss - Suc i)) mi = write_ptrs v i (b - offs ss i) ?a ?m"
    by (simp add: mem_strlen_at[OF st] ob ba Let_def del: diff_diff_left)
  have so: "same_outside (b - vec_size ss) b2 mi ?m" by (rule same_outside_store[OF same_outside_refl lo])
  have "load32 ?m (b2 - 4 * (length ss - j)) = b - offs ss j" if j: "i \<le> j" "j < length ss" for j
  proof (cases "j = i")
    case True
    then show ?thesis using sz by simp
  next
    case False
    have "?a + 4 \<le> b2 - 4 * (length ss - j)" using j False room by (simp add: b2_def)
    then show ?thesis using Suc.prems(3)[of j] j False by (simp add: load_store_other)
  qed
  moreover have "same_outside (b - vec_size ss) b m ?m"
    using Suc.prems(2) so by (rule same_outside_trans) (simp_all add: b2_def)
  ultimately obtain m' where m': "write_ptrs v i (b - offs ss i) ?a ?m = Some (b - vec_size ss, m')" "same_outside (b - vec_size ss) b2 ?m m'"
      "\<forall>j < length ss. load32 m' (b2 - 4 * (length ss - j)) = b - offs ss j"
    using Suc.IH[of ?m] i by auto
  moreover have "same_outside (b - vec_size ss) b2 mi m'" using so m'(2) by (rule same_outside_trans) simp_all
  ultimately show ?case using step by metis
qed

lemma vec_len_vec: "vec_at m v ss \<Longrightarrow> vec_len m v = Some (length ss)"
  by (rule vec_len_at) (auto simp: vec_at_def)

lemma vec_outside_same:
  assumes "vec_outside m v ss lo hi" "same_outside lo hi m m'" shows "vec_outside m' v ss lo hi"
  using assms(1) vec_ptr_outside[OF assms] by (simp add: vec_outside_def)

text \<open>The vector arrives with its strings in the bytes directly below the given address, and nothing else changes.\<close>

lemma write_vector_ok:
  assumes v: "vec_at m v ss" and out: "vec_outside m v ss (b - vec_size ss) b" and sz: "vec_size ss < b" "b < 2 ^ 32"
  shows "\<exists>m'. write_vector v b m = Some (b - vec_size ss, m') \<and> same_outside (b - vec_size ss) b m m' \<and>
    vec_at m' (b - vec_size ss) ss \<and> vec_outside m' (b - vec_size ss) ss lo (b - vec_size ss)"
proof -
  let ?b2 = "b - offs ss 0 - 4" and ?lo = "b - vec_size ss" and ?n = "length ss"
  have lo: "?lo \<le> b - offs ss 0" "?lo \<le> ?b2" "?b2 + 4 = b - offs ss 0" "?lo + 4 * ?n = ?b2" using sz by (simp_all add: vec_size_def)
  obtain m1 where m1: "write_strings v ?n b m = Some (b - offs ss 0, m1)" "same_outside (b - offs ss 0) b m m1"
      "\<forall>j < ?n. string_at m1 (b - offs ss j) (ss ! j)"
    using write_strings_ok[OF v vec_outside_mono[OF out lo(1) order_refl] _ sz(2), of ?n m] sz by (auto simp: vec_size_def)
  let ?m2 = "store32 m1 ?b2 0"
  have "same_outside ?lo b m m1" using m1(2) lo(1) by (auto simp: same_outside_def)
  then have s2: "same_outside ?lo b m ?m2" by (rule same_outside_store) (use lo in simp_all)
  obtain m3 where m3: "write_ptrs v ?n b ?b2 ?m2 = Some (?lo, m3)" "same_outside ?lo ?b2 ?m2 m3"
      "\<forall>j < ?n. load32 m3 (?b2 - 4 * (?n - j)) = b - offs ss j"
    using write_ptrs_ok[OF v out _ sz(2), of ?n ?m2] sz(1) s2 by auto
  have w: "write_vector v b m = Some (?lo, m3)"
  proof -
    have "sub32 (b - offs ss 0) 4 = ?b2" using sz by (subst sub32_id) (simp_all add: vec_size_def)
    moreover have "v \<noteq> 0" using v by (simp add: vec_at_def)
    ultimately show ?thesis using m1(1) m3(1) vec_len_vec[OF v] by (simp add: write_vector_def Let_def)
  qed
  have so: "same_outside ?lo b m m3" using s2 m3(2) by (rule same_outside_trans) (use lo in simp_all)
  have ptr: "load32 m3 (?lo + 4 * j) = b - offs ss j" if "j < ?n" for j
  proof -
    have "?lo + 4 * j = ?b2 - 4 * (?n - j)" using that lo(4) by (simp add: right_diff_distrib')
    then show ?thesis using m3(3) that by simp
  qed
  have hi: "b - offs ss 0 \<le> b - offs ss j" "offs ss j < b" for j using offs_antimono[of 0 j ss] sz by (simp_all add: vec_size_def)
  have str: "string_at m3 (b - offs ss j) (ss ! j)" if "j < ?n" for j
  proof -
    have "same_outside ?lo (b - offs ss 0) m1 ?m2" by (rule same_outside_store[OF same_outside_refl]) (use lo in simp_all)
    then have s: "same_outside ?lo (b - offs ss 0) m1 m3" using m3(2) by (rule same_outside_trans) (use lo in simp_all)
    show ?thesis by (rule string_at_outside[OF _ s]) (use m1(3) that hi in auto)
  qed
  have "load32 m3 (?lo + 4 * ?n) = 0" using same_outside_load[OF m3(2), of ?b2] lo(4) by simp
  then have "vec_at m3 ?lo ss" using ptr str hi sz by (simp add: vec_at_def not_le)
  moreover have "?lo \<le> b - offs ss j" for j using hi(1)[of j] lo(1) by linarith
  then have "vec_outside m3 ?lo ss lo ?lo" using ptr by (simp add: vec_outside_def)
  ultimately show ?thesis using w so by blast
qed

lemma vec_above_same:
  assumes "vec_outside m v ss 0 hi" "same_outside lo hi m m'" "b \<le> hi" shows "vec_outside m' v ss 0 b"
proof -
  have "load32 m' (v + 4 * i) = load32 m (v + 4 * i)" for i by (rule same_outside_load[OF assms(2)]) (use assms(1) in \<open>auto simp: vec_outside_def\<close>)
  then show ?thesis using assms(1,3) by (auto simp: vec_outside_def intro: le_trans)
qed

lemma make_new_stack_ok:
  assumes argv: "vec_at m argv as" and envp: "envp \<noteq> 0 \<Longrightarrow> vec_at m envp es"
    and size: "esz = (if envp = 0 then 0 else vec_size es)" "esz + vec_size as + 12 < pos" "pos < 2 ^ 32 - 1"
    and out: "vec_outside m argv as (pos - esz - vec_size as - 12) pos" "envp \<noteq> 0 \<Longrightarrow> vec_outside m envp es (pos - esz - vec_size as - 12) pos"
  shows "\<exists>esp m'. make_new_stack argv envp pos m = Some (esp, m') \<and> esp = pos - esz - vec_size as - 12 \<and> same_outside esp pos m m' \<and>
    load32 m' esp = length as \<and> vec_at m' (load32 m' (esp + 4)) as \<and>
    (if envp = 0 then load32 m' (esp + 8) = 0 else vec_at m' (load32 m' (esp + 8)) es) \<and>
    vec_outside m' (load32 m' (esp + 4)) as 0 esp \<and> (envp \<noteq> 0 \<longrightarrow> vec_outside m' (load32 m' (esp + 8)) es 0 esp)"
proof -
  let ?b1 = "pos - esz" and ?b2 = "pos - esz - vec_size as" and ?esp = "pos - esz - vec_size as - 12"
  let ?envs = "if envp = 0 then 0 else ?b1"
  have env: "\<exists>m1. write_vector envp pos m = Some (?envs, m1) \<and> same_outside ?b1 pos m m1 \<and>
      (envp \<noteq> 0 \<longrightarrow> vec_at m1 ?b1 es \<and> vec_outside m1 ?b1 es 0 ?b1)"
  proof (cases "envp = 0")
    case False
    have "vec_outside m envp es (pos - vec_size es) pos" using out(2)[OF False] by (rule vec_outside_mono) (use size False in simp_all)
    then show ?thesis using write_vector_ok[OF envp[OF False], of pos 0] size False by auto
  qed (simp add: write_vector_def)
  then obtain m1 where m1: "write_vector envp pos m = Some (?envs, m1)" "same_outside ?b1 pos m m1"
      "envp \<noteq> 0 \<Longrightarrow> vec_at m1 ?b1 es \<and> vec_outside m1 ?b1 es 0 ?b1" by blast
  have s1: "same_outside ?esp pos m m1" using m1(2) by (auto simp: same_outside_def)
  have a1: "vec_at m1 argv as" "vec_outside m1 argv as ?esp pos" by (rule vec_at_outside[OF argv out(1) s1], rule vec_outside_same[OF out(1) s1])
  have o1: "vec_outside m1 argv as (?b1 - vec_size as) ?b1" using a1(2) by (rule vec_outside_mono) simp_all
  have b1: "vec_size as < ?b1" "?b1 < 2 ^ 32" using size(2,3) by simp_all
  obtain m2 where m2: "write_vector argv ?b1 m1 = Some (?b2, m2)" "same_outside ?b2 ?b1 m1 m2" "vec_at m2 ?b2 as" "vec_outside m2 ?b2 as 0 ?b2"
    using write_vector_ok[OF a1(1) o1 b1, of 0] by blast
  define esp b2 b1 where d: "esp = ?esp" "b2 = ?b2" "b1 = ?b1"
  define m3 where m3: "m3 = store32 (store32 (store32 m2 esp (length as)) (esp + 4) b2) (esp + 8) ?envs"
  have le: "esp + 12 = b2" "b2 \<le> b1" "esp \<le> b1" "esp \<le> b2" "b1 \<le> pos" using size by (simp_all add: d)
  have s3: "same_outside esp b2 m2 m3" unfolding m3 by (intro same_outside_store same_outside_refl) (use le in simp_all)
  have s2: "same_outside esp b1 m1 m2" using m2(2) le by (auto simp: same_outside_def d)
  have s23: "same_outside esp b1 m1 m3" using s2 s3 by (rule same_outside_trans) (use le in simp_all)
  have a2: "vec_at m2 argv as" by (rule vec_at_outside[OF a1(1) vec_outside_mono[OF a1(2)] s2]) (use le in \<open>simp_all add: d\<close>)
  have n: "?b1 \<noteq> STACK_NOMEM" "?b2 \<noteq> STACK_NOMEM" "?b2 \<noteq> 0" "argv \<noteq> 0" "?envs \<noteq> STACK_NOMEM" "(if ?envs \<noteq> 0 then ?envs else pos) = ?b1"
    using size argv by (auto simp: STACK_NOMEM_def vec_at_def)
  have "sub32 ?b2 12 = ?esp" using size by (subst sub32_id) simp_all
  then have mk: "make_new_stack argv envp pos m = Some (esp, m3)"
    using m1(1) m2(1) vec_len_vec[OF a2] n by (simp add: make_new_stack_def Let_def m3 d del: diff_diff_left)
  have so: "same_outside esp pos m m3" using s1[folded d] s23 by (rule same_outside_trans) (use le in simp_all)
  have "length as < 2 ^ 32" "b2 < 2 ^ 32" "?envs < 2 ^ 32" using size by (auto simp: vec_size_def d)
  then have l: "load32 m3 esp = length as" "load32 m3 (esp + 4) = b2" "load32 m3 (esp + 8) = ?envs"
    by (simp_all add: m3 load_store_other)
  have o2: "vec_outside m2 b2 as esp b2" by (rule vec_outside_mono[OF m2(4)[folded d]]) simp_all
  have v2: "vec_at m3 b2 as" by (rule vec_at_outside[OF m2(3)[folded d] o2 s3])
  have u2: "vec_outside m3 b2 as 0 esp" by (rule vec_above_same[OF m2(4)[folded d] s3 le(4)])
  have v1: "vec_at m3 b1 es \<and> vec_outside m3 b1 es 0 esp" if e: "envp \<noteq> 0"
  proof -
    have h: "vec_at m1 b1 es" "vec_outside m1 b1 es 0 b1" using m1(3)[OF e] by (simp_all add: d)
    have "vec_outside m1 b1 es esp b1" by (rule vec_outside_mono[OF h(2)]) simp_all
    then show ?thesis using vec_at_outside[OF h(1) _ s23] vec_above_same[OF h(2) s23 le(3)] by blast
  qed
  show ?thesis
    by (intro exI[of _ esp] exI[of _ m3], unfold l) (use mk so v2 u2 v1 in \<open>simp add: d\<close>)
qed

text \<open>
  C7: the stack of a new program. Below the given address \<open>make_new_stack\<close> writes the environment, the arguments and
  three words: the number of arguments, the vector of arguments and the vector of the environment. Read from the
  new memory these are exactly the strings the caller passed, as long as the caller's vectors and strings lie outside the
  bytes that are written; no other byte changes.
\<close>

theorem exec_stack_roundtrip:
  assumes argv: "vec_at m argv as" and envp: "envp \<noteq> 0 \<Longrightarrow> vec_at m envp es"
    and size: "esz = (if envp = 0 then 0 else vec_size es)" "esz + vec_size as + 12 < pos" "pos < 2 ^ 32 - 1"
    and out: "vec_outside m argv as (pos - esz - vec_size as - 12) pos" "envp \<noteq> 0 \<Longrightarrow> vec_outside m envp es (pos - esz - vec_size as - 12) pos"
  shows "\<exists>esp m'. make_new_stack argv envp pos m = Some (esp, m') \<and> esp = pos - esz - vec_size as - 12 \<and> same_outside esp pos m m' \<and>
    load32 m' esp = length as \<and> vec_at m' (load32 m' (esp + 4)) as \<and>
    (if envp = 0 then load32 m' (esp + 8) = 0 else vec_at m' (load32 m' (esp + 8)) es)"
  using make_new_stack_ok[OF assms(1-7)] by blast

text \<open>A caller that passes the single argument \<^verbatim>\<open>ls\<close> and no environment.\<close>

definition demo_args :: memory where
  "demo_args = (\<lambda>_. 0)(16 := 32, 32 := 0x6C, 33 := 0x73)"

theorem exec_stack_roundtrip_witness:
  "\<exists>m'. make_new_stack 16 0 0x80000000 demo_args = Some (0x7FFFFFE9, m') \<and> load32 m' 0x7FFFFFE9 = 1 \<and>
    vec_at m' (load32 m' 0x7FFFFFED) [''ls''] \<and> load32 m' 0x7FFFFFF1 = 0"
proof -
  have l: "load32 demo_args 16 = 32" "load32 demo_args 20 = 0" by (simp_all add: load32_def demo_args_def)
  have "string_at demo_args 32 ''ls''" by (simp add: string_at_def load_bytes_def bytes_of_def demo_args_def upt_rec)
  then have v: "vec_at demo_args 16 [''ls'']" using l by (simp add: vec_at_def)
  have "vec_size [''ls''] = 11" by (simp add: vec_size_def offs_def)
  then show ?thesis using exec_stack_roundtrip[OF v, where envp = 0 and es = "[]" and esz = 0 and pos = "0x80000000"] l by (auto simp: vec_outside_def)
qed

section \<open>The pages of the stack\<close>

lemma new_stack_pages: "new_stack USER_STACK_POS USER_STACK_SIZE = Some [0x80000000, 0x7FFFF000]"
proof -
  have s: "sub32 0x80000000 0x1000 = 0x7FFFF000" "sub32 0x7FFFF000 0x1000 = 0x7FFFE000" by (simp_all add: sub32_def)
  have "stack_pages 0x7FFFE000 0x7FFFF000 = Some []" by (subst stack_pages.simps) simp
  then have "stack_pages 0x7FFFF000 0x7FFFF000 = Some [0x7FFFF000]" by (subst stack_pages.simps) (simp add: PAGE_BYTES_def s)
  then have "stack_pages 0x80000000 0x7FFFF000 = Some [0x80000000, 0x7FFFF000]" by (subst stack_pages.simps) (simp add: PAGE_BYTES_def s)
  then show ?thesis by (simp add: new_stack_def USER_STACK_POS_def USER_STACK_SIZE_def s)
qed

end
