(* ===== verification/Elf.thy ===== *)
theory Elf
  imports Memory
begin

text \<open>
  The loader for executables: \<^verbatim>\<open>src/kernel/elf.c\<close> and \<^verbatim>\<open>src/include/elf.h\<close>. The image and the address space it is
  loaded into are one memory; the pages requested from the paging component are returned in order. \<open>None\<close> is the loop
  over the pages of a segment that never ends, because its 32-bit counter wraps below the end, or a copy between
  overlapping areas.
\<close>

definition ELF_MAGIC :: nat where "ELF_MAGIC = 0x464C457F"
definition ELFCLASS32 :: uchar where "ELFCLASS32 = 1"
definition ELFDATA2LSB :: uchar where "ELFDATA2LSB = 1"
definition EV_CURRENT :: nat where "EV_CURRENT = 1"
definition ET_EXEC :: nat where "ET_EXEC = 2"
definition EM_386 :: nat where "EM_386 = 3"
definition PT_LOAD :: nat where "PT_LOAD = 1"
definition PT_DYNAMIC :: nat where "PT_DYNAMIC = 2"
definition PT_SHLIB :: nat where "PT_SHLIB = 5"

datatype load_result =
  LOAD_ELF_SUCCESS | LOAD_ELF_INVARG | LOAD_ELF_NOELF | LOAD_ELF_MACHINE | LOAD_ELF_SUPPORT | LOAD_ELF_DYNAMIC | LOAD_ELF_LOAD

section \<open>Headers\<close>

record elf32_ehdr =
  ei_magic :: nat
  ei_class :: uchar
  ei_data :: uchar
  ei_version :: uchar
  e_type :: nat
  e_machine :: nat
  e_version :: nat
  e_entry :: nat
  e_phoff :: nat
  e_phentsize :: nat
  e_phnum :: nat

definition get_ehdr :: "memory \<Rightarrow> nat \<Rightarrow> elf32_ehdr" where
  "get_ehdr m a = \<lparr>ei_magic = load32 m a, ei_class = m (a + 4), ei_data = m (a + 5), ei_version = m (a + 6),
     e_type = load16 m (a + 16), e_machine = load16 m (a + 18), e_version = load32 m (a + 20), e_entry = load32 m (a + 24),
     e_phoff = load32 m (a + 28), e_phentsize = load16 m (a + 42), e_phnum = load16 m (a + 44)\<rparr>"

record elf32_phdr =
  p_type :: nat
  p_offset :: nat
  p_vaddr :: nat
  p_filesz :: nat
  p_memsz :: nat

definition get_phdr :: "memory \<Rightarrow> nat \<Rightarrow> elf32_phdr" where
  "get_phdr m a = \<lparr>p_type = load32 m a, p_offset = load32 m (a + 4), p_vaddr = load32 m (a + 8), p_filesz = load32 m (a + 16),
     p_memsz = load32 m (a + 20)\<rparr>"

definition phdr_addr :: "memory \<Rightarrow> nat \<Rightarrow> nat \<Rightarrow> nat" where
  "phdr_addr m img i = add32 (add32 img (e_phoff (get_ehdr m img))) (i * e_phentsize (get_ehdr m img))"

section \<open>Loading\<close>

partial_function (option) seg_pages :: "nat \<Rightarrow> nat \<Rightarrow> nat list option" where
  "seg_pages i e = (if i < e then do { ps \<leftarrow> seg_pages (add32 i 0x1000) e; Some (i # ps) } else Some [])"

definition copy_mem :: "nat \<Rightarrow> nat \<Rightarrow> nat \<Rightarrow> memory \<Rightarrow> memory option" where
  "copy_mem dst src n m = (if dst < src + n \<and> src < dst + n then None else Some (store_bytes m dst (load_bytes m src n)))"

text \<open>The size is at most the number of bytes in the file, so that the second branch is never taken.\<close>

definition elf_load_segment :: "nat \<Rightarrow> elf32_phdr \<Rightarrow> memory \<Rightarrow> (nat list \<times> memory) option" where
  "elf_load_segment img seg m = do {
     pages \<leftarrow> seg_pages (p_vaddr seg - p_vaddr seg mod 0x1000) (add32 (p_vaddr seg) (p_memsz seg));
     let sz = (if p_filesz seg > p_memsz seg then p_memsz seg else p_filesz seg);
     m1 \<leftarrow> copy_mem (p_vaddr seg) (add32 img (p_offset seg)) sz m;
     Some (pages, if p_filesz seg < sz
       then store_bytes m1 (add32 (add32 img (p_offset seg)) (p_filesz seg)) (replicate (sz - p_filesz seg) 0) else m1)
   }"

lemma load16_less: "load16 m a < 65536"
proof -
  have u: "unat w < 256" for w :: uchar using unsigned_less[of w] by simp
  show ?thesis using u[of "m a"] u[of "m (a + 1)"] by (simp add: load16_def)
qed

text \<open>The number of program headers is read again in every round.\<close>

function elf_loop :: "nat \<Rightarrow> bool \<Rightarrow> nat \<Rightarrow> nat list \<Rightarrow> memory \<Rightarrow> (load_result \<times> nat list \<times> memory) option" where
  "elf_loop img pretend i pages m =
    (if i < e_phnum (get_ehdr m img) then
       let seg = get_phdr m (phdr_addr m img i) in
       if p_type seg = PT_DYNAMIC \<or> p_type seg = PT_SHLIB then Some (LOAD_ELF_DYNAMIC, pages, m)
       else if p_type seg = PT_LOAD \<and> \<not> pretend then
         (case elf_load_segment img seg m of None \<Rightarrow> None | Some (ps, m1) \<Rightarrow> elf_loop img pretend (Suc i) (pages @ ps) m1)
       else elf_loop img pretend (Suc i) pages m
     else Some (LOAD_ELF_SUCCESS, pages, m))"
  by pat_completeness auto
termination
proof (relation "measure (\<lambda>(img, pretend, i, pages, m). 65536 - i)")
  fix img i :: nat and m
  assume "i < e_phnum (get_ehdr m img)"
  then have "i < 65536" using load16_less[of m "img + 44"] by (simp add: get_ehdr_def)
  then show "((img, pretend, Suc i, pages @ a, b), img, pretend, i, pages, m) \<in> measure (\<lambda>(img, pretend, i, pages, m). 65536 - i)"
    "((img, pretend, Suc i, pages, m), img, pretend, i, pages, m) \<in> measure (\<lambda>(img, pretend, i, pages, m). 65536 - i)" for pretend pages a b
    by simp_all
qed simp

declare elf_loop.simps [simp del]

text \<open>The result, the entry address where it was stored, the pages and the memory.\<close>

definition load_elf :: "nat \<Rightarrow> bool \<Rightarrow> memory \<Rightarrow> (load_result \<times> nat option \<times> nat list \<times> memory) option" where
  "load_elf img pretend m =
    (let hdr = get_ehdr m img in
     if img = 0 then Some (LOAD_ELF_INVARG, None, [], m)
     else if ei_magic hdr \<noteq> ELF_MAGIC then Some (LOAD_ELF_NOELF, None, [], m)
     else if unat (ei_version hdr) \<noteq> EV_CURRENT \<or> e_version hdr \<noteq> EV_CURRENT then Some (LOAD_ELF_SUPPORT, None, [], m)
     else if ei_class hdr \<noteq> ELFCLASS32 \<or> ei_data hdr \<noteq> ELFDATA2LSB \<or> e_machine hdr \<noteq> EM_386 then Some (LOAD_ELF_MACHINE, None, [], m)
     else if unat (ei_version hdr) \<noteq> EV_CURRENT \<or> e_version hdr \<noteq> EV_CURRENT \<or> e_type hdr \<noteq> ET_EXEC then Some (LOAD_ELF_SUPPORT, None, [], m)
     else map_option (\<lambda>(r, pages, m1). (r, Some (e_entry hdr), pages, m1)) (elf_loop img pretend 0 [] m))"

section \<open>The pages of a segment\<close>

lemma seg_pages_ok:
  assumes "i mod 0x1000 = 0" "e + 0x1000 \<le> 2 ^ 32"
  shows "\<exists>ps. seg_pages i e = Some ps \<and> (\<forall>x. i \<le> x \<longrightarrow> x < e \<longrightarrow> x - x mod 0x1000 \<in> set ps)"
  using assms(1)
proof (induction "e - i" arbitrary: i rule: less_induct)
  case less
  show ?case
  proof (cases "i < e")
    case False
    then show ?thesis by (subst seg_pages.simps) auto
  next
    case True
    have a: "add32 i 0x1000 = i + 0x1000" using True assms(2) by simp
    have "(i + 0x1000) mod 0x1000 = 0" using less.prems by simp
    then obtain ps where ps: "seg_pages (i + 0x1000) e = Some ps" "\<And>x. i + 0x1000 \<le> x \<Longrightarrow> x < e \<Longrightarrow> x - x mod 0x1000 \<in> set ps"
      using less.hyps[of "i + 0x1000"] diff_less_mono2[of i "i + 0x1000" e] True by auto
    have "seg_pages i e = Some (i # ps)" using ps(1) True a by (subst seg_pages.simps) simp
    moreover have "x - x mod 0x1000 \<in> set (i # ps)" if x: "i \<le> x" "x < e" for x
    proof (cases "x < i + 0x1000")
      case True
      obtain k where "x = i + k" "k < 0x1000" using x(1) True by (metis add_less_cancel_left le_Suc_ex)
      then have "x mod 0x1000 = k" using less.prems by (simp add: mod_add_left_eq[symmetric, of i])
      then show ?thesis using \<open>x = i + k\<close> by simp
    qed (use ps(2) x in simp)
    ultimately show ?thesis by blast
  qed
qed

text \<open>Near the end of the address space the counter wraps to 0 and the loop starts over.\<close>

lemma seg_pages_wrap:
  assumes e: "0xFFFFF000 < e" and i: "i < 2 ^ 32" "i mod 0x1000 = 0"
  shows "seg_pages i e = None"
proof -
  let ?P = "\<lambda>i e (ps :: nat list). \<not> (0xFFFFF000 < e \<and> i < 2 ^ 32 \<and> i mod 0x1000 = 0)"
  have "?P i e ps" if "seg_pages i e = Some ps" for ps
  proof (rule seg_pages.raw_induct[where P = ?P, OF _ that])
    fix f :: "nat \<Rightarrow> nat \<Rightarrow> nat list option" and i e ps
    assume IH: "\<And>i e y. f i e = Some y \<Longrightarrow> ?P i e y"
      and body: "(if i < e then do { ps \<leftarrow> f (add32 i 0x1000) e; Some (i # ps) } else Some []) = Some ps"
    show "?P i e ps"
    proof
      assume h: "0xFFFFF000 < e \<and> i < 2 ^ 32 \<and> i mod 0x1000 = 0"
      then obtain k where k: "i = 0x1000 * k" by auto
      then have "k < 0x100000" using h by simp
      then have "i \<le> 0xFFFFF000" using k by simp
      then have "i < e" using h by simp
      then obtain qs where qs: "f (add32 i 0x1000) e = Some qs" using body by (auto simp: bind_eq_Some_conv)
      have "add32 i 0x1000 < 2 ^ 32" "add32 i 0x1000 mod 0x1000 = 0" using h by (simp_all add: add32_def mod_mod_cancel)
      then show False using IH[OF qs] h by simp
    qed
  qed
  then show ?thesis using e i by (cases "seg_pages i e") auto
qed

section \<open>What is loaded\<close>

text \<open>An image of \<open>len\<close> bytes with \<open>n\<close> program headers that describe it.\<close>

definition in_image :: "memory \<Rightarrow> nat \<Rightarrow> nat \<Rightarrow> nat \<Rightarrow> bool" where
  "in_image m img len i \<longleftrightarrow>
    (let h = get_ehdr m img; a = img + e_phoff h + i * e_phentsize h; p = get_phdr m a in
     a + 32 \<le> img + len \<and> p_offset p + min (p_filesz p) (p_memsz p) \<le> len)"

definition seg :: "memory \<Rightarrow> nat \<Rightarrow> nat \<Rightarrow> elf32_phdr" where
  "seg m img i = get_phdr m (img + e_phoff (get_ehdr m img) + i * e_phentsize (get_ehdr m img))"

text \<open>The bytes of a segment that come from the file, and where they go.\<close>

definition seg_size :: "elf32_phdr \<Rightarrow> nat" where
  "seg_size p = min (p_filesz p) (p_memsz p)"

definition seg_area :: "elf32_phdr \<Rightarrow> nat set" where
  "seg_area p = (if p_type p = PT_LOAD then {p_vaddr p ..< p_vaddr p + seg_size p} else {})"

definition agree_on :: "nat set \<Rightarrow> memory \<Rightarrow> memory \<Rightarrow> bool" where
  "agree_on A m m' \<longleftrightarrow> (\<forall>x \<in> A. m' x = m x)"

lemma agree_loads:
  assumes "agree_on {lo..<hi} m m'" "lo \<le> a"
  shows "a + 4 \<le> hi \<Longrightarrow> load32 m' a = load32 m a" "a + 2 \<le> hi \<Longrightarrow> load16 m' a = load16 m a" "a + n \<le> hi \<Longrightarrow> load_bytes m' a n = load_bytes m a n"
    "a + 48 \<le> hi \<Longrightarrow> get_ehdr m' a = get_ehdr m a" "a + 32 \<le> hi \<Longrightarrow> get_phdr m' a = get_phdr m a"
  using assms by (simp_all add: agree_on_def load32_def load16_def load_bytes_def get_ehdr_def get_phdr_def)

text \<open>A segment has arrived: its bytes are those of the file and its addresses lie in the requested pages.\<close>

definition arrived :: "memory \<Rightarrow> nat \<Rightarrow> nat list \<Rightarrow> memory \<Rightarrow> elf32_phdr \<Rightarrow> bool" where
  "arrived m img pages m' p \<longleftrightarrow> (p_type p = PT_LOAD \<longrightarrow>
     load_bytes m' (p_vaddr p) (seg_size p) = load_bytes m (img + p_offset p) (seg_size p) \<and>
     (\<forall>x. p_vaddr p \<le> x \<longrightarrow> x < p_vaddr p + p_memsz p \<longrightarrow> x - x mod 0x1000 \<in> set pages))"

text \<open>What holds when the first \<open>i\<close> headers have been processed.\<close>

definition loaded :: "memory \<Rightarrow> nat \<Rightarrow> nat \<Rightarrow> nat list \<Rightarrow> memory \<Rightarrow> bool" where
  "loaded m img i pages m' \<longleftrightarrow> agree_on (- (\<Union>k < i. seg_area (seg m img k))) m m' \<and> (\<forall>k < i. arrived m img pages m' (seg m img k))"

text \<open>The conditions under which a program is loaded as its headers say.\<close>

definition seg_fits :: "memory \<Rightarrow> nat \<Rightarrow> nat \<Rightarrow> nat \<Rightarrow> bool" where
  "seg_fits m img len i \<longleftrightarrow> in_image m img len i \<and> p_type (seg m img i) \<noteq> PT_DYNAMIC \<and> p_type (seg m img i) \<noteq> PT_SHLIB \<and>
     p_vaddr (seg m img i) + p_memsz (seg m img i) + 0x1000 \<le> 2 ^ 32 \<and> seg_area (seg m img i) \<inter> {img ..< img + len} = {}"

definition loadable :: "memory \<Rightarrow> nat \<Rightarrow> nat \<Rightarrow> bool" where
  "loadable m img len \<longleftrightarrow> 48 \<le> len \<and> img + len < 2 ^ 32 \<and> (\<forall>i < e_phnum (get_ehdr m img). seg_fits m img len i) \<and>
     (\<forall>i < e_phnum (get_ehdr m img). \<forall>j < i. seg_area (seg m img j) \<inter> seg_area (seg m img i) = {})"

lemma loaded_image:
  assumes "loadable m img len" "i \<le> e_phnum (get_ehdr m img)" "loaded m img i pages m'"
  shows "agree_on {img ..< img + len} m m'" "get_ehdr m' img = get_ehdr m img"
proof -
  have "x \<notin> seg_area (seg m img k)" if "x \<in> {img ..< img + len}" "k < i" for x k
  proof -
    have "k < e_phnum (get_ehdr m img)" using that assms(2) by simp
    then have "seg_area (seg m img k) \<inter> {img ..< img + len} = {}" using assms(1) by (simp add: loadable_def seg_fits_def)
    then show ?thesis using that(1) by blast
  qed
  then show a: "agree_on {img ..< img + len} m m'" using assms(3) by (auto simp: agree_on_def loaded_def)
  show "get_ehdr m' img = get_ehdr m img" by (rule agree_loads(4)[OF a]) (use assms(1) in \<open>simp_all add: loadable_def\<close>)
qed

lemma load_segment_ok:
  assumes p: "p_vaddr p + p_memsz p + 0x1000 \<le> 2 ^ 32" "img + p_offset p + seg_size p < 2 ^ 32"
    and disj: "{p_vaddr p ..< p_vaddr p + seg_size p} \<inter> {img + p_offset p ..< img + p_offset p + seg_size p} = {}"
  shows "\<exists>ps. elf_load_segment img p m = Some (ps, store_bytes m (p_vaddr p) (load_bytes m (img + p_offset p) (seg_size p))) \<and>
    (\<forall>x. p_vaddr p \<le> x \<longrightarrow> x < p_vaddr p + p_memsz p \<longrightarrow> x - x mod 0x1000 \<in> set ps)"
proof -
  have a: "(p_vaddr p - p_vaddr p mod 0x1000) mod 0x1000 = 0" by (simp add: minus_mod_eq_mult_div)
  have ad: "add32 (p_vaddr p) (p_memsz p) = p_vaddr p + p_memsz p" "add32 img (p_offset p) = img + p_offset p" using p by simp_all
  obtain ps where ps: "seg_pages (p_vaddr p - p_vaddr p mod 0x1000) (p_vaddr p + p_memsz p) = Some ps"
      "\<And>x. p_vaddr p - p_vaddr p mod 0x1000 \<le> x \<Longrightarrow> x < p_vaddr p + p_memsz p \<Longrightarrow> x - x mod 0x1000 \<in> set ps"
    using seg_pages_ok[OF a p(1)] by blast
  have sz: "(if p_filesz p > p_memsz p then p_memsz p else p_filesz p) = seg_size p" by (simp add: seg_size_def min_def)
  have "\<not> (p_vaddr p < img + p_offset p + seg_size p \<and> img + p_offset p < p_vaddr p + seg_size p)"
  proof
    assume h: "p_vaddr p < img + p_offset p + seg_size p \<and> img + p_offset p < p_vaddr p + seg_size p"
    then have "max (p_vaddr p) (img + p_offset p) \<in> {p_vaddr p ..< p_vaddr p + seg_size p} \<inter> {img + p_offset p ..< img + p_offset p + seg_size p}" by auto
    then show False using disj by blast
  qed
  then have "copy_mem (p_vaddr p) (img + p_offset p) (seg_size p) m = Some (store_bytes m (p_vaddr p) (load_bytes m (img + p_offset p) (seg_size p)))"
    by (simp add: copy_mem_def)
  then have "elf_load_segment img p m = Some (ps, store_bytes m (p_vaddr p) (load_bytes m (img + p_offset p) (seg_size p)))"
    using ps(1) by (simp add: elf_load_segment_def ad sz Let_def seg_size_def)
  then show ?thesis using ps(2) by (meson diff_le_self le_trans)
qed

lemma load_bytes_other:
  assumes "{a ..< a + n} \<inter> {b ..< b + length bs} = {}" shows "load_bytes (store_bytes m b bs) a n = load_bytes m a n"
proof -
  have "\<not> (b \<le> a + i \<and> a + i < b + length bs)" if "i < n" for i
  proof
    assume "b \<le> a + i \<and> a + i < b + length bs"
    then have "a + i \<in> {a ..< a + n} \<inter> {b ..< b + length bs}" using that by simp
    then show False using assms by blast
  qed
  then show ?thesis unfolding load_bytes_def store_bytes_def by (intro map_cong) auto
qed

lemma loaded_skip: "loaded m img i pages mi \<Longrightarrow> p_type (seg m img i) \<noteq> PT_LOAD \<Longrightarrow> loaded m img (Suc i) pages mi"
  unfolding loaded_def by (auto simp: lessThan_Suc seg_area_def arrived_def less_Suc_eq)

lemma loaded_load:
  assumes l: "loaded m img i pages mi" and t: "p_type p = PT_LOAD" and p: "p = seg m img i"
    and data: "bs = load_bytes m (img + p_offset p) (seg_size p)"
    and pg: "\<And>x. p_vaddr p \<le> x \<Longrightarrow> x < p_vaddr p + p_memsz p \<Longrightarrow> x - x mod 0x1000 \<in> set ps"
    and disj: "\<And>k. k < i \<Longrightarrow> seg_area (seg m img k) \<inter> seg_area p = {}"
  shows "loaded m img (Suc i) (pages @ ps) (store_bytes mi (p_vaddr p) bs)"
proof -
  let ?m = "store_bytes mi (p_vaddr p) bs"
  have area: "seg_area p = {p_vaddr p ..< p_vaddr p + length bs}" using t data by (simp add: seg_area_def)
  have out: "agree_on (- (\<Union>k < Suc i. seg_area (seg m img k))) m ?m"
    using l area unfolding p[symmetric] by (auto simp: loaded_def agree_on_def store_bytes_def lessThan_Suc p[symmetric])
  have old: "arrived m img (pages @ ps) ?m (seg m img k)" if "k < i" for k
  proof -
    let ?q = "seg m img k"
    have "load_bytes ?m (p_vaddr ?q) (seg_size ?q) = load_bytes mi (p_vaddr ?q) (seg_size ?q)" if "p_type ?q = PT_LOAD"
      by (rule load_bytes_other) (use disj[OF \<open>k < i\<close>] area that in \<open>simp add: seg_area_def\<close>)
    moreover have "arrived m img pages mi ?q" using l that by (simp add: loaded_def)
    ultimately show ?thesis by (simp add: arrived_def)
  qed
  have new: "load_bytes ?m (p_vaddr p) (seg_size p) = load_bytes m (img + p_offset p) (seg_size p)"
    using load_store_bytes[of mi "p_vaddr p" bs] data by simp
  then have "arrived m img (pages @ ps) ?m p" using pg by (simp add: arrived_def)
  then show ?thesis using old out by (auto simp: loaded_def less_Suc_eq p)
qed

lemma elf_loop_ok:
  assumes ok: "loadable m img len"
  shows "i \<le> e_phnum (get_ehdr m img) \<Longrightarrow> loaded m img i pages mi \<Longrightarrow>
    \<exists>pages' m'. elf_loop img False i pages mi = Some (LOAD_ELF_SUCCESS, pages', m') \<and> loaded m img (e_phnum (get_ehdr m img)) pages' m'"
proof (induction "e_phnum (get_ehdr m img) - i" arbitrary: i pages mi)
  case 0
  then have i: "i = e_phnum (get_ehdr m img)" by simp
  have e: "get_ehdr mi img = get_ehdr m img" using loaded_image(2)[OF ok 0(2,3)] .
  have "elf_loop img False i pages mi = Some (LOAD_ELF_SUCCESS, pages, mi)" by (subst elf_loop.simps) (simp add: e i)
  then show ?case using 0(3) i by simp
next
  case (Suc d)
  let ?n = "e_phnum (get_ehdr m img)" and ?p = "seg m img i"
  have i: "i < ?n" using Suc.hyps(2) by simp
  note im = loaded_image[OF ok Suc.prems]
  have c: "in_image m img len i" "p_type ?p \<noteq> PT_DYNAMIC" "p_type ?p \<noteq> PT_SHLIB" "p_vaddr ?p + p_memsz ?p + 0x1000 \<le> 2 ^ 32"
      "seg_area ?p \<inter> {img ..< img + len} = {}" "\<And>k. k < i \<Longrightarrow> seg_area (seg m img k) \<inter> seg_area ?p = {}" "img + len < 2 ^ 32"
    using ok i by (simp_all add: loadable_def seg_fits_def)
  have a: "img + e_phoff (get_ehdr m img) + i * e_phentsize (get_ehdr m img) + 32 \<le> img + len" "p_offset ?p + seg_size ?p \<le> len"
    using c(1) by (simp_all add: in_image_def seg_def seg_size_def Let_def)
  have ph: "get_phdr mi (phdr_addr mi img i) = ?p"
  proof -
    have "phdr_addr mi img i = img + e_phoff (get_ehdr m img) + i * e_phentsize (get_ehdr m img)"
      using a(1) c(7) by (simp add: phdr_addr_def im(2))
    then show ?thesis using agree_loads(5)[OF im(1), of "phdr_addr mi img i"] a(1) by (simp add: seg_def)
  qed
  show ?case
  proof (cases "p_type ?p = PT_LOAD")
    case False
    have "elf_loop img False i pages mi = elf_loop img False (Suc i) pages mi"
      using i c(2,3) False by (subst elf_loop.simps) (simp add: im(2) ph Let_def)
    then show ?thesis using Suc.hyps(1)[of "Suc i"] Suc.hyps(2) i loaded_skip[OF Suc.prems(2) False] by simp
  next
    case True
    have data: "load_bytes mi (img + p_offset ?p) (seg_size ?p) = load_bytes m (img + p_offset ?p) (seg_size ?p)"
      by (rule agree_loads(3)[OF im(1)]) (use a(2) in simp_all)
    have "{p_vaddr ?p ..< p_vaddr ?p + seg_size ?p} \<inter> {img + p_offset ?p ..< img + p_offset ?p + seg_size ?p} = {}"
      using c(5) True a(2) by (auto simp: seg_area_def)
    then obtain ps where ps: "elf_load_segment img ?p mi = Some (ps, store_bytes mi (p_vaddr ?p) (load_bytes m (img + p_offset ?p) (seg_size ?p)))"
        "\<And>x. p_vaddr ?p \<le> x \<Longrightarrow> x < p_vaddr ?p + p_memsz ?p \<Longrightarrow> x - x mod 0x1000 \<in> set ps"
      using load_segment_ok[OF c(4), of img mi] a(2) c(7) data by auto
    have "elf_loop img False i pages mi = elf_loop img False (Suc i) (pages @ ps) (store_bytes mi (p_vaddr ?p) (load_bytes m (img + p_offset ?p) (seg_size ?p)))"
      using i c(2,3) True ps(1) by (subst elf_loop.simps) (simp add: im(2) ph Let_def)
    then show ?thesis using Suc.hyps(1)[of "Suc i"] Suc.hyps(2) i loaded_load[OF Suc.prems(2) True refl refl ps(2) c(6)] by simp
  qed
qed

definition valid_header :: "elf32_ehdr \<Rightarrow> bool" where
  "valid_header h \<longleftrightarrow> ei_magic h = ELF_MAGIC \<and> unat (ei_version h) = EV_CURRENT \<and> e_version h = EV_CURRENT \<and> ei_class h = ELFCLASS32 \<and>
     ei_data h = ELFDATA2LSB \<and> e_machine h = EM_386 \<and> e_type h = ET_EXEC"

lemma load_elf_ok:
  assumes ok: "loadable m img len" and img: "img \<noteq> 0" and hdr: "valid_header (get_ehdr m img)"
  shows "\<exists>pages m'. load_elf img False m = Some (LOAD_ELF_SUCCESS, Some (e_entry (get_ehdr m img)), pages, m') \<and>
    (\<forall>i < e_phnum (get_ehdr m img). arrived m img pages m' (seg m img i)) \<and>
    agree_on (- (\<Union>i < e_phnum (get_ehdr m img). seg_area (seg m img i))) m m'"
proof -
  have "loaded m img 0 [] m" by (simp add: loaded_def agree_on_def)
  then obtain pages m' where "elf_loop img False 0 [] m = Some (LOAD_ELF_SUCCESS, pages, m')" "loaded m img (e_phnum (get_ehdr m img)) pages m'"
    using elf_loop_ok[OF ok] by blast
  then show ?thesis using img hdr by (auto simp: load_elf_def loaded_def valid_header_def Let_def)
qed

text \<open>Loading depends on the bytes of the image only.\<close>

lemma loadable_phdr:
  assumes "loadable m img len" "i < e_phnum (get_ehdr m img)"
  shows "get_phdr m (phdr_addr m img i) = seg m img i"
    "img + e_phoff (get_ehdr m img) + i * e_phentsize (get_ehdr m img) + 32 \<le> img + len" "p_offset (seg m img i) + seg_size (seg m img i) \<le> len"
proof -
  have c: "in_image m img len i" "img + len < 2 ^ 32" using assms by (simp_all add: loadable_def seg_fits_def)
  then show a: "img + e_phoff (get_ehdr m img) + i * e_phentsize (get_ehdr m img) + 32 \<le> img + len"
    and "p_offset (seg m img i) + seg_size (seg m img i) \<le> len" by (simp_all add: in_image_def seg_def seg_size_def Let_def)
  have "phdr_addr m img i = img + e_phoff (get_ehdr m img) + i * e_phentsize (get_ehdr m img)" using a c(2) by (simp add: phdr_addr_def)
  then show "get_phdr m (phdr_addr m img i) = seg m img i" by (simp add: seg_def)
qed

lemma loadable_agree:
  assumes ok: "loadable m img len" and ag: "agree_on {img ..< img + len} m m'"
  shows "get_ehdr m' img = get_ehdr m img" "i < e_phnum (get_ehdr m img) \<Longrightarrow> seg m' img i = seg m img i" "loadable m' img len"
proof -
  have l: "48 \<le> len" using ok by (simp add: loadable_def)
  show e: "get_ehdr m' img = get_ehdr m img" by (rule agree_loads(4)[OF ag]) (use l in simp_all)
  have s: "seg m' img i = seg m img i" if "i < e_phnum (get_ehdr m img)" for i
    unfolding seg_def e by (rule agree_loads(5)[OF ag]) (use loadable_phdr(2)[OF ok that] in simp_all)
  show "i < e_phnum (get_ehdr m img) \<Longrightarrow> seg m' img i = seg m img i" by (rule s)
  have "in_image m' img len i" if "i < e_phnum (get_ehdr m img)" for i
    using loadable_phdr(2,3)[OF ok that] s[OF that] by (simp add: in_image_def Let_def e seg_size_def seg_def)
  then have "seg_fits m' img len i" if "i < e_phnum (get_ehdr m img)" for i using ok that s[OF that] by (simp add: loadable_def seg_fits_def)
  then show "loadable m' img len" using ok s by (simp add: loadable_def e)
qed

text \<open>
  C10: an executable whose segments lie in the image and do not overlap each other or the image is loaded as its headers
  say: the entry address is that of the header, every loaded segment has the bytes of the file at its addresses, every address
  of a segment lies in a page that was requested, and no other byte of memory changes. In particular the bytes of a segment
  beyond those of the file, which a program expects to be zero, keep what was in memory.
\<close>

theorem load_elf_segments:
  assumes ok: "loadable m img len" and img: "img \<noteq> 0"
    and hdr: "ei_magic (get_ehdr m img) = ELF_MAGIC" "unat (ei_version (get_ehdr m img)) = EV_CURRENT" "e_version (get_ehdr m img) = EV_CURRENT"
      "ei_class (get_ehdr m img) = ELFCLASS32" "ei_data (get_ehdr m img) = ELFDATA2LSB" "e_machine (get_ehdr m img) = EM_386"
      "e_type (get_ehdr m img) = ET_EXEC"
  shows "\<exists>pages m'. load_elf img False m = Some (LOAD_ELF_SUCCESS, Some (e_entry (get_ehdr m img)), pages, m') \<and>
    (\<forall>i < e_phnum (get_ehdr m img). arrived m img pages m' (seg m img i)) \<and>
    agree_on (- (\<Union>i < e_phnum (get_ehdr m img). seg_area (seg m img i))) m m'"
  by (rule load_elf_ok[OF ok img]) (simp add: valid_header_def hdr)

text \<open>A program of one segment with four bytes in the file and eight in memory, at address \<^verbatim>\<open>0x1000\<close>.\<close>

definition demo_image :: "uchar list" where
  "demo_image =
    [0x7f, 0x45, 0x4c, 0x46, 1, 1, 1, 0, 0, 0, 0, 0, 0, 0, 0, 0, 2, 0, 3, 0, 1, 0, 0, 0, 0, 0x80, 4, 8, 0x34, 0, 0,
     0, 0, 0, 0, 0, 0, 0, 0, 0, 0x34, 0, 0x20, 0, 1, 0, 0, 0, 0, 0, 0, 0, 1, 0, 0, 0, 0x54, 0, 0, 0, 0, 0x80, 4, 8,
     0, 0x80, 4, 8, 4, 0, 0, 0, 8, 0, 0, 0, 0, 0, 0, 0, 0, 0, 0, 0, 1, 2, 3, 4]"

definition demo_elf :: memory where
  "demo_elf = store_bytes (\<lambda>_. 0) 0x1000 demo_image"

lemma demo_ehdr: "get_ehdr demo_elf 0x1000 = \<lparr>ei_magic = ELF_MAGIC, ei_class = 1, ei_data = 1, ei_version = 1, e_type = 2, e_machine = 3, e_version = 1,
    e_entry = 0x08048000, e_phoff = 52, e_phentsize = 32, e_phnum = 1\<rparr>"
  by (simp add: get_ehdr_def load32_def load16_def demo_elf_def demo_image_def store_bytes_def ELF_MAGIC_def)

lemma demo_seg: "seg demo_elf 0x1000 0 = \<lparr>p_type = 1, p_offset = 84, p_vaddr = 0x08048000, p_filesz = 4, p_memsz = 8\<rparr>"
proof -
  have "seg demo_elf 0x1000 0 = get_phdr demo_elf 4148" by (simp add: seg_def demo_ehdr)
  then show ?thesis by (simp add: get_phdr_def load32_def demo_elf_def demo_image_def store_bytes_def)
qed

lemma demo_loadable: "loadable demo_elf 0x1000 88"
proof -
  have s: "get_phdr demo_elf 4148 = seg demo_elf 0x1000 0" by (simp add: seg_def demo_ehdr)
  have "in_image demo_elf 0x1000 88 0" by (simp add: in_image_def demo_ehdr s demo_seg)
  then show ?thesis
    by (simp add: loadable_def seg_fits_def demo_ehdr demo_seg seg_area_def seg_size_def PT_DYNAMIC_def PT_SHLIB_def)
qed

theorem load_elf_segments_witness:
  "\<exists>pages m'. load_elf 0x1000 False demo_elf = Some (LOAD_ELF_SUCCESS, Some 0x08048000, pages, m') \<and> load_bytes m' 0x08048000 4 = [1, 2, 3, 4]"
proof -
  have "loadable demo_elf 0x1000 88" by (rule demo_loadable)
  moreover have "load_bytes demo_elf (0x1000 + 84) 4 = [1, 2, 3, 4]" by (simp add: load_bytes_def demo_elf_def demo_image_def store_bytes_def upt_rec)
  ultimately show ?thesis using load_elf_segments[where m = demo_elf and img = "0x1000" and len = 88]
    by (simp add: demo_ehdr demo_seg arrived_def seg_size_def PT_LOAD_def EV_CURRENT_def ELFCLASS32_def ELFDATA2LSB_def EM_386_def ET_EXEC_def) metis
qed

end
