(* ===== verification/Execve.thy ===== *)
theory Execve
  imports Exec Elf Tasks Dts
begin

text \<open>
  Starting a program: \<^verbatim>\<open>do_exec\<close> and \<^verbatim>\<open>sys_execve\<close> of \<^verbatim>\<open>src/fs/exec.c\<close>. The state is the kernel, the memory of the
  calling process and the registers saved by the interrupt (\<^verbatim>\<open>glob_regs\<close>, null outside an interrupt). The address
  \<open>buf\<close> is what \<^verbatim>\<open>malloc\<close> returns; bytes the read does not store stay what they were. The pages requested for the stack and
  the segments are returned.
\<close>

text \<open>Descriptors marked close-on-exec are closed, from the last to the first.\<close>

fun close_on_exec :: "(nat \<Rightarrow> 'd file_operations) \<Rightarrow> nat \<Rightarrow> 'd kernel \<Rightarrow> 'd kernel option" where
  "close_on_exec fop 0 k = Some k"
| "close_on_exec fop (Suc fd) k =
     (if t_files (cur k) ! fd \<noteq> None \<and> t_close_on_exec (cur k) AND push_bit fd 1 \<noteq> 0
      then Option.bind (sys_close fop (int fd) k) (\<lambda>(r, k1). close_on_exec fop fd k1)
      else close_on_exec fop fd k)"

record 'd exec_state =
  x_kernel :: "'d kernel"
  x_mem :: memory
  x_regs :: "registers option"
  x_pages :: "nat list"

definition do_exec ::
  "(nat \<Rightarrow> 'd file_operations) \<Rightarrow> nat \<Rightarrow> nat \<Rightarrow> nat \<Rightarrow> nat \<Rightarrow> 'd exec_state \<Rightarrow> (int \<times> 'd exec_state) option" where
  "do_exec fop buf node argv envp s = do {
     let k = x_kernel s;
     v \<leftarrow> vnodes (kvfs k) node;
     let d1 = snd (open_fs fop node (kdev k));
     let ((r, bytes), d2) = read_fs fop node v 0 (v_size v) d1;
     let d3 = snd (close_fs fop node d2);
     let k1 = k\<lparr>kdev := d3\<rparr>;
     let m1 = store_bytes (x_mem s) buf (bytes_of bytes);
     ps \<leftarrow> new_stack USER_STACK_POS USER_STACK_SIZE;
     (stack, m2) \<leftarrow> make_new_stack argv envp USER_STACK_POS m1;
     let s1 = s\<lparr>x_kernel := k1, x_mem := m2, x_pages := x_pages s @ ps\<rparr>;
     if stack = STACK_NOMEM then Some (err EFAULT, s1)
     else do {
       (res, entry, qs, m3) \<leftarrow> load_elf buf True m2;
       if res \<noteq> LOAD_ELF_SUCCESS then Some (err ENOEXEC, s1)
       else do {
         (res2, entry2, qs2, m4) \<leftarrow> load_elf buf False m3;
         let s2 = s1\<lparr>x_mem := m4, x_pages := x_pages s1 @ qs2\<rparr>;
         if res2 \<noteq> LOAD_ELF_SUCCESS then Some (err ENOEXEC, s2)
         else do {
           e \<leftarrow> entry2;
           k2 \<leftarrow> close_on_exec fop NR_OPEN k1;
           Some (0, s2\<lparr>x_kernel := k2, x_regs := map_option (\<lambda>g. g\<lparr>eip := word_of_nat e, ebx := word_of_nat stack\<rparr>) (x_regs s)\<rparr>)
         }
       }
     }
   }"

definition sys_execve ::
  "lookup_op \<Rightarrow> (nat \<Rightarrow> 'd file_operations) \<Rightarrow> nat \<Rightarrow> string option \<Rightarrow> nat \<Rightarrow> nat \<Rightarrow> 'd exec_state \<Rightarrow> (int \<times> 'd exec_state) option" where
  "sys_execve lk fop buf name argv envp s = do {
     (r, k1) \<leftarrow> k_namei lk name (x_kernel s);
     case r of
       Inl e \<Rightarrow> Some (err e, s\<lparr>x_kernel := k1\<rparr>)
     | Inr node \<Rightarrow> do {
         (status, s1) \<leftarrow> do_exec fop buf node argv envp (s\<lparr>x_kernel := k1\<rparr>);
         st \<leftarrow> iput (Some node) (kvfs (x_kernel s1));
         Some (status, s1\<lparr>x_kernel := (x_kernel s1)\<lparr>kvfs := st\<rparr>\<rparr>)
       }
   }"

section \<open>A successful start\<close>

lemma close_on_exec_none: "t_close_on_exec (cur k) = 0 \<Longrightarrow> close_on_exec fop n k = Some k"
  by (induction n) simp_all

lemma elf_loop_pretend:
  assumes "\<And>i. i < e_phnum (get_ehdr m img) \<Longrightarrow> p_type (get_phdr m (phdr_addr m img i)) \<noteq> PT_DYNAMIC \<and> p_type (get_phdr m (phdr_addr m img i)) \<noteq> PT_SHLIB"
  shows "i \<le> e_phnum (get_ehdr m img) \<Longrightarrow> elf_loop img True i pages m = Some (LOAD_ELF_SUCCESS, pages, m)"
proof (induction "e_phnum (get_ehdr m img) - i" arbitrary: i)
  case 0
  then show ?case by (subst elf_loop.simps) simp
next
  case (Suc d)
  then have i: "i < e_phnum (get_ehdr m img)" by simp
  have "elf_loop img True (Suc i) pages m = Some (LOAD_ELF_SUCCESS, pages, m)" using Suc by simp
  then show ?case using i assms[OF i] by (subst elf_loop.simps) (simp add: Let_def)
qed

lemma load_elf_pretend:
  assumes ok: "loadable m img len" and img: "img \<noteq> 0" and hdr: "valid_header (get_ehdr m img)"
  shows "load_elf img True m = Some (LOAD_ELF_SUCCESS, Some (e_entry (get_ehdr m img)), [], m)"
proof -
  have "elf_loop img True 0 [] m = Some (LOAD_ELF_SUCCESS, [], m)"
    by (rule elf_loop_pretend) (use ok in \<open>simp_all add: loadable_phdr(1)[OF ok] loadable_def seg_fits_def\<close>)
  then show ?thesis using img hdr by (auto simp: load_elf_def valid_header_def Let_def)
qed

text \<open>The parts of the memory a program starts with.\<close>

definition program_ready :: "memory \<Rightarrow> nat \<Rightarrow> string list \<Rightarrow> string list option \<Rightarrow> bool" where
  "program_ready m sp as es \<longleftrightarrow> load32 m sp = length as \<and> vec_at m (load32 m (sp + 4)) as \<and>
     (case es of None \<Rightarrow> load32 m (sp + 8) = 0 | Some e \<Rightarrow> vec_at m (load32 m (sp + 8)) e)"

lemma program_ready_above:
  assumes "program_ready m sp as es" "same_outside 0 sp m m'" "vec_outside m (load32 m (sp + 4)) as 0 sp"
    "\<And>e. es = Some e \<Longrightarrow> vec_outside m (load32 m (sp + 8)) e 0 sp"
  shows "program_ready m' sp as es"
proof -
  have "load32 m' a = load32 m a" if "sp \<le> a" for a by (rule same_outside_load[OF assms(2)]) (use that in simp)
  then show ?thesis using assms(1) vec_at_outside[OF _ assms(3,2)] vec_at_outside[OF _ assms(4,2)]
    by (auto simp: program_ready_def split: option.splits)
qed


section \<open>An example\<close>

text \<open>The process of \<open>demo_kernel\<close> starts the program \<open>demo_image\<close>, which inode 5 delivers, with the argument \<^verbatim>\<open>ls\<close>.\<close>

definition exec_fops :: "nat \<Rightarrow> unit file_operations" where
  "exec_fops n = (demo_fops n)\<lparr>op_read := Some (\<lambda>_ _ _ d. ((88, map (\<lambda>b. char_of (unat b)) demo_image), d))\<rparr>"

definition demo_regs :: registers where
  "demo_regs = \<lparr>ds = 0, edi = 0, esi = 0, ebp = 0, esp = 0, ebx = 0, edx = 0, ecx = 0, eax = 11, int_no = 0x80, err_code = 0, eip = 0, cs = 0,
     eflags = 0, useresp = 0, ss = 0\<rparr>"

definition demo_exec :: "unit exec_state" where
  "demo_exec = \<lparr>x_kernel = demo_kernel, x_mem = demo_args, x_regs = Some demo_regs, x_pages = []\<rparr>"

lemma bytes_char_of: "bytes_of (map (\<lambda>b. char_of (unat b)) bs) = bs" for bs :: "uchar list"
proof -
  have "word_of_nat (of_char (char_of (unat b :: nat) :: char)) = b" for b :: uchar
  proof -
    have "unat b < 256" using unsigned_less[of b] by simp
    then show ?thesis by simp
  qed
  then show ?thesis by (simp add: bytes_of_def comp_def)
qed


end
