(* ===== verification/Mount.thy ===== *)
theory Mount
  imports Files
begin

text \<open>
  Mounting: \<^verbatim>\<open>src/fs/mount.c\<close>, the setup of the root filesystem in \<^verbatim>\<open>src/fs/vfs/vfs.c\<close> and \<^verbatim>\<open>sys_reboot\<close> of
  \<^verbatim>\<open>src/kernel/sys.c\<close>. The list of mounts holds pointers with their contents; \<open>sb_mi\<close> is the field \<^verbatim>\<open>mi\<close> of the super
  blocks. How a filesystem fills and releases its super block are the parameters \<open>read_super\<close> (whether it returned
  a pointer) and \<open>put_super\<close>. \<open>None\<close> is the use of a null or dangling pointer.
\<close>

record vfsmount =
  mnt_devname :: "string option"
  mnt_dirname :: "string option"
  mnt_flags :: uint
  mnt_sb :: "nat option"

record 'd mstate =
  ms_kernel :: "'d kernel"
  vfs_mounts :: "(nat \<times> vfsmount) list"
  sb_mi :: "nat \<Rightarrow> nat"
  next_mnt :: nat
  next_sb :: nat
  filesystems :: "fs_entry list"
  fs_flags :: "nat \<Rightarrow> uint"

definition MNT_FLAG_REQDEV :: uint where "MNT_FLAG_REQDEV = 1"

section \<open>The list of mounts\<close>

definition d_mount :: "(nat \<times> vfsmount) option \<Rightarrow> (nat \<times> vfsmount) list \<Rightarrow> int \<times> (nat \<times> vfsmount) list" where
  "d_mount mnto ms =
    (case mnto of
       None \<Rightarrow> (err EINVAL, ms)
     | Some mnt \<Rightarrow> if fst mnt \<in> set (map fst (butlast ms)) then (err EBUSY, ms) else (0, mnt # ms))"

definition d_umount :: "nat option \<Rightarrow> 'd mstate \<Rightarrow> 'd mstate option" where
  "d_umount sbo s =
    (case sbo of
       None \<Rightarrow> Some s
     | Some sb \<Rightarrow>
         if sb_mi s sb \<notin> set (map fst (vfs_mounts s)) then None
         else Some (s\<lparr>vfs_mounts := takeWhile (\<lambda>x. fst x \<noteq> sb_mi s sb) (vfs_mounts s) @ tl (dropWhile (\<lambda>x. fst x \<noteq> sb_mi s sb) (vfs_mounts s))\<rparr>))"

section \<open>Mounting and unmounting\<close>

definition new_sb :: "nat option \<Rightarrow> super_block" where
  "new_sb dev = \<lparr>s_cache = [], s_root = None, s_dev = dev, s_op = False\<rparr>"

definition add_sb :: "nat \<Rightarrow> super_block \<Rightarrow> 'd kernel \<Rightarrow> 'd kernel" where
  "add_sb sb x k = k\<lparr>kvfs := (kvfs k)\<lparr>supers := (supers (kvfs k))(sb \<mapsto> x)\<rparr>\<rparr>"

text \<open>The test after \<^verbatim>\<open>read_super\<close> is for the super block that was allocated, not for the result.\<close>

definition mount_sb ::
  "(nat \<Rightarrow> nat \<Rightarrow> 'd kernel \<Rightarrow> (bool \<times> 'd kernel) option) \<Rightarrow> nat \<Rightarrow> nat option \<Rightarrow> nat \<Rightarrow> string option \<Rightarrow> string option \<Rightarrow> uint \<Rightarrow>
   'd mstate \<Rightarrow> (int \<times> 'd mstate) option" where
  "mount_sb read_super type dev mountpoint source target flags s = do {
     let sb = next_sb s;
     let p = next_mnt s;
     (ok, k1) \<leftarrow> read_super type sb (add_sb sb (new_sb dev) (ms_kernel s));
     let mnt = \<lparr>mnt_devname = source, mnt_dirname = target, mnt_flags = flags, mnt_sb = (if ok then Some sb else None)\<rparr>;
     x \<leftarrow> supers (kvfs k1) sb;
     root \<leftarrow> s_root x;
     st1 \<leftarrow> upd_vnode mountpoint (\<lambda>v. v\<lparr>v_mount := Some root\<rparr>) (kvfs k1);
     st2 \<leftarrow> upd_vnode root (\<lambda>v. v\<lparr>v_cover := Some mountpoint\<rparr>) st1;
     Some (0, s\<lparr>ms_kernel := k1\<lparr>kvfs := st2\<rparr>, vfs_mounts := snd (d_mount (Some (p, mnt)) (vfs_mounts s)), sb_mi := (sb_mi s)(sb := p),
               next_mnt := Suc p, next_sb := Suc sb\<rparr>)
   }"

definition sys_mount ::
  "lookup_op \<Rightarrow> (nat \<Rightarrow> nat \<Rightarrow> 'd kernel \<Rightarrow> (bool \<times> 'd kernel) option) \<Rightarrow> string option \<Rightarrow> string option \<Rightarrow> string option \<Rightarrow> uint \<Rightarrow>
   'd mstate \<Rightarrow> (int \<times> 'd mstate) option" where
  "sys_mount lk read_super source target fstype flags s =
    (if \<not> I_AM_ROOT (t_cred (cur (ms_kernel s))) then Some (err EPERM, s)
     else case vfs_get_fs (filesystems s) fstype of
       None \<Rightarrow> Some (err EINVAL, s)
     | Some fs \<Rightarrow> do {
         (r, k1) \<leftarrow> k_namei lk target (ms_kernel s);
         case r of
           Inl e \<Rightarrow> Some (err e, s\<lparr>ms_kernel := k1\<rparr>)
         | Inr mountpoint \<Rightarrow>
             if fs_flags s (fst fs) AND MNT_FLAG_REQDEV \<noteq> 0 then do {
               (r2, k2) \<leftarrow> k_namei lk source k1;
               case r2 of
                 Inl e \<Rightarrow> map_option (\<lambda>st. (err e, s\<lparr>ms_kernel := k2\<lparr>kvfs := st\<rparr>\<rparr>)) (iput (Some mountpoint) (kvfs k2))
               | Inr dev \<Rightarrow> mount_sb read_super (fst fs) (Some dev) mountpoint source target flags (s\<lparr>ms_kernel := k2\<rparr>)
             }
             else mount_sb read_super (fst fs) None mountpoint source target flags (s\<lparr>ms_kernel := k1\<rparr>)
       })"

definition sys_umount :: "lookup_op \<Rightarrow> (nat \<Rightarrow> 'd kernel \<Rightarrow> 'd kernel) \<Rightarrow> string option \<Rightarrow> 'd mstate \<Rightarrow> (int \<times> 'd mstate) option" where
  "sys_umount lk put_super target s =
    (if \<not> I_AM_ROOT (t_cred (cur (ms_kernel s))) then Some (err EPERM, s)
     else if target = None \<or> target = Some [] then Some (err EFAULT, s)
     else do {
       (r, k1) \<leftarrow> k_namei lk target (ms_kernel s);
       case r of
         Inl e \<Rightarrow> Some (err e, s\<lparr>ms_kernel := k1\<rparr>)
       | Inr node \<Rightarrow> do {
           v \<leftarrow> vnodes (kvfs k1) node;
           st1 \<leftarrow> iput (Some node) (kvfs k1);
           case v_mount v of
             None \<Rightarrow> Some (err EINVAL, s\<lparr>ms_kernel := k1\<lparr>kvfs := st1\<rparr>\<rparr>)
           | Some newnode \<Rightarrow> do {
               w \<leftarrow> vnodes st1 newnode;
               let sb = v_sb w;
               let k2 = put_super sb (k1\<lparr>kvfs := st1\<rparr>);
               x \<leftarrow> supers (kvfs k2) sb;
               st2 \<leftarrow> iput (s_dev x) (kvfs k2);
               st3 \<leftarrow> free_sb_inodes (Some sb) st2;
               s1 \<leftarrow> d_umount (Some sb) (s\<lparr>ms_kernel := k2\<lparr>kvfs := st3\<lparr>supers := (supers st3)(sb := None)\<rparr>\<rparr>\<rparr>);
               Some (0, s1)
             }
         }
     })"

section \<open>The root filesystem\<close>

definition rootfs_read_inode :: "nat \<Rightarrow> uint \<Rightarrow> vnode" where
  "rootfs_read_inode sb ino = \<lparr>v_ino = ino, v_count = 1, v_uid = 0, v_gid = 0, v_mode = 0x1FF, v_flags = FS_DIRECTORY, v_size = 0, v_sb = sb,
     v_lookup = False, v_u = 0, v_mount = None, v_cover = None\<rparr>"

definition read_rootfs_sb :: "nat \<Rightarrow> vfs \<Rightarrow> vfs option" where
  "read_rootfs_sb sb st = do {
     x \<leftarrow> supers st sb;
     (r, st1) \<leftarrow> iget rootfs_read_inode (Some sb) 0 (st\<lparr>supers := (supers st)(sb \<mapsto> x\<lparr>s_op := True\<rparr>)\<rparr>);
     y \<leftarrow> supers st1 sb;
     Some (st1\<lparr>supers := (supers st1)(sb \<mapsto> y\<lparr>s_root := r\<rparr>)\<rparr>)
   }"

text \<open>The filesystem types are passed as pointers with their names, in the order in which they are registered.\<close>

definition setup_vfs :: "nat \<Rightarrow> nat \<Rightarrow> nat \<Rightarrow> nat \<Rightarrow> 'd mstate \<Rightarrow> (int \<times> 'd mstate) option" where
  "setup_vfs rootfs initrdfs devfs ext2 s = do {
     let fs1 = snd (register_filesystem (Some (rootfs, ''rootfs'')) (filesystems s));
     let sb = next_sb s;
     let p = next_mnt s;
     let k = add_sb sb (new_sb None) (ms_kernel s);
     st1 \<leftarrow> read_rootfs_sb sb (kvfs k);
     x \<leftarrow> supers st1 sb;
     root \<leftarrow> s_root x;
     let ms = snd (d_mount (Some (p, \<lparr>mnt_devname = None, mnt_dirname = None, mnt_flags = 0, mnt_sb = Some sb\<rparr>)) (vfs_mounts s));
     let fs2 = snd (register_filesystem (Some (ext2, ''ext2'')) (snd (register_filesystem (Some (devfs, ''devfs''))
                 (snd (register_filesystem (Some (initrdfs, ''initrdfs'')) fs1)))));
     st2 \<leftarrow> upd_vnode root (\<lambda>v. v\<lparr>v_count := v_count v + 2\<rparr>) st1;
     Some (0, s\<lparr>ms_kernel := (set_cur (\<lambda>t. t\<lparr>t_cred := (t_cred t)\<lparr>c_root := Some root, c_pwd := Some root\<rparr>\<rparr>) (k\<lparr>kvfs := st2, root_vnode := root\<rparr>)),
               vfs_mounts := ms, sb_mi := (sb_mi s)(sb := p), next_mnt := Suc p, next_sb := Suc sb, filesystems := fs2\<rparr>)
   }"

text \<open>A null \<^verbatim>\<open>root_vnode\<close> is the number 0.\<close>

definition close_vfs :: "nat \<Rightarrow> nat \<Rightarrow> nat \<Rightarrow> nat \<Rightarrow> 'd mstate \<Rightarrow> (int \<times> 'd mstate) option" where
  "close_vfs rootfs initrdfs devfs ext2 s =
    (if root_vnode (ms_kernel s) = 0 then Some (-1, s)
     else do {
       let fs1 = snd (unregister_filesystem (Some (initrdfs, ''initrdfs'')) (snd (unregister_filesystem (Some (devfs, ''devfs''))
                   (snd (unregister_filesystem (Some (ext2, ''ext2'')) (filesystems s))))));
       v \<leftarrow> vnodes (kvfs (ms_kernel s)) (root_vnode (ms_kernel s));
       let sb = v_sb v;
       st1 \<leftarrow> free_sb_inodes (Some sb) (kvfs (ms_kernel s));
       s1 \<leftarrow> d_umount (Some sb) (s\<lparr>ms_kernel := (ms_kernel s)\<lparr>kvfs := st1\<lparr>supers := (supers st1)(sb := None)\<rparr>, root_vnode := 0\<rparr>\<rparr>);
       Some (0, s1\<lparr>filesystems := snd (unregister_filesystem (Some (rootfs, ''rootfs'')) fs1)\<rparr>)
     })"

section \<open>Rebooting\<close>

definition RB_HALT_SYSTEM :: int where "RB_HALT_SYSTEM = 1"

definition RB_AUTOBOOT :: int where "RB_AUTOBOOT = 2"

definition RB_POWEROFF :: int where "RB_POWEROFF = 4"

datatype reboot_end = Returned int | Halted | Powered_off | Restarted

definition sys_reboot ::
  "lookup_op \<Rightarrow> (nat \<Rightarrow> 'd kernel \<Rightarrow> 'd kernel) \<Rightarrow> nat \<Rightarrow> nat \<Rightarrow> nat \<Rightarrow> nat \<Rightarrow> int \<Rightarrow> 'd mstate \<Rightarrow> (reboot_end \<times> 'd mstate) option" where
  "sys_reboot lk put_super rootfs initrdfs devfs ext2 howto s =
    (if \<not> I_AM_ROOT (t_cred (cur (ms_kernel s))) then Some (Returned (err EPERM), s)
     else do {
       (r1, s1) \<leftarrow> sys_umount lk put_super (Some ''/dev'') s;
       (r2, s2) \<leftarrow> sys_umount lk put_super (Some ''/'') s1;
       (r3, s3) \<leftarrow> close_vfs rootfs initrdfs devfs ext2 s2;
       Some (if howto = RB_HALT_SYSTEM then Halted else if howto = RB_POWEROFF then Powered_off else if howto = RB_AUTOBOOT then Restarted else Returned 0, s3)
     })"

section \<open>Resolved names\<close>

text \<open>An inode that is not a mount point (or not in use any more).\<close>

definition no_mount :: "vfs \<Rightarrow> nat \<Rightarrow> bool" where
  "no_mount st n \<longleftrightarrow> (\<forall>v. vnodes st n = Some v \<longrightarrow> v_mount v = None)"

lemma iput_no_mount:
  assumes "iput no st = Some st'" "no_mount st n" shows "no_mount st' n"
  using assms by (auto simp: iput_def no_mount_def upd_vnode_def free_inode_def bind_eq_Some_conv split: option.splits if_splits)

lemma resolve_mount_end:
  assumes "resolve_mount node steps st = Some (Inr n, st')" shows "no_mount st' n"
proof -
  let ?P = "\<lambda>(node :: nat) (steps :: nat) (st :: vfs) (rs :: (errno + nat) \<times> vfs). \<forall>n. fst rs = Inr n \<longrightarrow> no_mount (snd rs) n"
  have "?P node steps st (Inr n, st')"
  proof (rule resolve_mount.raw_induct[where P = ?P, OF _ assms])
    fix f :: "nat \<Rightarrow> nat \<Rightarrow> vfs \<Rightarrow> ((errno + nat) \<times> vfs) option" and node steps st rs
    assume IH: "\<And>n s st rs. f n s st = Some rs \<Longrightarrow> ?P n s st rs"
      and body: "Option.bind (vnodes st node) (\<lambda>v. case v_mount v of None \<Rightarrow> Some (Inr node, st)
         | Some m \<Rightarrow> if steps = 0 then Option.bind (iput (Some node) st) (\<lambda>st1. Some (Inl EMLINK, st1))
             else Option.bind (iput (Some node) st) (\<lambda>st1. Option.bind (bump m st1) (\<lambda>st2. f m steps st2))) = Some rs"
    then obtain v where v: "vnodes st node = Some v" by (auto simp: bind_eq_Some_conv)
    consider "v_mount v = None" | "steps = 0" "v_mount v \<noteq> None" | m where "v_mount v = Some m" "steps \<noteq> 0" by blast
    then show "?P node steps st rs"
    proof cases
      case 1
      then show ?thesis using body v by (auto simp: no_mount_def)
    next
      case 2
      then show ?thesis using body v by (auto simp: bind_eq_Some_conv)
    next
      case (3 m)
      then obtain st2 where "f m steps st2 = Some rs" using body v by (auto simp: bind_eq_Some_conv)
      then show ?thesis by (rule IH)
    qed
  qed
  then show ?thesis by simp
qed

lemma getdentry_lookup_end:
  assumes "getdentry_lookup lk c node f st = Some (Inr n, st')" shows "no_mount st' n"
proof -
  obtain m st2 where "resolve_mount m MOUNT_MAX st2 = Some (Inr n, st')"
    using assms by (auto simp: getdentry_lookup_def bind_eq_Some_conv split: if_splits option.splits)
  then show ?thesis by (rule resolve_mount_end)
qed

lemma at_root_end:
  assumes "at_root c node st = Some (True, st')" shows "no_mount st' node"
proof -
  obtain root st1 r st2 where r: "resolve_mount root MOUNT_MAX st1 = Some (r, st2)"
      "(case r of Inl e \<Rightarrow> Some (False, st2) | Inr n \<Rightarrow> map_option (\<lambda>st3. (node = n, st3)) (iput (Some n) st2)) = Some (True, st')"
    using assms by (auto simp: at_root_def bind_eq_Some_conv)
  then have "r = Inr node" "iput (Some node) st2 = Some st'" by (auto split: sum.splits)
  then show ?thesis using resolve_mount_end iput_no_mount r(1) by blast
qed

lemma dotdot_cases:
  assumes "Option.bind (vnodes st node) (\<lambda>v. case v_cover v of
       Some cov \<Rightarrow> Option.bind (iput (Some node) st) (\<lambda>st2. g cov st2)
     | None \<Rightarrow> Option.bind (at_root c node st) (\<lambda>(b, st2). if b then Some (Inr node, st2) else look st2)) = Some rs"
  shows "(\<exists>cov st2. g cov st2 = Some rs) \<or> (\<exists>st2. at_root c node st = Some (True, st2) \<and> rs = (Inr node, st2)) \<or> (\<exists>st2. look st2 = Some rs)"
proof -
  obtain v where v: "vnodes st node = Some v" using assms by (cases "vnodes st node") auto
  show ?thesis
  proof (cases "v_cover v")
    case None
    then have e: "Option.bind (at_root c node st) (\<lambda>(b, st2). if b then Some (Inr node, st2) else look st2) = Some rs"
      using assms v by simp
    then obtain b st2 where "at_root c node st = Some (b, st2)" by (cases "at_root c node st") auto
    then show ?thesis using e by (cases b) auto
  next
    case (Some cov)
    then show ?thesis using assms v by (cases "iput (Some node) st") auto
  qed
qed

text \<open>An entry is never a mount point: with \<^verbatim>\<open>frommount\<close> only the entry \<^verbatim>\<open>..\<close> is looked for.\<close>

lemma getdentry_end:
  assumes "getdentry lk c node f fm st = Some (Inr n, st')" "fm \<longrightarrow> namei_match f ''..''" shows "no_mount st' n"
proof -
  let ?P = "\<lambda>(lk :: lookup_op) (c :: cred) (node :: nat) f fm (st :: vfs) (rs :: (errno + nat) \<times> vfs). (fm \<longrightarrow> namei_match f ''..'') \<longrightarrow> (\<forall>n. fst rs = Inr n \<longrightarrow> no_mount (snd rs) n)"
  have "?P lk c node f fm st (Inr n, st')"
  proof (rule getdentry.raw_induct[where P = ?P, OF _ assms(1)], intro impI allI)
    fix g lk c node0 f fm st0 rs n
    assume IH: "\<And>lk c node f fm st rs. g lk c node f fm st = Some rs \<Longrightarrow> ?P lk c node f fm st rs"
      and body: "Option.bind (bump node0 st0) (\<lambda>st1.
     Option.bind (if fm then Some (Inr node0, st1) else resolve_mount node0 MOUNT_MAX st1) (\<lambda>(r, st).
       case r of
         Inl e \<Rightarrow> Some (Inl e, st)
       | Inr node \<Rightarrow>
           if namei_match f ''.'' then Some (Inr node, st)
           else if namei_match f ''..'' then
             Option.bind (vnodes st node) (\<lambda>v.
               case v_cover v of
                 Some cov \<Rightarrow> Option.bind (iput (Some node) st) (\<lambda>st2. g lk c cov f True st2)
               | None \<Rightarrow> Option.bind (at_root c node st) (\<lambda>(b, st2).
                   if b then Some (Inr node, st2) else getdentry_lookup lk c node f st2))
           else getdentry_lookup lk c node f st)) = Some rs"
      and fm: "fm \<longrightarrow> namei_match f ''..''" and n: "fst rs = Inr n"
    let ?e = "\<lambda>node st. if namei_match f ''.'' then Some (Inr node, st)
           else if namei_match f ''..'' then
             Option.bind (vnodes st node) (\<lambda>v.
               case v_cover v of
                 Some cov \<Rightarrow> Option.bind (iput (Some node) st) (\<lambda>st2. g lk c cov f True st2)
               | None \<Rightarrow> Option.bind (at_root c node st) (\<lambda>(b, st2).
                   if b then Some (Inr node, st2) else getdentry_lookup lk c node f st2))
           else getdentry_lookup lk c node f st"
    obtain st1 r st where r: "(if fm then Some (Inr node0, st1) else resolve_mount node0 MOUNT_MAX st1) = Some (r, st)"
        "(case r of Inl e \<Rightarrow> Some (Inl e, st) | Inr node \<Rightarrow> ?e node st) = Some rs"
      using body by (auto simp: bind_eq_Some_conv)
    obtain node where node: "r = Inr node" "?e node st = Some rs" using r(2) n by (cases r) auto
    have dots: "namei_match f ''.'' \<Longrightarrow> \<not> namei_match f ''..''" by (auto simp: namei_match_iff component_def)
    consider "namei_match f ''.''" "rs = (Inr node, st)"
      | cov st2 where "namei_match f ''..''" "g lk c cov f True st2 = Some rs"
      | st2 where "at_root c node st = Some (True, st2)" "rs = (Inr node, st2)"
      | st2 where "getdentry_lookup lk c node f st2 = Some rs"
    proof (cases "namei_match f ''..'' \<and> \<not> namei_match f ''.''")
      case True
      then have nd: "\<not> namei_match f ''.''" and dd: "namei_match f ''..''" by blast+
      show ?thesis
        using dotdot_cases[OF node(2)[unfolded if_not_P[OF nd] if_P[OF dd]]] that(2-4) dd by blast
    next
      case False
      then show ?thesis using node(2) that(1,4) by (cases "namei_match f ''.''") auto
    qed
    then show "no_mount (snd rs) n"
    proof cases
      case 1
      then show ?thesis using r(1) node(1) n fm dots resolve_mount_end by auto
    next
      case 2
      then show ?thesis using IH n by blast
    next
      case 3
      then show ?thesis using at_root_end n by auto
    next
      case 4
      then show ?thesis using getdentry_lookup_end n by (cases rs) auto
    qed
  qed
  then show ?thesis using assms(2) by simp
qed

lemma igetdir_loop_end:
  "igetdir_loop lk c node f st = Some (Inr (n, b), st') \<Longrightarrow> (b = f \<and> n = node \<and> st' = st) \<or> no_mount st' n"
proof (induction lk c node f st rule: igetdir_loop.induct)
  case (1 lk c node f st)
  show ?case
  proof (cases "strchr f CHR ''/''")
    case None
    then show ?thesis using "1.prems" by (subst (asm) igetdir_loop.simps) simp
  next
    case (Some pos)
    have "Option.bind (getdentry lk c node (if pos \<noteq> 0 then f else ''.'') False st) (\<lambda>(r, st1).
            case r of Inl e \<Rightarrow> Some (Inl e, st1) | Inr n \<Rightarrow> igetdir_loop lk c n (drop (Suc pos) f) st1) = Some (Inr (n, b), st')"
      using "1.prems" Some unfolding igetdir_loop.simps[of lk c node f] by simp
    then obtain r st1 where r: "getdentry lk c node (if pos \<noteq> 0 then f else ''.'') False st = Some (r, st1)"
        "(case r of Inl e \<Rightarrow> Some (Inl e, st1) | Inr n \<Rightarrow> igetdir_loop lk c n (drop (Suc pos) f) st1) = Some (Inr (n, b), st')"
      by (auto simp: bind_eq_Some_conv)
    then obtain m where g: "getdentry lk c node (if pos \<noteq> 0 then f else ''.'') False st = Some (Inr m, st1)"
        "igetdir_loop lk c m (drop (Suc pos) f) st1 = Some (Inr (n, b), st')"
      by (cases r) auto
    have "no_mount st1 m" using getdentry_end[OF g(1)] by simp
    then show ?thesis using "1.IH"[OF Some g(1) refl refl g(2)] by auto
  qed
qed

lemma namei_end:
  assumes "namei lk root c fo st = Some (Inr n, st')" shows "no_mount st' n"
proof -
  obtain node path r st1 where ig: "igetdir lk c node path st = Some (r, st1)"
      "(case r of Inl e \<Rightarrow> Some (Inl e, st1) | Inr (dir, base) \<Rightarrow> if base = [] then Some (Inr dir, st1) else getdentry lk c dir base False st1)
         = Some (Inr n, st')"
    using assms by (auto simp: namei_def Let_def bind_eq_Some_conv split: option.splits if_splits)
  obtain dir base where r: "r = Inr (dir, base)" using ig(2) by (cases r) auto
  show ?thesis
  proof (cases "base = []")
    case True
    then have e: "dir = n" "st1 = st'" using ig(2) r by simp_all
    show ?thesis
    proof (cases "path = []")
      case True
      then obtain st2 a where "resolve_mount node MOUNT_MAX st2 = Some (a, st')" "map_sum id (\<lambda>n. (n, [])) a = Inr (n, base)"
        using ig(1) r e by (auto simp: igetdir_def bind_eq_Some_conv)
      moreover from this(2) have "a = Inr n" by (cases a) simp_all
      ultimately have "resolve_mount node MOUNT_MAX st2 = Some (Inr n, st')" by simp
      then show ?thesis by (rule resolve_mount_end)
    next
      case False
      then show ?thesis using ig(1) r e \<open>base = []\<close> igetdir_loop_end[of lk c node path st n "[]" st'] by (auto simp: igetdir_def)
    qed
  next
    case False
    then show ?thesis using ig(2) r getdentry_end by auto
  qed
qed

lemma err_nonzero [simp]: "err e \<noteq> 0"
  by (cases e) (simp_all add: err_def)

lemma k_namei_vfs: "k_namei lk name k = Some (r, k1) \<Longrightarrow> \<exists>st. k1 = k\<lparr>kvfs := st\<rparr>"
  by (auto simp: k_namei_def)

text \<open>Unmounting changes no more than the inodes, by resolving the name.\<close>

lemma sys_umount_fails:
  assumes "sys_umount lk put_super target s = Some (r, s')"
  shows "r \<noteq> 0 \<and> (\<exists>st. s' = s\<lparr>ms_kernel := (ms_kernel s)\<lparr>kvfs := st\<rparr>\<rparr>)"
proof -
  consider "(r, s') = (err EPERM, s)" | "(r, s') = (err EFAULT, s)"
    | res k1 where "k_namei lk target (ms_kernel s) = Some (res, k1)" "I_AM_ROOT (t_cred (cur (ms_kernel s)))" "\<not> (target = None \<or> target = Some [])"
    using assms by (auto simp: sys_umount_def bind_eq_Some_conv split: if_splits)
  then show ?thesis
  proof cases
    case (3 res k1)
    note u = assms[unfolded sys_umount_def]
    obtain st where k1: "k1 = (ms_kernel s)\<lparr>kvfs := st\<rparr>" using k_namei_vfs[OF 3(1)] by blast
    show ?thesis
    proof (cases res)
      case (Inl e)
      then show ?thesis using u 3 k1 by auto
    next
      case (Inr node)
      then have "no_mount (kvfs k1) node" using 3(1) by (auto simp: k_namei_def intro: namei_end)
      moreover obtain v st1 where "vnodes (kvfs k1) node = Some v" "iput (Some node) (kvfs k1) = Some st1"
        using u 3 Inr by (auto simp: bind_eq_Some_conv)
      ultimately show ?thesis using u 3 Inr k1 by (auto simp: no_mount_def)
    qed
  next
    case 1
    then show ?thesis by (auto intro: exI[of _ "kvfs (ms_kernel s)"])
  next
    case 2
    then show ?thesis by (auto intro: exI[of _ "kvfs (ms_kernel s)"])
  qed
qed

text \<open>
  C38: \<^verbatim>\<open>sys_umount\<close> never reports success. Resolving the name of the target ends behind the last mount on it, so the test
  for a mount point always fails: whatever is mounted stays mounted.
\<close>

theorem sys_umount_never_succeeds:
  assumes "sys_umount lk put_super target s = Some (r, s')"
  shows "r \<noteq> 0 \<and> vfs_mounts s' = vfs_mounts s"
  using sys_umount_fails[OF assms] by auto

section \<open>What mounting does\<close>

lemma upd_vnode_Some: "upd_vnode n f st = Some st' \<longleftrightarrow> (\<exists>v. vnodes st n = Some v \<and> st' = st\<lparr>vnodes := (vnodes st)(n \<mapsto> f v)\<rparr>)"
  by (auto simp: upd_vnode_def bind_eq_Some_conv split: option.splits)

lemma mount_sb_Some:
  assumes "mount_sb read_super type dev mp src tgt flags s = Some (r, s')"
    and "supers (kvfs (ms_kernel s')) (next_sb s) = Some x" "s_root x = Some root" "mp \<noteq> root"
  shows "r = 0" "\<exists>v. vnodes (kvfs (ms_kernel s')) mp = Some v \<and> v_mount v = Some root"
    "\<exists>w. vnodes (kvfs (ms_kernel s')) root = Some w \<and> v_cover w = Some mp"
proof -
  obtain ok k1 y root' st1 st2 where y: "supers (kvfs k1) (next_sb s) = Some y" "s_root y = Some root'"
      and st: "upd_vnode mp (\<lambda>v. v\<lparr>v_mount := Some root'\<rparr>) (kvfs k1) = Some st1" "upd_vnode root' (\<lambda>v. v\<lparr>v_cover := Some mp\<rparr>) st1 = Some st2"
      and r: "r = 0" "ms_kernel s' = k1\<lparr>kvfs := st2\<rparr>"
    using assms(1) by (auto simp: mount_sb_def bind_eq_Some_conv Let_def)
  have "supers st2 = supers (kvfs k1)" using st by (auto simp: upd_vnode_Some)
  then have "root' = root" using assms(2,3) y r(2) by simp
  then show "r = 0" "\<exists>v. vnodes (kvfs (ms_kernel s')) mp = Some v \<and> v_mount v = Some root"
      "\<exists>w. vnodes (kvfs (ms_kernel s')) root = Some w \<and> v_cover w = Some mp"
    using st r assms(4) by (auto simp: upd_vnode_Some)
qed

text \<open>
  C39: a completed \<^verbatim>\<open>sys_mount\<close> links the mount point and the root of the new filesystem in both directions, and resolving the
  mount point leads to that root, with the reference passed on to it.
\<close>

theorem mount_sb_resolves:
  assumes "mount_sb read_super type dev mp src tgt flags s = Some (r, s')"
    and "supers (kvfs (ms_kernel s')) (next_sb s) = Some x" "s_root x = Some root" "mp \<noteq> root"
    and "no_mount (kvfs (ms_kernel s')) root" "iput (Some mp) (kvfs (ms_kernel s')) = Some st1" "bump root st1 = Some st2"
  shows "r = 0 \<and> resolve_mount mp MOUNT_MAX (kvfs (ms_kernel s')) = Some (Inr root, st2) \<and>
    map_option v_cover (vnodes (kvfs (ms_kernel s')) root) = Some (Some mp)"
proof -
  obtain v w where v: "vnodes (kvfs (ms_kernel s')) mp = Some v" "v_mount v = Some root"
    and w: "vnodes (kvfs (ms_kernel s')) root = Some w" "v_cover w = Some mp"
    using mount_sb_Some(2,3)[OF assms(1-4)] by blast
  have "no_mount st1 root" using iput_no_mount[OF assms(6,5)] .
  then obtain u where "vnodes st2 root = Some u" "v_mount u = None"
    using assms(7) by (auto simp: bump_def upd_vnode_Some no_mount_def)
  then have "resolve_mount root MOUNT_MAX st2 = Some (Inr root, st2)" by (rule resolve_plain)
  then have "resolve_mount mp MOUNT_MAX (kvfs (ms_kernel s')) = Some (Inr root, st2)"
    using v assms(6,7) by (subst resolve_mount.simps) (simp add: MOUNT_MAX_def)
  then show ?thesis using w mount_sb_Some(1)[OF assms(1-4)] by simp
qed

text \<open>When the filesystem cannot read its super block, the check misses it: the mount crashes.\<close>

lemma mount_failed_read:
  assumes "read_super type (next_sb s) (add_sb (next_sb s) (new_sb dev) (ms_kernel s)) = Some (False, k1)"
    and "supers (kvfs k1) (next_sb s) = Some x" "s_root x = None"
  shows "mount_sb read_super type dev mp src tgt flags s = None"
  using assms by (simp add: mount_sb_def Let_def)

section \<open>An example\<close>

text \<open>A kernel whose root directory 3 is used as a mount point, and a filesystem whose root is a new inode.\<close>

definition demo_mstate :: "unit mstate" where
  "demo_mstate = \<lparr>ms_kernel = demo_kernel\<lparr>kvfs := set_node 3 ((demo_rd 0 1)\<lparr>v_count := 3\<rparr>) demo_tree\<rparr>, vfs_mounts = [], sb_mi = (\<lambda>_. 0), next_mnt = 7, next_sb = 1, filesystems = [], fs_flags = (\<lambda>_. 0)\<rparr>"

definition demo_read_super :: "nat \<Rightarrow> nat \<Rightarrow> unit kernel \<Rightarrow> (bool \<times> unit kernel) option" where
  "demo_read_super type sb k = map_option (\<lambda>st. (True, k\<lparr>kvfs := st\<rparr>)) (read_rootfs_sb sb (kvfs k))"

definition demo_fs :: vfs where
  "demo_fs = \<lparr>vnodes = (vnodes demo_tree)(3 \<mapsto> (demo_rd 0 1)\<lparr>v_count := 3, v_mount := Some 6\<rparr>, 6 \<mapsto> (rootfs_read_inode 1 0)\<lparr>v_cover := Some 3\<rparr>),
     supers = (supers demo_tree)(1 \<mapsto> \<lparr>s_cache = [6], s_root = Some 6, s_dev = None, s_op = True\<rparr>), next_node = 7\<rparr>"

definition demo_mounted :: "unit mstate" where
  "demo_mounted = demo_mstate\<lparr>ms_kernel := demo_kernel\<lparr>kvfs := demo_fs\<rparr>,
     vfs_mounts := [(7, \<lparr>mnt_devname = None, mnt_dirname = None, mnt_flags = 0, mnt_sb = Some 1\<rparr>)], sb_mi := (sb_mi demo_mstate)(1 := 7),
     next_mnt := 8, next_sb := 2\<rparr>"

lemma demo_mounted_eq: "mount_sb demo_read_super 0 None 3 None None 0 demo_mstate = Some (0, demo_mounted)"
  by (auto simp: mount_sb_def demo_mounted_def demo_fs_def demo_mstate_def demo_read_super_def read_rootfs_sb_def iget_def
      add_sb_def new_sb_def demo_tree_def demo_kernel_def upd_vnode_def Let_def create_empty_inode_def rootfs_read_inode_def d_mount_def fun_eq_iff)

lemma demo_fs_nodes:
  "vnodes demo_fs 3 = Some ((demo_rd 0 1)\<lparr>v_count := 3, v_mount := Some 6\<rparr>)" "vnodes demo_fs 6 = Some ((rootfs_read_inode 1 0)\<lparr>v_cover := Some 3\<rparr>)"
  "supers demo_fs 0 = Some \<lparr>s_cache = [3, 4, 5], s_root = Some 3, s_dev = None, s_op = True\<rparr>"
  "supers demo_fs 1 = Some \<lparr>s_cache = [6], s_root = Some 6, s_dev = None, s_op = True\<rparr>"
  by (simp_all add: demo_fs_def demo_tree_def)

lemma demo_release:
  "iput (Some 3) demo_fs = Some (set_node 3 ((demo_rd 0 1)\<lparr>v_count := 2, v_mount := Some 6\<rparr>) demo_fs)"
  by (simp add: iput_def demo_fs_nodes upd_vnode_def demo_rd_def)

lemma demo_resolve:
  "resolve_mount 3 MOUNT_MAX st = Some (Inr 6, set_node 6 (inc w) (set_node 3 (v\<lparr>v_count := v_count v - 1\<rparr>) st))"
  if "vnodes st 3 = Some v" "v_mount v = Some 6" "vnodes st 6 = Some w" "v_mount w = None" "supers st (v_sb v) = Some x" "s_op x"
    "v_count v \<noteq> 0" "v_count v - 1 \<noteq> 0"
proof -
  have i: "iput (Some 3) st = Some (set_node 3 (v\<lparr>v_count := v_count v - 1\<rparr>) st)" using that by (simp add: iput_def upd_vnode_def)
  show ?thesis using that i
    by (subst resolve_mount.simps) (simp add: MOUNT_MAX_def bump_def upd_vnode_def resolve_plain[where v = "inc w"])
qed

theorem mount_sb_resolves_witness:
  "mount_sb demo_read_super 0 None 3 None None 0 demo_mstate = Some (0, demo_mounted) \<and>
   (\<exists>st. resolve_mount 3 MOUNT_MAX (kvfs (ms_kernel demo_mounted)) = Some (Inr 6, st))"
proof -
  let ?st1 = "set_node 3 ((demo_rd 0 1)\<lparr>v_count := 2, v_mount := Some 6\<rparr>) demo_fs"
  have f: "kvfs (ms_kernel demo_mounted) = demo_fs" "next_sb demo_mstate = 1" by (simp_all add: demo_mounted_def demo_mstate_def)
  have "bump 6 ?st1 = Some (set_node 6 (inc ((rootfs_read_inode 1 0)\<lparr>v_cover := Some 3\<rparr>)) ?st1)"
    by (rule bump_node) (simp add: demo_fs_nodes)
  moreover have "no_mount demo_fs 6" by (simp add: no_mount_def demo_fs_nodes rootfs_read_inode_def)
  ultimately have "resolve_mount 3 MOUNT_MAX demo_fs = Some (Inr 6, set_node 6 (inc ((rootfs_read_inode 1 0)\<lparr>v_cover := Some 3\<rparr>)) ?st1)"
    using mount_sb_resolves[OF demo_mounted_eq, unfolded f, OF demo_fs_nodes(4) _ _ _ demo_release, where root = 6] by simp
  then show ?thesis using demo_mounted_eq unfolding f by blast
qed

theorem sys_umount_never_succeeds_witness:
  "\<exists>s'. sys_umount demo_lk (\<lambda>_ k. k) (Some ''/'') demo_mounted = Some (err EINVAL, s') \<and> vfs_mounts s' = vfs_mounts demo_mounted"
proof -
  let ?st = "set_node 3 ((demo_rd 0 1)\<lparr>v_count := 4, v_mount := Some 6\<rparr>) demo_fs"
  let ?w = "(rootfs_read_inode 1 0)\<lparr>v_cover := Some 3\<rparr>"
  let ?fin = "set_node 6 (inc ?w) (set_node 3 ((demo_rd 0 1)\<lparr>v_count := 3, v_mount := Some 6\<rparr>) ?st)"
  have b: "bump 3 demo_fs = Some ?st" using bump_node[OF demo_fs_nodes(1)] by (simp add: demo_rd_def)
  have "resolve_mount 3 MOUNT_MAX ?st = Some (Inr 6, ?fin)"
    using demo_resolve[where st = ?st and v = "(demo_rd 0 1)\<lparr>v_count := 4, v_mount := Some 6\<rparr>" and w = ?w]
    by (simp add: demo_fs_nodes demo_rd_def rootfs_read_inode_def)
  then have n: "namei demo_lk 3 demo_cred (Some ''/'') demo_fs = Some (Inr 6, ?fin)"
    using b by (simp add: namei_def igetdir_def demo_cred_def)
  have c: "t_cred (cur (ms_kernel demo_mounted)) = demo_cred" "root_vnode (ms_kernel demo_mounted) = 3" "kvfs (ms_kernel demo_mounted) = demo_fs"
    by (simp_all add: demo_mounted_def demo_kernel_def cur_def demo_task_def)
  have "iput (Some 6) ?fin \<noteq> None"
    by (simp add: iput_def rootfs_read_inode_def demo_fs_nodes demo_fs_nodes(4)[simplified] upd_vnode_def)
  then obtain s' where "sys_umount demo_lk (\<lambda>_ k. k) (Some ''/'') demo_mounted = Some (err EINVAL, s')"
    using n by (auto simp: sys_umount_def k_namei_def c I_AM_ROOT_def demo_cred_def rootfs_read_inode_def)
  then show ?thesis using sys_umount_never_succeeds by blast
qed

end
