(* ===== verification/Ktextio.thy ===== *)
theory Ktextio
  imports Memory
begin

text \<open>
  The text output used before the terminals exist: \<^verbatim>\<open>src/kernel/ktextio.c\<close>. The video memory is a memory
  that begins at address 0; the window of 80 by 25 cells of two bytes is its first 4000 bytes. The cursor
  is what \<^verbatim>\<open>_ksetcursor\<close> keeps and sends to the display controller.
\<close>

definition TXT_WIDTH :: nat where "TXT_WIDTH = 80"
definition TXT_HEIGHT :: nat where "TXT_HEIGHT = 25"
definition TAB_WIDTH :: nat where "TAB_WIDTH = 8"
definition TXT_COL_WHITE :: uchar where "TXT_COL_WHITE = 7"

record ktext =
  kmem :: memory
  kx :: nat
  ky :: nat
  kports :: "(nat \<times> uchar) list"

section \<open>The cursor\<close>

definition ksetcursor :: "nat \<Rightarrow> nat \<Rightarrow> ktext \<Rightarrow> ktext" where
  "ksetcursor x y k =
    (if x = TXT_WIDTH \<and> y = TXT_HEIGHT - 1 then k
     else
       let (x1, y1) = (if x = TXT_WIDTH then (0, (y + 1) mod 256) else (x, y)) in
       if x1 > TXT_WIDTH \<and> y1 = 0 then k
       else
         let (x2, y2) = (if x1 > TXT_WIDTH then (TXT_WIDTH - 1, y1 - 1) else (x1, y1));
             y3 = (if y2 > TXT_HEIGHT then 0 else y2);
             y4 = (if y3 = TXT_HEIGHT then y3 - 1 else y3);
             position = (y4 * TXT_WIDTH + x2) mod 2 ^ 16
         in k\<lparr>kx := x2, ky := y4,
              kports := kports k @ [(0x3D4, 0x0F), (0x3D5, word_of_nat (position mod 256)),
                                    (0x3D4, 0x0E), (0x3D5, word_of_nat (position div 256 mod 256))]\<rparr>)"

definition cells :: nat where "cells = 2 * TXT_HEIGHT * TXT_WIDTH"

definition kclear :: "ktext \<Rightarrow> ktext" where
  "kclear k = ksetcursor 0 0 (k\<lparr>kmem := (\<lambda>a. if a < cells then (if even a then 0x20 else TXT_COL_WHITE) else kmem k a)\<rparr>)"

section \<open>Output\<close>

text \<open>\<^verbatim>\<open>for (i = a; i < cells; i++) mem[i] = mem[i + d]\<close>; each byte is read before it is overwritten.\<close>

definition shift_from :: "nat \<Rightarrow> nat \<Rightarrow> memory \<Rightarrow> memory" where
  "shift_from a d m = (\<lambda>i. if a \<le> i \<and> i < cells then m (i + d) else m i)"

definition scroll_up :: "memory \<Rightarrow> memory" where
  "scroll_up m =
    (\<lambda>i. if i < 2 * (TXT_HEIGHT - 1) * TXT_WIDTH then m (i + 2 * TXT_WIDTH)
         else if i < cells then (if even i then 0x20 else TXT_COL_WHITE) else m i)"

text \<open>One character; the coordinates are bytes.\<close>

definition kout_char :: "char \<Rightarrow> nat \<times> nat \<times> memory \<Rightarrow> nat \<times> nat \<times> memory" where
  "kout_char c s = (case s of (x, y, m) \<Rightarrow>
     if c = CHR 0x0A then (0, (y + 1) mod 256, shift_from (2 * ((y + 1) * TXT_WIDTH)) (2 * x) m)
     else if c = CHR 0x0D then (0, y, m)
     else if c = CHR 0x09 then ((x + (TAB_WIDTH - x mod TAB_WIDTH) + 1) mod 256, y, m)
     else if c = CHR 0x08 then
       (if x = 0 \<and> y = 0 then (x, y, m)
        else let (x1, y1) = (if x = 0 then (TXT_WIDTH - 1, y - 1) else (x - 1, y))
             in (x1, y1, shift_from (2 * (y1 * TXT_WIDTH + x1)) 2 m))
     else if c = CHR 0x0B \<or> c = CHR 0x0C then (x, (y + 1) mod 256, m)
     else ((x + 1) mod 256, y, m(2 * (y * TXT_WIDTH + x) := word_of_nat (of_char c), 2 * (y * TXT_WIDTH + x) + 1 := TXT_COL_WHITE)))"

definition kout_wrap :: "nat \<times> nat \<times> memory \<Rightarrow> nat \<times> nat \<times> memory" where
  "kout_wrap s = (case s of (x, y, m) \<Rightarrow>
     let (x1, y1) = (if x \<ge> TXT_WIDTH then (x - TXT_WIDTH, (y + 1) mod 256) else (x, y)) in
     if y1 \<ge> TXT_HEIGHT then (x1, TXT_HEIGHT - 1, scroll_up m) else (x1, y1, m))"

fun kout_loop :: "string \<Rightarrow> nat \<times> nat \<times> memory \<Rightarrow> nat \<times> nat \<times> memory" where
  "kout_loop [] s = s"
| "kout_loop (c # cs) s = kout_loop cs (kout_wrap (kout_char c s))"

definition kout :: "string \<Rightarrow> ktext \<Rightarrow> ktext" where
  "kout output k = (case kout_loop output (kx k, ky k, kmem k) of (x, y, m) \<Rightarrow> ksetcursor x y (k\<lparr>kmem := m\<rparr>))"

definition kputc :: "char \<Rightarrow> ktext \<Rightarrow> ktext" where
  "kputc c k = kout [c] k"

definition sys_putchar :: "char \<Rightarrow> ktext \<Rightarrow> int \<times> ktext" where
  "sys_putchar c k = (schar c, kputc c k)"

section \<open>The window is never left\<close>

definition in_window :: "nat \<times> nat \<times> memory \<Rightarrow> bool" where
  "in_window s \<longleftrightarrow> fst s < TXT_WIDTH \<and> fst (snd s) < TXT_HEIGHT"

lemmas dims = TXT_WIDTH_def TXT_HEIGHT_def TAB_WIDTH_def cells_def

lemma kout_step:
  assumes "in_window s"
  shows "in_window (kout_wrap (kout_char c s)) \<and> (\<forall>a \<ge> cells. snd (snd (kout_wrap (kout_char c s))) a = snd (snd s) a)"
proof -
  obtain x y m where s: "s = (x, y, m)" by (cases s)
  have b: "x < 80" "y < 25" using assms s by (auto simp: in_window_def dims)
  let ?q = "kout_char c s"
  obtain x1 y1 m1 where q: "?q = (x1, y1, m1)" by (cases ?q)
  have q1: "x1 < 160 \<and> y1 \<le> 25 \<and> (x1 \<ge> 80 \<longrightarrow> y1 < 25) \<and> (\<forall>a \<ge> cells. m1 a = m a)"
    using b q unfolding s kout_char_def by (auto simp: shift_from_def dims Let_def split: if_splits)
  have "in_window (kout_wrap (x1, y1, m1)) \<and> (\<forall>a \<ge> cells. snd (snd (kout_wrap (x1, y1, m1))) a = m1 a)"
    using q1 by (auto simp: kout_wrap_def in_window_def scroll_up_def dims)
  then show ?thesis using q q1 s by simp
qed

lemma kout_loop_window:
  "in_window s \<Longrightarrow> in_window (kout_loop cs s) \<and> (\<forall>a \<ge> cells. snd (snd (kout_loop cs s)) a = snd (snd s) a)"
proof (induction cs s rule: kout_loop.induct)
  case (2 c cs s)
  then show ?case using kout_step[OF 2(2), of c] by auto
qed simp

text \<open>
  C35: whatever text is printed on the early console, the cursor stays inside the window, the display
  controller's cursor is set to it, and no byte behind the window is written.
\<close>

theorem kout_stays_in_window:
  assumes "kx k < TXT_WIDTH" "ky k < TXT_HEIGHT"
  shows "kx (kout cs k) < TXT_WIDTH \<and> ky (kout cs k) < TXT_HEIGHT \<and> (\<forall>a \<ge> cells. kmem (kout cs k) a = kmem k a) \<and>
    (let p = ky (kout cs k) * TXT_WIDTH + kx (kout cs k) in
     kports (kout cs k) = kports k @ [(0x3D4, 0x0F), (0x3D5, word_of_nat (p mod 256)), (0x3D4, 0x0E), (0x3D5, word_of_nat (p div 256))])"
proof -
  obtain x y m where l: "kout_loop cs (kx k, ky k, kmem k) = (x, y, m)" by (cases "kout_loop cs (kx k, ky k, kmem k)")
  have w: "x < 80" "y < 25" "\<forall>a \<ge> cells. m a = kmem k a"
    using kout_loop_window[of "(kx k, ky k, kmem k)" cs] assms l by (simp_all add: in_window_def dims)
  then have p: "y * 80 + x < 2000" by auto
  then have "(y * 80 + x) mod 65536 = y * 80 + x" "(y * 80 + x) div 256 mod 256 = (y * 80 + x) div 256" by simp_all
  then show ?thesis using w l by (simp add: kout_def ksetcursor_def dims Let_def)
qed

theorem kout_stays_in_window_witness:
  "kx (kout ''hello'' \<lparr>kmem = (\<lambda>_. 0), kx = 79, ky = 24, kports = []\<rparr>) < TXT_WIDTH"
  using kout_stays_in_window[of "\<lparr>kmem = (\<lambda>_. 0), kx = 79, ky = 24, kports = []\<rparr>" "''hello''"] by (simp add: dims)

end
