(* ===== verification/Syscalls.thy ===== *)
theory Syscalls
  imports Processes Execve Mount Ktextio
begin

text \<open>
  The system call interface: \<^verbatim>\<open>src/kernel/syscall.c\<close> and the user's side of it, the numbers and the wrappers of
  \<^verbatim>\<open>src/include/unistd.h\<close>. The machine has the kernel with its mounts, the boot console and one memory per page directory.
  What a call gets from elsewhere is a parameter: the operations of filesystems and drivers, the frame of a new page
  directory, the addresses \<^verbatim>\<open>malloc\<close> returns and the registers a task switch saves. \<open>None\<close> is a crash or a call that
  never returns.
\<close>

record 'd machine =
  m_sys :: "'d mstate"
  m_spaces :: "nat \<Rightarrow> memory"
  m_text :: ktext
  m_pages :: "nat list"

record 'd drivers =
  d_lookup :: lookup_op
  d_fop :: "nat \<Rightarrow> 'd file_operations"
  d_put_super :: "nat \<Rightarrow> 'd kernel \<Rightarrow> 'd kernel"
  d_rootfs :: nat
  d_initrdfs :: nat
  d_devfs :: nat
  d_ext2 :: nat

record fresh =
  new_dir :: nat
  new_kstack :: uint
  new_buf :: nat
  saved_eip :: uint
  saved_esp :: uint
  saved_ebp :: uint

abbreviation m_kernel :: "'d machine \<Rightarrow> 'd kernel" where
  "m_kernel s \<equiv> ms_kernel (m_sys s)"

definition set_kernel :: "'d kernel \<Rightarrow> 'd machine \<Rightarrow> 'd machine" where
  "set_kernel k s = s\<lparr>m_sys := (m_sys s)\<lparr>ms_kernel := k\<rparr>\<rparr>"

definition user_mem :: "'d machine \<Rightarrow> memory" where
  "user_mem s = m_spaces s (t_directory (cur (m_kernel s)))"

definition set_user_mem :: "memory \<Rightarrow> 'd machine \<Rightarrow> 'd machine" where
  "set_user_mem m s = s\<lparr>m_spaces := (m_spaces s)(t_directory (cur (m_kernel s)) := m)\<rparr>"

text \<open>A string the user points to; the outer \<open>None\<close> is a string without an end.\<close>

definition user_string :: "memory \<Rightarrow> uint \<Rightarrow> string option option" where
  "user_string m a =
    (if a = 0 then Some None
     else map_option (\<lambda>n. Some (map (\<lambda>b. char_of (unat b)) (load_bytes m (unat a) n))) (mem_strlen m (unat a)))"

section \<open>The table\<close>

datatype syscall = Sys_putchar | Sys_exit | Sys_fork | Sys_read | Sys_write | Sys_open | Sys_close | Sys_waitpid | Sys_execve
  | Sys_chdir | Sys_mknod | Sys_getpid | Sys_pause | Sys_dup | Sys_kill | Sys_ioctl | Sys_chroot | Sys_getppid | Sys_dup2 | Sys_reboot

definition NR_SYSCALLS :: nat where "NR_SYSCALLS = 128"

primrec NR :: "syscall \<Rightarrow> nat" where
  "NR Sys_putchar = 0"
| "NR Sys_exit = 1"
| "NR Sys_fork = 2"
| "NR Sys_read = 3"
| "NR Sys_write = 4"
| "NR Sys_open = 5"
| "NR Sys_close = 6"
| "NR Sys_waitpid = 7"
| "NR Sys_execve = 11"
| "NR Sys_chdir = 12"
| "NR Sys_mknod = 14"
| "NR Sys_getpid = 20"
| "NR Sys_pause = 29"
| "NR Sys_kill = 37"
| "NR Sys_dup = 41"
| "NR Sys_ioctl = 54"
| "NR Sys_chroot = 61"
| "NR Sys_dup2 = 63"
| "NR Sys_getppid = 64"
| "NR Sys_reboot = 88"

text \<open>The assignments in their order, into a table of null pointers.\<close>

definition setup_syscalls :: "syscall option list" where
  "setup_syscalls = foldl (\<lambda>t c. t[NR c := Some c]) (replicate NR_SYSCALLS None)
     [Sys_putchar, Sys_exit, Sys_fork, Sys_read, Sys_write, Sys_open, Sys_close, Sys_waitpid, Sys_execve, Sys_chdir, Sys_mknod,
      Sys_getpid, Sys_pause, Sys_dup, Sys_kill, Sys_ioctl, Sys_chroot, Sys_getppid, Sys_dup2, Sys_reboot]"

section \<open>The calls\<close>

text \<open>How a call ends: it returns to its caller, or the processor continues another task, or the machine stops.\<close>

datatype 'd outcome = Ret int "registers" "'d machine" | Switched "'d machine" | Stopped "'d machine"

definition sys_mknod :: int where "sys_mknod = err ENOSYS"

abbreviation on_kernel :: "registers \<Rightarrow> 'd machine \<Rightarrow> (int \<times> 'd kernel) option \<Rightarrow> 'd outcome option" where
  "on_kernel g s x \<equiv> map_option (\<lambda>(r, k). Ret r g (set_kernel k s)) x"

text \<open>The arguments are the registers \<^verbatim>\<open>ebx\<close>, \<^verbatim>\<open>ecx\<close> and \<^verbatim>\<open>edx\<close>; \<^verbatim>\<open>execve\<close> changes the saved registers.\<close>

fun sys_call :: "'d drivers \<Rightarrow> fresh \<Rightarrow> syscall \<Rightarrow> registers \<Rightarrow> 'd machine \<Rightarrow> 'd outcome option" where
  "sys_call d p Sys_putchar g s =
     (let (r, t) = sys_putchar (char_of (unat (ebx g))) (m_text s) in Some (Ret r g (s\<lparr>m_text := t\<rparr>)))"
| "sys_call d p Sys_exit g s =
     map_option (\<lambda>k. Switched (set_kernel k s)) (sys_exit (d_fop d) (sint (ebx g)) (saved_eip p) (saved_esp p) (saved_ebp p) (m_kernel s))"
| "sys_call d p Sys_fork g s = do {
     (r, k) \<leftarrow> sys_fork (new_dir p) (new_kstack p) (saved_eip p) (saved_esp p) (saved_ebp p) (m_kernel s);
     Some (Ret r g (set_kernel k (if r < 0 then s else s\<lparr>m_spaces := (m_spaces s)(new_dir p := user_mem s)\<rparr>)))
   }"
| "sys_call d p Sys_read g s = do {
     ((r, bytes), k) \<leftarrow> sys_read (d_fop d) (sint (ebx g)) (edx g) (m_kernel s);
     Some (Ret r g (set_kernel k (set_user_mem (store_bytes (user_mem s) (unat (ecx g)) (bytes_of bytes)) s)))
   }"
| "sys_call d p Sys_write g s =
     on_kernel g s (sys_write (d_fop d) (sint (ebx g)) (map (\<lambda>b. char_of (unat b)) (load_bytes (user_mem s) (unat (ecx g)) (unat (edx g)))) (m_kernel s))"
| "sys_call d p Sys_open g s = do {
     name \<leftarrow> user_string (user_mem s) (ebx g);
     on_kernel g s (sys_open (d_lookup d) (d_fop d) name (ecx g) (m_kernel s))
   }"
| "sys_call d p Sys_close g s = on_kernel g s (sys_close (d_fop d) (sint (ebx g)) (m_kernel s))"
| "sys_call d p Sys_waitpid g s = do {
     ((r, code), k) \<leftarrow> sys_waitpid (sint (ebx g)) (m_kernel s);
     let s1 = (if r > 0 \<and> ecx g \<noteq> 0 then set_user_mem (store32 (user_mem s) (unat (ecx g)) (unat (word_of_int code :: uint))) s else s);
     Some (Ret r g (set_kernel k s1))
   }"
| "sys_call d p Sys_execve g s = do {
     name \<leftarrow> user_string (user_mem s) (ebx g);
     (r, x) \<leftarrow> sys_execve (d_lookup d) (d_fop d) (new_buf p) name (unat (ecx g)) (unat (edx g))
        \<lparr>x_kernel = m_kernel s, x_mem = user_mem s, x_regs = Some g, x_pages = m_pages s\<rparr>;
     g1 \<leftarrow> x_regs x;
     Some (Ret r g1 ((set_kernel (x_kernel x) (set_user_mem (x_mem x) s))\<lparr>m_pages := x_pages x\<rparr>))
   }"
| "sys_call d p Sys_chdir g s = do {
     name \<leftarrow> user_string (user_mem s) (ebx g);
     on_kernel g s (sys_chdir (d_lookup d) name (m_kernel s))
   }"
| "sys_call d p Sys_mknod g s = Some (Ret sys_mknod g s)"
| "sys_call d p Sys_getpid g s = Some (Ret (sys_getpid (m_kernel s)) g s)"
| "sys_call d p Sys_pause g s = Some (Switched (set_kernel (sys_pause (saved_eip p) (saved_esp p) (saved_ebp p) (m_kernel s)) s))"
| "sys_call d p Sys_dup g s = on_kernel g s (sys_dup (d_fop d) (sint (ebx g)) (m_kernel s))"
| "sys_call d p Sys_kill g s = (let (r, k) = sys_kill (sint (ebx g)) (sint (ecx g)) (m_kernel s) in Some (Ret r g (set_kernel k s)))"
| "sys_call d p Sys_ioctl g s = on_kernel g s (sys_ioctl (d_fop d) (sint (ebx g)) (ecx g) (edx g) (m_kernel s))"
| "sys_call d p Sys_chroot g s = do {
     name \<leftarrow> user_string (user_mem s) (ebx g);
     on_kernel g s (sys_chroot (d_lookup d) name (m_kernel s))
   }"
| "sys_call d p Sys_getppid g s = Some (Ret (sys_getppid (m_kernel s)) g s)"
| "sys_call d p Sys_dup2 g s = on_kernel g s (sys_dup2 (d_fop d) (sint (ebx g)) (sint (ecx g)) (m_kernel s))"
| "sys_call d p Sys_reboot g s = do {
     (e, s1) \<leftarrow> sys_reboot (d_lookup d) (d_put_super d) (d_rootfs d) (d_initrdfs d) (d_devfs d) (d_ext2 d) (sint (ebx g)) (m_sys s);
     Some (case e of Returned r \<Rightarrow> Ret r g (s\<lparr>m_sys := s1\<rparr>) | _ \<Rightarrow> Stopped (s\<lparr>m_sys := s1\<rparr>))
   }"

section \<open>The handler\<close>

definition SIGSYS :: int where "SIGSYS = 31"

definition SysCallHandler :: "'d drivers \<Rightarrow> fresh \<Rightarrow> registers \<Rightarrow> 'd machine \<Rightarrow> 'd outcome option" where
  "SysCallHandler d p g s =
    (if unat (eax g) \<ge> NR_SYSCALLS
     then Some (Ret (err ENOSYS) (g\<lparr>eax := word_of_int (err ENOSYS)\<rparr>) (set_kernel (snd (sys_kill (t_pid (cur (m_kernel s))) SIGSYS (m_kernel s))) s))
     else case setup_syscalls ! unat (eax g) of
       None \<Rightarrow> Some (Ret (err ENOSYS) (g\<lparr>eax := word_of_int (err ENOSYS)\<rparr>) s)
     | Some c \<Rightarrow> map_option (\<lambda>x. case x of Ret r g1 s1 \<Rightarrow> Ret r (g1\<lparr>eax := word_of_int r\<rparr>) s1 | y \<Rightarrow> y) (sys_call d p c g s))"

text \<open>The wrapper in the user's program: a negative result becomes \<open>-1\<close> and sets \<^verbatim>\<open>errno\<close>.\<close>

definition user_result :: "registers \<Rightarrow> int \<Rightarrow> int \<times> int" where
  "user_result g errno = (let res = sint (eax g) in if res \<ge> 0 then (res, errno) else (- 1, - res))"

text \<open>The interrupt, and the four wrappers, which load the registers of their arguments.\<close>

definition int80 :: "'d drivers \<Rightarrow> fresh \<Rightarrow> registers \<Rightarrow> int \<Rightarrow> 'd machine \<Rightarrow> ((int \<times> int) \<times> 'd machine) option" where
  "int80 d p g errno s = do {
     x \<leftarrow> SysCallHandler d p g s;
     case x of Ret r g1 s1 \<Rightarrow> Some (user_result g1 errno, s1) | _ \<Rightarrow> None
   }"

definition syscall0 where
  "syscall0 d p nr g errno s = int80 d p (g\<lparr>eax := word_of_nat nr\<rparr>) errno s"

definition syscall1 where
  "syscall1 d p nr a g errno s = int80 d p (g\<lparr>eax := word_of_nat nr, ebx := a\<rparr>) errno s"

definition syscall2 where
  "syscall2 d p nr a b g errno s = int80 d p (g\<lparr>eax := word_of_nat nr, ebx := a, ecx := b\<rparr>) errno s"

definition syscall3 where
  "syscall3 d p nr a b c g errno s = int80 d p (g\<lparr>eax := word_of_nat nr, ebx := a, ecx := b, edx := c\<rparr>) errno s"

section \<open>The table has the numbers of the header\<close>

lemma setup_syscalls_length [simp]: "length setup_syscalls = NR_SYSCALLS"
  by (simp add: setup_syscalls_def)

lemma foldl_slots:
  assumes "inj f" "\<And>c. f c < n" "i < n"
  shows "foldl (\<lambda>t c. t[f c := Some c]) (replicate n None) xs ! i = Some c \<longleftrightarrow> c \<in> set xs \<and> f c = i"
proof (induction xs rule: rev_induct)
  case (snoc x xs)
  have "length (foldl (\<lambda>t c. t[f c := Some c]) (replicate n None) xs) = n" by (induction xs rule: rev_induct) simp_all
  then show ?case using snoc assms(3) assms(2)[of x] injD[OF assms(1), of x c] by (auto simp: nth_list_update)
qed (use assms(3) in simp)

lemma NR_inject [simp]: "NR c = NR c' \<longleftrightarrow> c = c'"
  by (cases c; cases c') simp_all

lemma NR_less: "NR c < NR_SYSCALLS"
  by (cases c) (simp_all add: NR_SYSCALLS_def)

lemma setup_syscalls_nth: "i < NR_SYSCALLS \<Longrightarrow> setup_syscalls ! i = Some c \<longleftrightarrow> NR c = i"
  unfolding setup_syscalls_def by (subst foldl_slots) (cases c; simp add: inj_def NR_less)+

section \<open>Every call keeps the invariant\<close>

lemma close_on_exec_inv: "kernel_inv k \<Longrightarrow> close_on_exec fop n k = Some k' \<Longrightarrow> kernel_inv k'"
  by (induction n arbitrary: k) (auto split: if_splits bind_splits dest: kernel_inv_file_call(1))

lemma kernel_inv_kdev: "kernel_inv k \<Longrightarrow> kernel_inv (k\<lparr>kdev := d\<rparr>)"
  by (erule kernel_inv_frame) simp_all

lemma kernel_inv_kvfs: "kernel_inv k \<Longrightarrow> kernel_inv (k\<lparr>kvfs := st\<rparr>)"
  by (erule kernel_inv_frame) simp_all

lemma do_exec_kernel:
  assumes "do_exec fop buf node argv envp s = Some (r, s')"
  shows "\<exists>d. x_kernel s' = (x_kernel s)\<lparr>kdev := d\<rparr> \<or> close_on_exec fop NR_OPEN ((x_kernel s)\<lparr>kdev := d\<rparr>) = Some (x_kernel s')"
  using assms by (auto simp: do_exec_def Let_def split: bind_splits prod.splits if_splits)

lemma do_exec_regs: "do_exec fop buf node argv envp s = Some (r, s') \<Longrightarrow> x_regs s = Some g \<Longrightarrow> x_regs s' \<noteq> None"
  by (auto simp: do_exec_def Let_def split: bind_splits prod.splits if_splits)

lemma sys_execve_inv:
  assumes x: "sys_execve lk fop buf name argv envp s = Some (r, s')" and inv: "kernel_inv (x_kernel s)"
  shows "kernel_inv (x_kernel s')"
proof -
  obtain a k1 where k1: "k_namei lk name (x_kernel s) = Some (a, k1)" using x by (auto simp: sys_execve_def split: bind_splits)
  have i1: "kernel_inv k1" using k_namei_inv[OF k1 inv] .
  show ?thesis
  proof (cases a)
    case (Inl e)
    then show ?thesis using x k1 i1 by (auto simp: sys_execve_def)
  next
    case (Inr node)
    then obtain s1 st where s1: "do_exec fop buf node argv envp (s\<lparr>x_kernel := k1\<rparr>) = Some (r, s1)" "x_kernel s' = (x_kernel s1)\<lparr>kvfs := st\<rparr>"
      using x k1 by (auto simp: sys_execve_def split: bind_splits)
    obtain d where "x_kernel s1 = k1\<lparr>kdev := d\<rparr> \<or> close_on_exec fop NR_OPEN (k1\<lparr>kdev := d\<rparr>) = Some (x_kernel s1)"
      using do_exec_kernel[OF s1(1)] by auto
    then have "kernel_inv (x_kernel s1)" using kernel_inv_kdev[OF i1] close_on_exec_inv by metis
    then show ?thesis using s1(2) kernel_inv_kvfs by simp
  qed
qed

lemma d_umount_kernel: "d_umount sbo s = Some s' \<Longrightarrow> ms_kernel s' = ms_kernel s"
  by (auto simp: d_umount_def split: option.splits if_splits)

lemma close_vfs_inv:
  assumes "close_vfs rootfs initrdfs devfs ext2 s = Some (r, s')" "kernel_inv (ms_kernel s)"
  shows "kernel_inv (ms_kernel s')"
proof (cases "root_vnode (ms_kernel s) = 0")
  case False
  then obtain st where "ms_kernel s' = (ms_kernel s)\<lparr>kvfs := st, root_vnode := 0\<rparr>"
    using assms(1) by (auto simp: close_vfs_def Let_def split: bind_splits dest!: d_umount_kernel)
  then show ?thesis using assms(2) by (intro kernel_inv_frame[OF assms(2)]) simp_all
qed (use assms in \<open>simp add: close_vfs_def\<close>)

lemma sys_reboot_inv:
  assumes "sys_reboot lk ps rootfs initrdfs devfs ext2 howto s = Some (e, s')" "kernel_inv (ms_kernel s)"
  shows "kernel_inv (ms_kernel s')"
proof (cases "I_AM_ROOT (t_cred (cur (ms_kernel s)))")
  case True
  then obtain r1 s1 r2 s2 r3 where u: "sys_umount lk ps (Some ''/dev'') s = Some (r1, s1)" "sys_umount lk ps (Some ''/'') s1 = Some (r2, s2)"
      "close_vfs rootfs initrdfs devfs ext2 s2 = Some (r3, s')"
    using assms(1) by (auto simp: sys_reboot_def split: bind_splits)
  obtain st1 where "ms_kernel s1 = (ms_kernel s)\<lparr>kvfs := st1\<rparr>" using sys_umount_fails[OF u(1)] by auto
  moreover obtain st2 where "ms_kernel s2 = (ms_kernel s1)\<lparr>kvfs := st2\<rparr>" using sys_umount_fails[OF u(2)] by auto
  ultimately have "kernel_inv (ms_kernel s2)" using kernel_inv_kvfs[OF assms(2)] by simp
  then show ?thesis by (rule close_vfs_inv[OF u(3)])
qed (use assms in \<open>simp add: sys_reboot_def\<close>)

primrec machine_of :: "'d outcome \<Rightarrow> 'd machine" where
  "machine_of (Ret r g s) = s"
| "machine_of (Switched s) = s"
| "machine_of (Stopped s) = s"

lemma m_kernel_simps [simp]:
  "m_kernel (set_kernel k s) = k" "m_kernel (set_user_mem m s) = m_kernel s" "m_kernel (s\<lparr>m_text := t\<rparr>) = m_kernel s"
  "m_kernel (s\<lparr>m_spaces := sp\<rparr>) = m_kernel s" "m_kernel (s\<lparr>m_pages := ps\<rparr>) = m_kernel s"
  by (simp_all add: set_kernel_def set_user_mem_def)

lemma on_kernel_inv:
  "on_kernel g s y = Some x \<Longrightarrow> (\<And>r k. y = Some (r, k) \<Longrightarrow> kernel_inv k) \<Longrightarrow> kernel_inv (m_kernel (machine_of x))"
  by auto

lemma sys_call_inv:
  assumes inv: "kernel_inv (m_kernel s)" and c: "sys_call d p c g s = Some x"
  shows "kernel_inv (m_kernel (machine_of x))"
proof (cases c)
  case Sys_execve
  then show ?thesis using c inv by (auto split: bind_splits dest!: sys_execve_inv)
next
  case Sys_reboot
  then show ?thesis using c inv by (auto split: bind_splits reboot_end.splits dest!: sys_reboot_inv)
next
  case Sys_exit
  then show ?thesis using c by (auto simp: Let_def split: bind_splits prod.splits intro: sys_exit_inv[OF inv])
next
  case Sys_fork
  then show ?thesis using c by (auto simp: Let_def split: bind_splits prod.splits intro: sys_fork_inv[OF inv])
next
  case Sys_read
  then show ?thesis using c by (auto simp: Let_def split: bind_splits prod.splits intro: sys_read_inv[OF inv])
next
  case Sys_write
  then show ?thesis using c by (auto elim!: on_kernel_inv intro: sys_write_inv[OF inv])
next
  case Sys_open
  then show ?thesis using c by (auto split: bind_splits elim!: on_kernel_inv intro: kernel_inv_file_call(3)[OF inv])
next
  case Sys_close
  then show ?thesis using c by (auto elim!: on_kernel_inv intro: kernel_inv_file_call(1)[OF inv])
next
  case Sys_waitpid
  then show ?thesis using c by (auto simp: Let_def split: bind_splits prod.splits intro: sys_waitpid_inv[OF inv])
next
  case Sys_chdir
  then show ?thesis using c by (auto split: bind_splits elim!: on_kernel_inv intro: sys_chdir_inv[OF inv])
next
  case Sys_dup
  then show ?thesis using c by (auto elim!: on_kernel_inv intro: sys_dup_inv[OF inv])
next
  case Sys_kill
  then show ?thesis using c by (auto split: prod.splits intro: sys_kill_inv[OF inv])
next
  case Sys_ioctl
  then show ?thesis using c by (auto elim!: on_kernel_inv intro: sys_ioctl_inv[OF inv])
next
  case Sys_chroot
  then show ?thesis using c by (auto split: bind_splits elim!: on_kernel_inv intro: sys_chroot_inv[OF inv])
next
  case Sys_dup2
  then show ?thesis using c by (auto elim!: on_kernel_inv intro: kernel_inv_file_call(2)[OF inv])
qed (use c inv in \<open>auto simp: Let_def intro: sys_pause_inv split: prod.splits\<close>)

lemma handler_inv:
  assumes "kernel_inv (m_kernel s)" "SysCallHandler d p g s = Some x"
  shows "kernel_inv (m_kernel (machine_of x))"
proof (cases "NR_SYSCALLS \<le> unat (eax g)")
  case True
  then show ?thesis using assms by (cases "sys_kill (t_pid (cur (m_kernel s))) SIGSYS (m_kernel s)") (auto simp: SysCallHandler_def intro: sys_kill_inv)
next
  case False
  show ?thesis
  proof (cases "setup_syscalls ! unat (eax g)")
    case None
    then show ?thesis using assms False by (auto simp: SysCallHandler_def)
  next
    case (Some c)
    then obtain y where y: "sys_call d p c g s = Some y" "x = (case y of Ret r g1 s1 \<Rightarrow> Ret r (g1\<lparr>eax := word_of_int r\<rparr>) s1 | z \<Rightarrow> z)"
      using assms(2) False by (auto simp: SysCallHandler_def)
    then have "machine_of x = machine_of y" by (cases y) simp_all
    with y(1) show ?thesis using sys_call_inv assms(1) by metis
  qed
qed

section \<open>Every run of user programs\<close>

text \<open>
  A step is a system call of the current task, with any contents of its registers and whatever the machine supplies, or a timer
  interrupt.
\<close>

inductive mstep :: "'d drivers \<Rightarrow> 'd machine \<Rightarrow> 'd machine \<Rightarrow> bool" for d :: "'d drivers" where
  call_step: "SysCallHandler d p g s = Some x \<Longrightarrow> mstep d s (machine_of x)"
| tick_step: "mstep d s (set_kernel (switch_task ip sp bp (m_kernel s)) s)"

inductive_cases mstep_cases: "mstep d s s'"

lemma mstep_inv: "mstep d s s' \<Longrightarrow> kernel_inv (m_kernel s) \<Longrightarrow> kernel_inv (m_kernel s')"
  by (erule mstep_cases) (auto intro: handler_inv timer_inv)


section \<open>Numbers without a call\<close>

lemma signal_self:
  assumes inv: "kernel_inv k" and me: "current k \<noteq> 0" and sign: "1 \<le> sign" "sign \<le> 32"
  shows "snd (sys_kill (t_pid (cur k)) sign k) = set_cur (\<lambda>t. t\<lparr>t_signals := t_signals t OR push_bit (nat (sign - 1)) 1\<rparr>) k"
proof -
  have "sched_ok k" "\<not> dead (cur k)" using inv by (simp_all add: kernel_inv_def procs_ok_def)
  then have p: "t_pid (cur k) = int (current k)" "current k < NR_TASKS" "t_pid (cur k) \<noteq> NO_TASK"
    by (auto simp: sched_ok_def table_ok_def cur_def dead_def)
  have "send_signal (t_cred (cur k)) sign (cur k) = (0, (cur k)\<lparr>t_signals := t_signals (cur k) OR push_bit (nat (sign - 1)) 1\<rparr>)"
    by (simp add: send_signal_def may_signal_def)
  then show ?thesis using p me sign by (auto simp: sys_kill_def Let_def set_cur_def cur_def NO_TASK_def)
qed

lemma ENOSYS_word: "sint (word_of_int (err ENOSYS) :: uint) = - errno_code ENOSYS"
  by (simp add: err_def)

lemma unassigned_None: "\<forall>c. NR c \<noteq> i \<Longrightarrow> i < NR_SYSCALLS \<Longrightarrow> setup_syscalls ! i = None"
  using setup_syscalls_nth by (cases "setup_syscalls ! i") auto

text \<open>
  C37: a call with a number that has no entry returns \<open>-1\<close> to the user's program and sets \<^verbatim>\<open>errno\<close> to \<^verbatim>\<open>ENOSYS\<close>. Within the table
  nothing else changes; a number behind it makes the signal \<^verbatim>\<open>SIGSYS\<close> pending for the calling process.
\<close>

theorem unassigned_syscall:
  assumes "\<forall>c. NR c \<noteq> nr" "nr < 2 ^ 32" "kernel_inv (m_kernel s)" "current (m_kernel s) \<noteq> 0"
  shows "syscall3 d p nr a b c g e s = Some ((- 1, errno_code ENOSYS),
    if nr < NR_SYSCALLS then s
    else set_kernel (set_cur (\<lambda>t. t\<lparr>t_signals := t_signals t OR push_bit 30 1\<rparr>) (m_kernel s)) s)"
proof -
  have n: "unat (word_of_nat nr :: uint) = nr" using assms(2) by (simp add: unat_of_nat)
  have r: "user_result (g1\<lparr>eax := word_of_int (err ENOSYS)\<rparr>) e = (- 1, errno_code ENOSYS)" for g1
    unfolding user_result_def by (simp add: ENOSYS_word[unfolded err_def] err_def)
  have "snd (sys_kill (t_pid (cur (m_kernel s))) SIGSYS (m_kernel s)) = set_cur (\<lambda>t. t\<lparr>t_signals := t_signals t OR push_bit 30 1\<rparr>) (m_kernel s)"
    using signal_self[OF assms(3,4), of SIGSYS] by (simp add: SIGSYS_def)
  then show ?thesis using n r unassigned_None[OF assms(1)] by (simp add: syscall3_def int80_def SysCallHandler_def not_le)
qed

text \<open>The interrupt gate keeps interrupts off, so that waiting for a process that has not ended never returns.\<close>

lemma waitpid_hangs:
  assumes "0 < pid" "pid < int NR_TASKS" "t_state (tasks (m_kernel s) ! nat pid) \<noteq> TASK_ZOMBIE"
  shows "syscall3 d p (NR Sys_waitpid) (word_of_int pid) b c g e s = None"
proof -
  have "setup_syscalls ! 7 = Some Sys_waitpid" by (subst setup_syscalls_nth) (simp_all add: NR_SYSCALLS_def)
  moreover have "sint (word_of_int pid :: uint) = pid"
    using assms(1,2) by (simp add: signed_of_int signed_take_bit_int_eq_self NR_TASKS_def)
  ultimately show ?thesis using assms by (simp add: syscall3_def int80_def SysCallHandler_def NR_SYSCALLS_def sys_waitpid_def)
qed

section \<open>An example\<close>

definition demo_drivers :: "unit drivers" where
  "demo_drivers = \<lparr>d_lookup = demo_lk, d_fop = demo_fops, d_put_super = (\<lambda>_ k. k), d_rootfs = 0, d_initrdfs = 1, d_devfs = 2, d_ext2 = 3\<rparr>"

definition demo_fresh :: fresh where
  "demo_fresh = \<lparr>new_dir = 1, new_kstack = 0, new_buf = 0, saved_eip = 0, saved_esp = 0, saved_ebp = 0\<rparr>"

definition demo_machine :: "unit machine" where
  "demo_machine = \<lparr>m_sys = demo_mstate\<lparr>ms_kernel := demo_run\<rparr>, m_spaces = (\<lambda>_ _. 0), m_text = \<lparr>kmem = (\<lambda>_. 0), kx = 0, ky = 0, kports = []\<rparr>, m_pages = []\<rparr>"


definition demo_two :: "unit kernel" where
  "demo_two = demo_run\<lparr>tasks := (tasks demo_run)[1 := (demo_task (replicate 32 None))\<lparr>t_pid := 1\<rparr>], current := 1\<rparr>"

lemma demo_two_inv: "kernel_inv demo_two"
proof -
  let ?t = "(demo_task (replicate 32 None))\<lparr>t_pid := 1\<rparr>"
  have inv: "files_inv demo_run" "sched_ok demo_run" "\<not> dead (tasks demo_run ! 0)"
      "\<And>i. i < NR_TASKS \<Longrightarrow> dead (tasks demo_run ! i) \<Longrightarrow> t_files (tasks demo_run ! i) = replicate NR_OPEN None"
    using demo_run_inv by (simp_all add: kernel_inv_def procs_ok_def)
  have l: "length (tasks demo_run) = NR_TASKS" "current demo_run < NR_TASKS" "1 < NR_TASKS" using inv(2) by (auto simp: sched_ok_def table_ok_def NR_TASKS_def)
  have f: "t_files (tasks demo_run ! 1) = replicate 32 None" by (simp add: demo_run_def demo_task_def)
  have d: "\<not> dead ?t" by (simp add: dead_def demo_task_def NO_TASK_def)
  have "map t_files (tasks demo_two) = map t_files (tasks demo_run)"
    using l f by (auto simp: demo_two_def demo_task_def nth_list_update intro!: nth_equalityI)
  then have "files_inv demo_two" by (rule files_inv_same_files[OF inv(1)]) (simp_all add: demo_two_def NR_TASKS_def)
  moreover have "sched_ok demo_two" using inv(2) l d by (auto simp: sched_ok_def table_ok_def demo_two_def cur_def nth_list_update demo_task_def NO_TASK_def)
  moreover have "t_files (tasks demo_two ! i) = replicate NR_OPEN None" if "i < NR_TASKS" "dead (tasks demo_two ! i)" for i
    using that inv(4)[of i] d l by (cases "i = 1") (auto simp: demo_two_def)
  ultimately show ?thesis using d inv(3) l by (simp add: kernel_inv_def procs_ok_def demo_two_def cur_def)
qed

theorem unassigned_syscall_witness:
  "syscall3 demo_drivers demo_fresh 21 0 0 0 demo_regs 0 (set_kernel demo_two demo_machine) = Some ((- 1, 38), set_kernel demo_two demo_machine) \<and>
   syscall3 demo_drivers demo_fresh 128 0 0 0 demo_regs 0 (set_kernel demo_two demo_machine) = Some ((- 1, 38),
     set_kernel (set_cur (\<lambda>t. t\<lparr>t_signals := t_signals t OR push_bit 30 1\<rparr>) demo_two) demo_machine)"
proof -
  have n: "NR c \<noteq> 21" "NR c \<noteq> 128" for c by (cases c; simp)+
  have "current demo_two \<noteq> 0" by (simp add: demo_two_def)
  then have "syscall3 demo_drivers demo_fresh nr 0 0 0 demo_regs 0 (set_kernel demo_two demo_machine) = Some ((- 1, errno_code ENOSYS),
      if nr < NR_SYSCALLS then set_kernel demo_two demo_machine
      else set_kernel (set_cur (\<lambda>t. t\<lparr>t_signals := t_signals t OR push_bit 30 1\<rparr>) demo_two) (set_kernel demo_two demo_machine))"
    if "nr = 21 \<or> nr = 128" for nr
    using unassigned_syscall[of nr "set_kernel demo_two demo_machine" demo_drivers demo_fresh 0 0 0 demo_regs 0] n that demo_two_inv by auto
  from this[of 21] this[of 128] show ?thesis by (simp add: NR_SYSCALLS_def set_kernel_def)
qed

end
