(* ===== verification/Devfs.thy ===== *)
theory Devfs
  imports Directory
begin

text \<open>
  The device filesystem: \<^verbatim>\<open>src/fs/devfs/\<close> and \<^verbatim>\<open>src/include/fs/devfs.h\<close>. Handles live in a store and the cache is
  the list of pointers through \<^verbatim>\<open>cache_next\<close>. An inode's \<^verbatim>\<open>u.devfs_i\<close> is its field \<open>v_u\<close>; the pointer \<^verbatim>\<open>node\<close> from
  a handle back to its inode is the inode in the cache whose \<open>v_u\<close> is the handle (\<open>node_of\<close>), because it is set when
  the inode is read and cleared when the inode is released. The table in \<^verbatim>\<open>pdata\<close> is a list of entries; the
  number of entries is computed from the size, as in the code. The fields only drivers use are left out.
\<close>

definition DEVFS_FILENAME_LEN :: nat where "DEVFS_FILENAME_LEN = 16"
definition d_entry_size :: nat where "d_entry_size = 24"

record devfs_handle =
  h_ino :: uint
  h_nlinks :: uchar
  h_uid :: ushort
  h_gid :: ushort
  h_mode :: uint
  h_flags :: uint
  h_size :: uint
  h_pdata :: "(uint \<times> string) list"
  h_fop :: nat
  h_parent :: "nat option"

record devfs =
  handles :: "nat \<Rightarrow> devfs_handle option"
  next_handle :: nat
  dcache :: "nat list"
  next_inode :: uint
  devfs_root :: "nat option"
  devfs_sb :: "nat option"

section \<open>The cache\<close>

definition devfs_create_cache :: "devfs \<Rightarrow> devfs" where
  "devfs_create_cache d = d\<lparr>dcache := []\<rparr>"

definition devfs_add_to_cache :: "nat \<Rightarrow> devfs \<Rightarrow> devfs" where
  "devfs_add_to_cache p d = d\<lparr>dcache := p # dcache d\<rparr>"

text \<open>A handle that is not in the cache is a dangling pointer.\<close>

definition devfs_del_from_cache :: "nat option \<Rightarrow> devfs \<Rightarrow> devfs option" where
  "devfs_del_from_cache po d =
    (case po of
       None \<Rightarrow> Some d
     | Some p \<Rightarrow> if p \<notin> set (dcache d) then None else Some (d\<lparr>dcache := remove1 p (dcache d), handles := (handles d)(p := None)\<rparr>))"

definition ino_is :: "devfs \<Rightarrow> uint \<Rightarrow> nat \<Rightarrow> bool" where
  "ino_is d ino p \<longleftrightarrow> (case handles d p of Some h \<Rightarrow> h_ino h = ino | None \<Rightarrow> False)"

definition devfs_iget :: "devfs \<Rightarrow> uint \<Rightarrow> nat option" where
  "devfs_iget d ino = find (ino_is d ino) (dcache d)"

definition devfs_free_cache :: "devfs \<Rightarrow> devfs" where
  "devfs_free_cache d = d\<lparr>handles := (\<lambda>p. if p \<in> set (dcache d) then None else handles d p), dcache := []\<rparr>"

section \<open>Inodes\<close>

definition devfs_handle2vnode :: "nat \<Rightarrow> devfs_handle \<Rightarrow> vnode \<Rightarrow> vnode" where
  "devfs_handle2vnode p h v =
    v\<lparr>v_flags := h_flags h, v_gid := h_gid h, v_uid := h_uid h, v_mode := h_mode h, v_size := h_size h, v_lookup := True, v_u := p\<rparr>"

definition empty_vnode :: "nat \<Rightarrow> uint \<Rightarrow> vnode" where
  "empty_vnode sb ino = \<lparr>v_ino = ino, v_count = 1, v_uid = 0, v_gid = 0, v_mode = 0, v_flags = 0, v_size = 0, v_sb = sb,
     v_lookup = False, v_u = 0, v_mount = None, v_cover = None\<rparr>"

text \<open>Handles are numbered from 1, so that \<open>v_u = 0\<close> is the null pointer.\<close>

definition devfs_read_inode :: "devfs \<Rightarrow> nat \<Rightarrow> uint \<Rightarrow> vnode" where
  "devfs_read_inode d sb ino =
    (case devfs_iget d ino of
       None \<Rightarrow> empty_vnode sb ino
     | Some p \<Rightarrow> (case handles d p of None \<Rightarrow> empty_vnode sb ino | Some h \<Rightarrow> devfs_handle2vnode p h (empty_vnode sb ino)))"

definition node_of :: "devfs \<Rightarrow> vfs \<Rightarrow> nat \<Rightarrow> nat option" where
  "node_of d st p =
    (case devfs_sb d of None \<Rightarrow> None
     | Some sb \<Rightarrow> (case supers st sb of None \<Rightarrow> None
       | Some s \<Rightarrow> find (\<lambda>n. case vnodes st n of Some v \<Rightarrow> v_u v = p | None \<Rightarrow> False) (s_cache s)))"

text \<open>\<^verbatim>\<open>if (dir->node) devfs_handle2vnode(dir->node, dir)\<close>\<close>

definition refresh :: "nat \<Rightarrow> devfs \<Rightarrow> vfs \<Rightarrow> vfs option" where
  "refresh p d st = do {
     h \<leftarrow> handles d p;
     case node_of d st p of None \<Rightarrow> Some st | Some n \<Rightarrow> upd_vnode n (devfs_handle2vnode p h) st
   }"

section \<open>Directories\<close>

definition entr_num :: "uint \<Rightarrow> nat" where
  "entr_num sz = unat sz div d_entry_size"

text \<open>A name of more than 16 bytes makes \<^verbatim>\<open>strncpy\<close> run past the entry.\<close>

definition devfs_add_d_entry :: "nat \<Rightarrow> string \<Rightarrow> uint \<Rightarrow> devfs \<times> vfs \<Rightarrow> (devfs \<times> vfs) option" where
  "devfs_add_d_entry p name ino s = (case s of (d, st) \<Rightarrow> do {
     h \<leftarrow> handles d p;
     if length name > DEVFS_FILENAME_LEN \<or> entr_num (h_size h) > length (h_pdata h) then None
     else do {
       let n = entr_num (h_size h);
       let d1 = d\<lparr>handles := (handles d)(p \<mapsto> h\<lparr>h_size := of_nat ((n + 1) * d_entry_size), h_pdata := take n (h_pdata h) @ [(ino, name)]\<rparr>)\<rparr>;
       st1 \<leftarrow> refresh p d1 st;
       Some (d1, st1)
     }
   })"

definition del_index :: "uint \<Rightarrow> (uint \<times> string) list \<Rightarrow> nat" where
  "del_index ino es = 2 + length (takeWhile (\<lambda>e. fst e \<noteq> ino) (drop 2 es))"

definition devfs_del_d_entry :: "nat option \<Rightarrow> uint \<Rightarrow> devfs \<times> vfs \<Rightarrow> (devfs \<times> vfs) option" where
  "devfs_del_d_entry po ino s = (case po of None \<Rightarrow> Some s | Some p \<Rightarrow> (case s of (d, st) \<Rightarrow> do {
     h \<leftarrow> handles d p;
     if entr_num (h_size h) > length (h_pdata h) then None
     else do {
       let es = take (entr_num (h_size h)) (h_pdata h);
       let i = del_index ino es;
       if i \<ge> length es then Some (d, st)
       else do {
         let d1 = d\<lparr>handles := (handles d)(p \<mapsto> h\<lparr>h_size := h_size h - of_nat d_entry_size, h_pdata := take i es @ drop (Suc i) es\<rparr>)\<rparr>;
         st1 \<leftarrow> refresh p d1 st;
         Some (d1, st1)
       }
     }
   }))"

definition devfs_register_device ::
  "nat option \<Rightarrow> string \<Rightarrow> uint \<Rightarrow> ushort \<Rightarrow> ushort \<Rightarrow> uint \<Rightarrow> nat \<Rightarrow> devfs \<times> vfs \<Rightarrow> (nat option \<times> devfs \<times> vfs) option" where
  "devfs_register_device diro name mode uid gid type f_op s = (case s of (d, st) \<Rightarrow>
    (case (case diro of None \<Rightarrow> devfs_root d | Some p \<Rightarrow> Some p) of
       None \<Rightarrow> Some (None, d, st)
     | Some dir \<Rightarrow> do {
         dh \<leftarrow> handles d dir;
         if h_flags dh AND 7 \<noteq> FS_DIRECTORY then Some (None, d, st)
         else do {
           let p = next_handle d;
           let h = \<lparr>h_ino = next_inode d, h_nlinks = 1, h_uid = uid, h_gid = gid, h_mode = mode, h_flags = type, h_size = 1,
                    h_pdata = [], h_fop = f_op, h_parent = Some dir\<rparr>;
           let d1 = d\<lparr>handles := (handles d)(p \<mapsto> h), next_handle := Suc p, next_inode := next_inode d + 1\<rparr>;
           (d2, st2) \<leftarrow> devfs_add_d_entry dir name (next_inode d) (d1, st);
           Some (Some p, devfs_add_to_cache p d2, st2)
         }
       }))"

definition devfs_unregister_device :: "nat option \<Rightarrow> devfs \<times> vfs \<Rightarrow> (devfs \<times> vfs) option" where
  "devfs_unregister_device po s = (case po of None \<Rightarrow> Some s | Some p \<Rightarrow> do {
     h \<leftarrow> handles (fst s) p;
     (d1, st1) \<leftarrow> devfs_del_d_entry (h_parent h) (h_ino h) s;
     d2 \<leftarrow> devfs_del_from_cache (Some p) d1;
     Some (d2, st1)
   })"

definition devfs_readdir :: "devfs \<Rightarrow> vnode \<Rightarrow> nat \<Rightarrow> (errno + uint \<times> string \<times> uint) option" where
  "devfs_readdir d v index =
    (if v_u v = 0 then Some (Inl EINVAL)
     else do {
       h \<leftarrow> handles d (v_u v);
       if index \<ge> entr_num (h_size h) then Some (Inl EINVAL)
       else if index \<ge> length (h_pdata h) then None
       else do {
         let (ino, name) = h_pdata h ! index;
         p \<leftarrow> devfs_iget d ino;
         fi \<leftarrow> handles d p;
         Some (Inr (ino, name, h_flags fi))
       }
     })"

text \<open>The search uses the size of the inode, not of the handle.\<close>

fun find_d_entry :: "(uint \<times> string) list \<Rightarrow> string \<Rightarrow> nat \<Rightarrow> uint option" where
  "find_d_entry es name 0 = None"
| "find_d_entry es name (Suc i) = (if namei_match name (snd (es ! i)) then Some (fst (es ! i)) else find_d_entry es name i)"

text \<open>The table a lookup searches; \<open>None\<close> is a dangling handle or a table shorter than the size says.\<close>

definition devfs_table :: "devfs \<Rightarrow> vnode \<Rightarrow> (uint \<times> string) list option" where
  "devfs_table d v = do {
     h \<leftarrow> handles d (v_u v);
     if entr_num (v_size v) > length (h_pdata h) then None else Some (take (entr_num (v_size v)) (h_pdata h))
   }"

definition devfs_lookup :: "devfs \<Rightarrow> lookup_op" where
  "devfs_lookup d dir name st = do {
     v \<leftarrow> vnodes st dir;
     if v_u v = 0 then Some (None, st)
     else do {
       es \<leftarrow> devfs_table d v;
       case find_d_entry es name (length es) of None \<Rightarrow> Some (None, st) | Some ino \<Rightarrow> iget (devfs_read_inode d) (Some (v_sb v)) ino st
     }
   }"

section \<open>The super block\<close>

text \<open>The mode is the decimal number 755.\<close>

definition devfs_empty_dir :: "uint \<Rightarrow> uint \<Rightarrow> devfs \<Rightarrow> nat \<times> devfs" where
  "devfs_empty_dir ino parent d =
    (let p = next_handle d;
         h = \<lparr>h_ino = ino, h_nlinks = 1, h_uid = 0, h_gid = 0, h_mode = 755, h_flags = FS_DIRECTORY, h_size = of_nat (d_entry_size * 2),
              h_pdata = [(ino, ''.''), (parent, ''..'')], h_fop = 0, h_parent = devfs_iget d parent\<rparr>
     in (p, devfs_add_to_cache p (d\<lparr>handles := (handles d)(p \<mapsto> h), next_handle := Suc p\<rparr>)))"

definition devfs_put_super :: "devfs \<Rightarrow> devfs" where
  "devfs_put_super d = (devfs_free_cache d)\<lparr>devfs_root := None, next_inode := 0, devfs_sb := None\<rparr>"

definition read_devfs_sb :: "nat \<Rightarrow> devfs \<times> vfs \<Rightarrow> (bool \<times> devfs \<times> vfs) option" where
  "read_devfs_sb sb s = (case s of (d, st) \<Rightarrow>
    (if devfs_sb d \<noteq> None then Some (False, d, st)
     else do {
       s0 \<leftarrow> supers st sb;
       let (p, d1) = devfs_empty_dir 0 0 (devfs_create_cache (d\<lparr>devfs_sb := Some sb\<rparr>));
       let d2 = d1\<lparr>devfs_root := Some p\<rparr>;
       (r, st1) \<leftarrow> iget (devfs_read_inode d2) (Some sb) 0 (st\<lparr>supers := (supers st)(sb \<mapsto> s0\<lparr>s_op := True\<rparr>)\<rparr>);
       s1 \<leftarrow> supers st1 sb;
       Some (True, d2, st1\<lparr>supers := (supers st1)(sb \<mapsto> s1\<lparr>s_root := r\<rparr>)\<rparr>)
     }))"

section \<open>Lookup\<close>

lemma find_d_entry_None: "find_d_entry es name k = None \<longleftrightarrow> (\<forall>i < k. \<not> namei_match name (snd (es ! i)))"
  by (induction k) (auto simp: less_Suc_eq)

lemma find_d_entry_last:
  "i < k \<Longrightarrow> namei_match name (snd (es ! i)) \<Longrightarrow> (\<And>j. i < j \<Longrightarrow> j < k \<Longrightarrow> \<not> namei_match name (snd (es ! j))) \<Longrightarrow>
     find_d_entry es name k = Some (fst (es ! i))"
proof (induction k)
  case (Suc k)
  then show ?case by (cases "i = k") auto
qed simp

interpretation devfs: fs_directory
  length "\<lambda>es i name. namei_match name (snd (es ! i))" "\<lambda>es i. fst (es ! i)" "\<lambda>es name. find_d_entry es name (length es)"
  "\<lambda>v. if v_u v = 0 then None else devfs_table d v" "devfs_read_inode d" "devfs_lookup d"
  for d
  by unfold_locales
    (simp_all add: find_d_entry_None find_d_entry_last devfs_lookup_def split: if_splits)

section \<open>Invariants\<close>

text \<open>
  The cache lists all handles, an inode number is that of one handle and has been given out, and a directory's
  size is that of its table.
\<close>

definition sized :: "devfs_handle \<Rightarrow> bool" where
  "sized h \<longleftrightarrow> h_size h = of_nat (d_entry_size * length (h_pdata h)) \<and> d_entry_size * length (h_pdata h) < 2 ^ 32"

definition is_dir :: "devfs_handle \<Rightarrow> bool" where
  "is_dir h \<longleftrightarrow> h_flags h AND 7 = FS_DIRECTORY"

definition devfs_inv :: "devfs \<Rightarrow> bool" where
  "devfs_inv d \<longleftrightarrow> distinct (dcache d) \<and> set (dcache d) = dom (handles d) \<and>
     (\<forall>p h. handles d p = Some h \<longrightarrow> 0 < p \<and> p < next_handle d \<and> h_ino h < next_inode d \<and> (is_dir h \<longrightarrow> sized h)) \<and>
     (\<forall>p q h g. handles d p = Some h \<longrightarrow> handles d q = Some g \<longrightarrow> h_ino h = h_ino g \<longrightarrow> p = q) \<and>
     0 < next_handle d"

text \<open>Every inode of the filesystem that is in use shows what its handle says.\<close>

definition shows_handle :: "devfs \<Rightarrow> vnode \<Rightarrow> bool" where
  "shows_handle d v \<longleftrightarrow> (\<exists>h. handles d (v_u v) = Some h \<and> devfs_handle2vnode (v_u v) h v = v \<and> v_ino v = h_ino h)"

definition linked :: "devfs \<Rightarrow> vfs \<Rightarrow> nat \<Rightarrow> bool" where
  "linked d st sb \<longleftrightarrow> devfs_sb d = Some sb \<and> (\<exists>s. supers st sb = Some s \<and> s_op s) \<and>
     (\<forall>n v. vnodes st n = Some v \<longrightarrow> v_sb v = sb \<longrightarrow> shows_handle d v)"

lemma unat_small: "x < 2 ^ 32 \<Longrightarrow> unat (of_nat x :: uint) = x"
  by (simp add: unat_of_nat)

lemma entr_num_sized:
  assumes "sized h" shows "entr_num (h_size h) = length (h_pdata h)"
proof -
  have "unat (h_size h) = d_entry_size * length (h_pdata h)"
    using assms unat_small[of "d_entry_size * length (h_pdata h)"] by (simp only: sized_def)
  then show ?thesis by (simp add: entr_num_def d_entry_size_def)
qed

lemma handle2vnode_fields [simp]:
  "v_ino (devfs_handle2vnode p h v) = v_ino v" "v_sb (devfs_handle2vnode p h v) = v_sb v" "v_count (devfs_handle2vnode p h v) = v_count v"
  "v_u (devfs_handle2vnode p h v) = p" "v_size (devfs_handle2vnode p h v) = h_size h"
  "devfs_handle2vnode p h (devfs_handle2vnode q g v) = devfs_handle2vnode p h v"
  "devfs_handle2vnode p h (v\<lparr>v_ino := i\<rparr>) = (devfs_handle2vnode p h v)\<lparr>v_ino := i\<rparr>"
  by (simp_all add: devfs_handle2vnode_def)

lemma handle2vnode_shows:
  assumes "devfs_handle2vnode p h w = w"
  shows "v_mode w = h_mode h" "v_uid w = h_uid h" "v_gid w = h_gid h" "v_flags w = h_flags h" "v_u w = p" "v_size w = h_size h"
  by (subst assms[symmetric], simp add: devfs_handle2vnode_def)+

lemma linkedD: "linked d st sb \<Longrightarrow> vnodes st n = Some v \<Longrightarrow> v_sb v = sb \<Longrightarrow> \<exists>h. handles d (v_u v) = Some h \<and> v_ino v = h_ino h"
  by (auto simp: linked_def shows_handle_def)

lemma devfs_inv_ino: "devfs_inv d \<Longrightarrow> handles d p = Some h \<Longrightarrow> h_ino h < next_inode d"
  by (simp add: devfs_inv_def)

text \<open>The inode of a handle is the only one that shows it.\<close>

lemma node_of_iff:
  assumes vi: "vfs_inv st" and di: "devfs_inv d" and l: "linked d st sb"
  shows "node_of d st p = Some n \<longleftrightarrow> (\<exists>v. vnodes st n = Some v \<and> v_sb v = sb \<and> v_u v = p)"
proof -
  obtain s where s: "supers st sb = Some s" "devfs_sb d = Some sb" using l by (auto simp: linked_def)
  have c: "cache_ok st sb s" using vfs_inv_cache[OF vi s(1)] .
  let ?P = "\<lambda>n. case vnodes st n of Some v \<Rightarrow> v_u v = p | None \<Rightarrow> False"
  have cached: "n \<in> set (s_cache s) \<longleftrightarrow> (\<exists>v. vnodes st n = Some v \<and> v_sb v = sb)" for n
    using cache_okD[OF c] vfs_inv_node[OF vi] s(1) by (fastforce simp: node_ok_def)
  have uniq: "m = n" if m: "m \<in> set (s_cache s)" "?P m" and n: "n \<in> set (s_cache s)" "?P n" for m n
  proof -
    have "ino_of st m = ino_of st n" using m n l cached
      by (auto simp: linked_def shows_handle_def ino_of_def split: option.splits) (metis option.inject)
    then show ?thesis using c m(1) n(1) by (auto simp: cache_ok_def distinct_map inj_on_def)
  qed
  have f: "node_of d st p = find ?P (s_cache s)" using s by (simp add: node_of_def)
  show ?thesis
  proof
    assume "node_of d st p = Some n"
    then have "n \<in> set (s_cache s)" "?P n" using f by (auto simp: find_Some_iff)
    then show "\<exists>v. vnodes st n = Some v \<and> v_sb v = sb \<and> v_u v = p" using cached by (auto split: option.splits)
  next
    assume "\<exists>v. vnodes st n = Some v \<and> v_sb v = sb \<and> v_u v = p"
    then have n: "n \<in> set (s_cache s)" "?P n" using cached by auto
    then obtain m where m: "find ?P (s_cache s) = Some m" using find_None_iff[of ?P "s_cache s"] by (cases "find ?P (s_cache s)") auto
    then have "m \<in> set (s_cache s)" "?P m" by (auto simp: find_Some_iff)
    then have "m = n" using n by (intro uniq) simp_all
    then show "node_of d st p = Some n" using f m by simp
  qed
qed

section \<open>Registering a device\<close>

definition grow :: "uint \<Rightarrow> string \<Rightarrow> devfs_handle \<Rightarrow> devfs_handle" where
  "grow ino name h = h\<lparr>h_size := of_nat (d_entry_size * Suc (length (h_pdata h))), h_pdata := h_pdata h @ [(ino, name)]\<rparr>"

lemma grow_simps [simp]:
  "h_ino (grow ino name h) = h_ino h" "h_pdata (grow ino name h) = h_pdata h @ [(ino, name)]" "is_dir (grow ino name h) = is_dir h"
  "d_entry_size * Suc (length (h_pdata h)) < 2 ^ 32 \<Longrightarrow> sized (grow ino name h)"
  by (simp_all add: grow_def is_dir_def sized_def)

lemma add_d_entry_eq:
  assumes h: "handles d p = Some h" "sized h" and name: "length name \<le> DEVFS_FILENAME_LEN"
    and n: "node_of d st p = Some n" "vnodes st n = Some v"
  shows "devfs_add_d_entry p name ino (d, st) =
    Some (d\<lparr>handles := (handles d)(p \<mapsto> grow ino name h)\<rparr>, st\<lparr>vnodes := (vnodes st)(n \<mapsto> devfs_handle2vnode p (grow ino name h) v)\<rparr>)"
proof -
  have "node_of (d\<lparr>handles := x\<rparr>) st p = node_of d st p" for x by (simp add: node_of_def)
  moreover have "of_nat ((length (h_pdata h) + 1) * d_entry_size) = (of_nat (d_entry_size * Suc (length (h_pdata h))) :: uint)"
    by (simp only: mult.commute Suc_eq_plus1)
  ultimately show ?thesis using h name n entr_num_sized[OF h(2)]
    by (simp add: devfs_add_d_entry_def refresh_def upd_vnode_def grow_def Let_def del: of_nat_mult of_nat_Suc)
qed

definition new_device :: "devfs \<Rightarrow> nat \<Rightarrow> uint \<Rightarrow> ushort \<Rightarrow> ushort \<Rightarrow> uint \<Rightarrow> nat \<Rightarrow> devfs_handle" where
  "new_device d dir mode uid gid type f_op = \<lparr>h_ino = next_inode d, h_nlinks = 1, h_uid = uid, h_gid = gid, h_mode = mode,
     h_flags = type, h_size = 1, h_pdata = [], h_fop = f_op, h_parent = Some dir\<rparr>"

definition registered :: "devfs \<Rightarrow> nat \<Rightarrow> string \<Rightarrow> devfs_handle \<Rightarrow> devfs_handle \<Rightarrow> devfs" where
  "registered d dir name dh h = d\<lparr>handles := (handles d)(next_handle d \<mapsto> h, dir \<mapsto> grow (next_inode d) name dh),
     next_handle := Suc (next_handle d), dcache := next_handle d # dcache d, next_inode := next_inode d + 1\<rparr>"

lemma register_eq:
  assumes inv: "devfs_inv d" and dir: "handles d dir = Some dh" "is_dir dh" "node_of d st dir = Some n" "vnodes st n = Some v"
    and name: "length name \<le> DEVFS_FILENAME_LEN"
  shows "devfs_register_device (Some dir) name mode uid gid type f_op (d, st) =
    Some (Some (next_handle d), registered d dir name dh (new_device d dir mode uid gid type f_op),
      st\<lparr>vnodes := (vnodes st)(n \<mapsto> devfs_handle2vnode dir (grow (next_inode d) name dh) v)\<rparr>)"
proof -
  let ?h = "new_device d dir mode uid gid type f_op"
  let ?d1 = "d\<lparr>handles := (handles d)(next_handle d \<mapsto> ?h), next_handle := Suc (next_handle d), next_inode := next_inode d + 1\<rparr>"
  have "sized dh" "dir < next_handle d" using inv dir by (simp_all add: devfs_inv_def)
  moreover have "node_of ?d1 st dir = Some n" using dir(3) by (simp add: node_of_def)
  ultimately have "devfs_add_d_entry dir name (next_inode d) (?d1, st) = Some (?d1\<lparr>handles := (handles ?d1)(dir \<mapsto> grow (next_inode d) name dh)\<rparr>,
      st\<lparr>vnodes := (vnodes st)(n \<mapsto> devfs_handle2vnode dir (grow (next_inode d) name dh) v)\<rparr>)"
    using dir name by (intro add_d_entry_eq) simp_all
  then show ?thesis using dir
    by (simp add: devfs_register_device_def is_dir_def new_device_def registered_def devfs_add_to_cache_def Let_def)
qed

lemma registered_inv:
  assumes inv: "devfs_inv d" and dir: "handles d dir = Some dh" "is_dir dh"
    and room: "next_inode d \<noteq> - 1" "d_entry_size * Suc (length (h_pdata dh)) < 2 ^ 32" and h: "h_ino h = next_inode d" "\<not> is_dir h"
  shows "devfs_inv (registered d dir name dh h)"
proof -
  let ?d = "registered d dir name dh h"
  note up = word_less_inc[OF room(1)]
  have p: "handles d (next_handle d) = None"
    using inv by (cases "handles d (next_handle d)") (auto simp: devfs_inv_def)
  have old: "q < next_handle d \<and> 0 < q \<and> h_ino g < next_inode d \<and> (is_dir g \<longrightarrow> sized g)" if "handles d q = Some g" for q g
    using inv that by (simp add: devfs_inv_def)
  have uniq: "q = r" if "handles d q = Some g" "handles d r = Some f" "h_ino g = h_ino f" for q r g f
    using inv that unfolding devfs_inv_def by blast
  have new: "handles ?d q = Some g \<Longrightarrow> (q = next_handle d \<and> g = h) \<or> (q = dir \<and> g = grow (next_inode d) name dh) \<or>
      (handles d q = Some g \<and> q \<noteq> dir)" for q g using old[OF dir(1)] by (auto simp: registered_def split: if_splits)
  have "distinct (dcache ?d)" "set (dcache ?d) = dom (handles ?d)" "0 < next_handle ?d"
    using inv p dir(1) by (auto simp: devfs_inv_def registered_def)
  moreover have "0 < q \<and> q < next_handle ?d \<and> h_ino g < next_inode ?d \<and> (is_dir g \<longrightarrow> sized g)" if "handles ?d q = Some g" for q g
    using new[OF that] old old[OF dir(1)] h room inv dir up by (fastforce simp: registered_def devfs_inv_def)
  moreover have "q = r" if "handles ?d q = Some g" "handles ?d r = Some f" "h_ino g = h_ino f" for q r g f
    using new[OF that(1)] new[OF that(2)] that(3) h old dir(1) uniq by (metis grow_simps(1) less_irrefl)
  ultimately show ?thesis unfolding devfs_inv_def by blast
qed

lemma registered_linked:
  assumes inv: "devfs_inv d" "vfs_inv st" "linked d st sb"
    and dir: "handles d dir = Some dh" "node_of d st dir = Some n" "vnodes st n = Some v"
    and w_def: "w = devfs_handle2vnode dir (grow (next_inode d) name dh) v"
  shows "vfs_inv (st\<lparr>vnodes := (vnodes st)(n \<mapsto> w)\<rparr>)" "linked (registered d dir name dh h) (st\<lparr>vnodes := (vnodes st)(n \<mapsto> w)\<rparr>) sb"
proof -
  let ?d = "registered d dir name dh h" and ?st = "st\<lparr>vnodes := (vnodes st)(n \<mapsto> w)\<rparr>"
  have v: "v_sb v = sb" "v_u v = dir" using dir node_of_iff[OF inv(2,1,3)] by auto
  have "v_count v \<noteq> 0" using vfs_inv_node[OF inv(2) dir(3)] by (simp add: node_ok_def)
  then show "vfs_inv ?st" by (intro vfs_inv_upd[OF inv(2) dir(3)]) (simp_all add: w_def)
  have p: "handles d (next_handle d) = None" using inv(1) by (cases "handles d (next_handle d)") (auto simp: devfs_inv_def)
  have "v_ino v = h_ino dh" using linkedD[OF inv(3) dir(3)] dir(1) v by auto
  then have wd: "shows_handle ?d w" by (simp add: shows_handle_def w_def registered_def)
  have "shows_handle ?d u" if u: "vnodes st m = Some u" "v_sb u = sb" "m \<noteq> n" for m u
  proof -
    have sh: "shows_handle d u" using inv(3) u by (simp add: linked_def)
    have "v_u u \<noteq> dir" using u node_of_iff[OF inv(2,1,3), of dir m] dir(2) by auto
    moreover have "v_u u \<noteq> next_handle d" using sh p by (auto simp: shows_handle_def)
    ultimately show ?thesis using sh by (auto simp: shows_handle_def registered_def)
  qed
  then show "linked ?d ?st sb" using inv(3) wd by (auto simp: linked_def registered_def split: if_splits)
qed

lemma iget_fresh_device:
  assumes inv: "devfs_inv d" "vfs_inv st" "linked d st sb" and h: "h_ino h = next_inode d" and ne: "dir \<noteq> next_handle d"
    and st: "vfs_inv st'" "\<And>n. ino_of st' n = ino_of st n" "supers st' = supers st"
  shows "\<exists>st2. iget (devfs_read_inode (registered d dir name dh h)) (Some sb) (next_inode d) st' = Some (Some (next_node st'), st2) \<and>
    (\<exists>w. vnodes st2 (next_node st') = Some w \<and> v_ino w = next_inode d \<and> devfs_handle2vnode (next_handle d) h w = w \<and> v_sb w = sb)"
proof -
  let ?d = "registered d dir name dh h"
  obtain s where s: "supers st sb = Some s" "s_op s" using inv(3) by (auto simp: linked_def)
  have "ino_of st m \<noteq> next_inode d" if m: "m \<in> set (s_cache s)" for m
  proof -
    obtain u where u: "vnodes st m = Some u" "v_sb u = sb" using cache_okD[OF vfs_inv_cache[OF inv(2) s(1)] m] by blast
    have "v_ino u < next_inode d" using linkedD[OF inv(3) u] devfs_inv_ino[OF inv(1)] by metis
    then show ?thesis using u by (auto simp: ino_of_def)
  qed
  then have "next_inode d \<notin> set (map (ino_of st') (s_cache s))" using st(2) by (metis (no_types, lifting) imageE list.set_map)
  then have "iget (devfs_read_inode ?d) (Some sb) (next_inode d) st' =
      map_option (\<lambda>(n, st1). (Some n, st1)) (create_empty_inode (devfs_read_inode ?d) sb (next_inode d) st')"
    using s st(3) by (intro iget_new[OF st(1), of sb s]) simp_all
  moreover have "devfs_iget ?d (next_inode d) = Some (next_handle d)" using h ne by (simp add: devfs_iget_def registered_def ino_is_def)
  then have "devfs_read_inode ?d sb (next_inode d) = devfs_handle2vnode (next_handle d) h (empty_vnode sb (next_inode d))"
    using ne by (simp add: devfs_read_inode_def registered_def)
  ultimately show ?thesis using s st(3) by (simp add: create_empty_inode_def devfs_handle2vnode_def Let_def)
qed

text \<open>
  C8: a device that is registered in a directory is found there by its name: the lookup gives a new inode with
  the device's number, owner, mode and type. The invariants of the device filesystem and of the inode cache are
  kept, also when the name was in the directory before.
\<close>

theorem devfs_register_lookup:
  assumes inv: "devfs_inv d" "vfs_inv st" "linked d st sb"
    and dir: "handles d dir = Some dh" "is_dir dh" "node_of d st dir = Some n"
    and name: "length name \<le> DEVFS_FILENAME_LEN" and type: "type AND 7 \<noteq> FS_DIRECTORY"
    and room: "next_inode d \<noteq> - 1" "d_entry_size * Suc (length (h_pdata dh)) < 2 ^ 32"
  shows "\<exists>p d' st' m st2 w. devfs_register_device (Some dir) name mode uid gid type f_op (d, st) = Some (Some p, d', st') \<and>
    devfs_inv d' \<and> vfs_inv st' \<and> linked d' st' sb \<and> devfs_lookup d' n name st' = Some (Some m, st2) \<and> vnodes st2 m = Some w \<and>
    v_ino w = next_inode d \<and> v_mode w = mode \<and> v_uid w = uid \<and> v_gid w = gid \<and> v_flags w = type \<and> v_u w = p"
proof -
  let ?h = "new_device d dir mode uid gid type f_op"
  let ?d = "registered d dir name dh ?h"
  obtain v where v: "vnodes st n = Some v" "v_sb v = sb" "v_u v = dir" using node_of_iff[OF inv(2,1,3)] dir(3) by blast
  let ?w = "devfs_handle2vnode dir (grow (next_inode d) name dh) v" and ?st = "st\<lparr>vnodes := (vnodes st)(n \<mapsto> devfs_handle2vnode dir (grow (next_inode d) name dh) v)\<rparr>"
  have h: "h_ino ?h = next_inode d" "\<not> is_dir ?h" using type by (simp_all add: new_device_def is_dir_def)
  have l: "0 < dir" "dir \<noteq> next_handle d" using inv(1) dir(1) by (auto simp: devfs_inv_def)
  note r = register_eq[OF inv(1) dir v(1) name, of mode uid gid type f_op]
  note i = registered_inv[OF inv(1) dir(1,2) room h] registered_linked(1)[OF inv dir(1,3) v(1) refl, of name]
    registered_linked(2)[OF inv dir(1,3) v(1) refl, of name ?h]
  have io: "ino_of ?st m = ino_of st m" for m using v(1) by (simp add: ino_of_def)
  obtain st2 w where ig: "iget (devfs_read_inode ?d) (Some sb) (next_inode d) ?st = Some (Some (next_node ?st), st2)"
      "vnodes st2 (next_node ?st) = Some w" "v_ino w = next_inode d" "devfs_handle2vnode (next_handle d) ?h w = w"
    using iget_fresh_device[OF inv h(1) l(2) i(2) io, of name dh] by auto
  have "sized (grow (next_inode d) name dh)" using room(2) by simp
  then have "devfs_table ?d ?w = Some (h_pdata dh @ [(next_inode d, name)])"
    using entr_num_sized[of "grow (next_inode d) name dh"] by (simp add: devfs_table_def registered_def)
  then have "devfs_lookup ?d n name ?st = Some (Some (next_node ?st), st2)"
    using ig(1) l(1) v devfs.search_newest[of name "h_pdata dh @ [(next_inode d, name)]" "length (h_pdata dh)"]
    by (simp add: devfs_lookup_def namei_match_iff)
  moreover have "v_mode w = mode \<and> v_uid w = uid \<and> v_gid w = gid \<and> v_flags w = type \<and> v_u w = next_handle d"
    using handle2vnode_shows[OF ig(4)] by (simp add: new_device_def)
  ultimately show ?thesis using r i ig(2,3) by blast
qed

section \<open>A filesystem with an empty root directory\<close>

definition demo_devfs :: devfs where
  "demo_devfs = \<lparr>handles = [1 \<mapsto> \<lparr>h_ino = 0, h_nlinks = 1, h_uid = 0, h_gid = 0, h_mode = 755, h_flags = FS_DIRECTORY, h_size = 48,
     h_pdata = [(0, ''.''), (0, ''..'')], h_fop = 0, h_parent = None\<rparr>], next_handle = 2, dcache = [1], next_inode = 1,
     devfs_root = Some 1, devfs_sb = Some 0\<rparr>"

definition demo_dev_vfs :: vfs where
  "demo_dev_vfs = \<lparr>vnodes = [5 \<mapsto> \<lparr>v_ino = 0, v_count = 1, v_uid = 0, v_gid = 0, v_mode = 755, v_flags = FS_DIRECTORY, v_size = 48, v_sb = 0,
     v_lookup = True, v_u = 1, v_mount = None, v_cover = None\<rparr>],
     supers = [0 \<mapsto> \<lparr>s_cache = [5], s_root = Some 5, s_dev = None, s_op = True\<rparr>], next_node = 6\<rparr>"

lemma demo_dev_ok:
  "devfs_inv demo_devfs" "vfs_inv demo_dev_vfs" "linked demo_devfs demo_dev_vfs 0" "node_of demo_devfs demo_dev_vfs 1 = Some 5"
  by (simp_all add: devfs_inv_def demo_devfs_def is_dir_def sized_def d_entry_size_def FS_DIRECTORY_def vfs_inv_def demo_dev_vfs_def cache_ok_def
      node_ok_def ino_of_def linked_def shows_handle_def devfs_handle2vnode_def node_of_def)

lemma demo_root:
  obtains h where "handles demo_devfs 1 = Some h" "is_dir h" "h_pdata h = [(0, ''.''), (0, ''..'')]"
  by (simp add: demo_devfs_def is_dir_def FS_DIRECTORY_def)

theorem devfs_register_lookup_witness:
  "\<exists>p d' st' m st2 w. devfs_register_device (Some 1) ''null'' 0x1B6 0 0 3 0 (demo_devfs, demo_dev_vfs) = Some (Some p, d', st') \<and>
    devfs_lookup d' 5 ''null'' st' = Some (Some m, st2) \<and> vnodes st2 m = Some w \<and> v_ino w = 1 \<and> v_mode w = 0x1B6 \<and> v_flags w = 3"
proof -
  obtain h where h: "handles demo_devfs 1 = Some h" "is_dir h" "h_pdata h = [(0, ''.''), (0, ''..'')]" by (rule demo_root)
  have "next_inode demo_devfs = 1" by (simp add: demo_devfs_def)
  then show ?thesis
    using devfs_register_lookup[OF demo_dev_ok(1-3) h(1,2) demo_dev_ok(4), where name = "''null''" and mode = "0x1B6" and uid = 0 and gid = 0 and type = 3 and f_op = 0] h(3)
    by (simp add: DEVFS_FILENAME_LEN_def FS_DIRECTORY_def d_entry_size_def) blast
qed

section \<open>Unregistering\<close>

lemma del_d_entry_eq:
  assumes h: "handles d p = Some (grow ino name h)" "sized h" "sized (grow ino name h)" and two: "2 \<le> length (h_pdata h)"
    and new: "\<forall>e \<in> set (h_pdata h). fst e \<noteq> ino" and n: "node_of d st p = Some n" "vnodes st n = Some v"
  shows "devfs_del_d_entry (Some p) ino (d, st) =
    Some (d\<lparr>handles := (handles d)(p \<mapsto> h)\<rparr>, st\<lparr>vnodes := (vnodes st)(n \<mapsto> devfs_handle2vnode p h v)\<rparr>)"
proof -
  let ?es = "h_pdata h @ [(ino, name)]"
  have i: "del_index ino ?es = length (h_pdata h)"
  proof -
    have "takeWhile (\<lambda>e. fst e \<noteq> ino) (drop 2 (h_pdata h) @ [(ino, name)]) = drop 2 (h_pdata h)"
      using new by (subst takeWhile_append2) (auto dest: in_set_dropD)
    then show ?thesis using two by (simp add: del_index_def)
  qed
  have "(of_nat (d_entry_size * Suc (length (h_pdata h))) :: uint) - of_nat d_entry_size = of_nat (d_entry_size * length (h_pdata h))"
    by simp
  then have "h_size (grow ino name h) - of_nat d_entry_size = h_size h" using h(2) by (simp add: grow_def sized_def del: of_nat_mult)
  then have "(grow ino name h)\<lparr>h_size := h_size (grow ino name h) - of_nat d_entry_size, h_pdata := h_pdata h\<rparr> = h"
    by (simp add: grow_def)
  moreover have "node_of (d\<lparr>handles := x\<rparr>) st p = node_of d st p" for x by (simp add: node_of_def)
  ultimately show ?thesis using h(1) n i entr_num_sized[OF h(3)]
    by (simp add: devfs_del_d_entry_def refresh_def upd_vnode_def Let_def)
qed

text \<open>
  C21: unregistering a device undoes its registration: the handles, the cache, the directory and the inodes in
  use are what they were.
\<close>

theorem devfs_unregister_registered:
  assumes inv: "devfs_inv d" "vfs_inv st" "linked d st sb"
    and dir: "handles d dir = Some dh" "is_dir dh" "node_of d st dir = Some n" "2 \<le> length (h_pdata dh)" "\<forall>e \<in> set (h_pdata dh). fst e < next_inode d"
    and name: "length name \<le> DEVFS_FILENAME_LEN" and room: "d_entry_size * Suc (length (h_pdata dh)) < 2 ^ 32"
  shows "\<exists>p d1 st1 d2 st2. devfs_register_device (Some dir) name mode uid gid type f_op (d, st) = Some (Some p, d1, st1) \<and>
    devfs_unregister_device (Some p) (d1, st1) = Some (d2, st2) \<and> handles d2 = handles d \<and> dcache d2 = dcache d \<and>
    vnodes st2 = vnodes st \<and> supers st2 = supers st"
proof -
  let ?h = "new_device d dir mode uid gid type f_op" and ?p = "next_handle d"
  let ?d = "registered d dir name dh ?h"
  obtain v where v: "vnodes st n = Some v" "v_sb v = sb" "v_u v = dir" using node_of_iff[OF inv(2,1,3)] dir(3) by blast
  let ?w = "devfs_handle2vnode dir (grow (next_inode d) name dh) v"
  let ?st = "st\<lparr>vnodes := (vnodes st)(n \<mapsto> ?w)\<rparr>"
  have fr: "handles d ?p = None" "dir \<noteq> ?p" "sized dh" "?p \<notin> set (dcache d)"
    using inv(1) dir(1,2) by (auto simp: devfs_inv_def domI)
  note r = register_eq[OF inv(1) dir(1-3) v(1) name, of mode uid gid type f_op]
  have "node_of ?d ?st dir = node_of d ?st dir" by (simp add: node_of_def registered_def)
  moreover have "node_of d ?st dir = Some n"
  proof -
    have "(\<lambda>m. case vnodes ?st m of None \<Rightarrow> False | Some u \<Rightarrow> v_u u = dir) = (\<lambda>m. case vnodes st m of None \<Rightarrow> False | Some u \<Rightarrow> v_u u = dir)"
      using v by (auto simp: fun_eq_iff)
    moreover have "supers ?st = supers st" by simp
    ultimately have "node_of d ?st dir = node_of d st dir" by (simp only: node_of_def)
    then show ?thesis using dir(3) by simp
  qed
  ultimately have del: "devfs_del_d_entry (Some dir) (next_inode d) (?d, ?st) =
      Some (?d\<lparr>handles := (handles ?d)(dir \<mapsto> dh)\<rparr>, ?st\<lparr>vnodes := (vnodes ?st)(n \<mapsto> devfs_handle2vnode dir dh ?w)\<rparr>)"
    using dir(4,5) fr room by (intro del_d_entry_eq) (auto simp: registered_def)
  have "devfs_handle2vnode dir dh v = v" using inv(3) v dir(1) by (metis linked_def option.inject shows_handle_def)
  then have "vnodes (?st\<lparr>vnodes := (vnodes ?st)(n \<mapsto> devfs_handle2vnode dir dh ?w)\<rparr>) = vnodes st" using v(1) by (auto simp: fun_eq_iff)
  moreover have "devfs_unregister_device (Some ?p) (?d, ?st) = Some (?d\<lparr>handles := (handles ?d)(dir \<mapsto> dh, ?p := None), dcache := dcache d\<rparr>,
      ?st\<lparr>vnodes := (vnodes ?st)(n \<mapsto> devfs_handle2vnode dir dh ?w)\<rparr>)"
  proof -
    have "handles ?d ?p = Some ?h" "h_parent ?h = Some dir" "h_ino ?h = next_inode d" "dcache ?d = ?p # dcache d"
      using fr by (simp_all add: registered_def new_device_def)
    then show ?thesis using del by (simp add: devfs_unregister_device_def devfs_del_from_cache_def)
  qed
  moreover have "handles (?d\<lparr>handles := (handles ?d)(dir \<mapsto> dh, ?p := None), dcache := dcache d\<rparr>) = handles d"
    using fr dir(1) by (auto simp: fun_eq_iff registered_def)
  moreover have "supers (?st\<lparr>vnodes := (vnodes ?st)(n \<mapsto> devfs_handle2vnode dir dh ?w)\<rparr>) = supers st" by simp
  moreover have "dcache (?d\<lparr>handles := (handles ?d)(dir \<mapsto> dh, ?p := None), dcache := dcache d\<rparr>) = dcache d" by simp
  ultimately show ?thesis using r by blast
qed

theorem devfs_unregister_registered_witness:
  "\<exists>p d1 st1 d2 st2. devfs_register_device (Some 1) ''null'' 0x1B6 0 0 3 0 (demo_devfs, demo_dev_vfs) = Some (Some p, d1, st1) \<and>
    devfs_unregister_device (Some p) (d1, st1) = Some (d2, st2) \<and> handles d2 = handles demo_devfs \<and> vnodes st2 = vnodes demo_dev_vfs"
proof -
  obtain h where h: "handles demo_devfs 1 = Some h" "is_dir h" "h_pdata h = [(0, ''.''), (0, ''..'')]" by (rule demo_root)
  have "next_inode demo_devfs = 1" by (simp add: demo_devfs_def)
  then show ?thesis
    using devfs_unregister_registered[OF demo_dev_ok(1-3) h(1,2) demo_dev_ok(4), where name = "''null''" and mode = "0x1B6" and uid = 0 and gid = 0 and type = 3 and f_op = 0] h(3)
    by (simp add: DEVFS_FILENAME_LEN_def d_entry_size_def) blast
qed

section \<open>Mounting again\<close>

lemma lookup_itself:
  assumes "vnodes st dir = Some v" "v_u v \<noteq> 0" "devfs_table d v = Some es" "find_d_entry es name (length es) = Some (v_ino v)"
    "supers st (v_sb v) = Some s" "s_cache s = dir # ns"
  shows "devfs_lookup d dir name st = Some (Some dir, st\<lparr>vnodes := (vnodes st)(dir \<mapsto> v\<lparr>v_count := v_count v + 1\<rparr>)\<rparr>)"
  using assms by (simp add: devfs_lookup_def iget_def bump_def upd_vnode_def)

text \<open>
  After the device filesystem has been unmounted and mounted again, the numbering starts at 0, the number of
  the root directory. The first device registered then cannot be reached: its name leads back to the root
  directory.
\<close>

lemma devfs_remount_first_device:
  assumes st: "vfs_inv st" "supers st sb = Some s" "s_cache s = []" and d: "0 < next_handle d"
    and name: "length name \<le> DEVFS_FILENAME_LEN"
  shows "\<exists>d1 st1 r p d2 st2 st3. read_devfs_sb sb (devfs_put_super d, st) = Some (True, d1, st1) \<and> map_option s_root (supers st1 sb) = Some (Some r) \<and>
    devfs_register_device None name mode uid gid type f_op (d1, st1) = Some (Some p, d2, st2) \<and>
    devfs_lookup d2 r name st2 = Some (Some r, st3)"
proof -
  let ?r = "next_node st" and ?p = "next_handle d"
  let ?h = "\<lparr>h_ino = 0, h_nlinks = 1, h_uid = 0, h_gid = 0, h_mode = 755, h_flags = FS_DIRECTORY, h_size = of_nat (d_entry_size * 2),
              h_pdata = [(0, ''.''), (0, ''..'')], h_fop = 0, h_parent = None\<rparr>"
  let ?d0 = "(devfs_put_super d)\<lparr>devfs_sb := Some sb\<rparr>"
  let ?d1 = "?d0\<lparr>handles := (handles ?d0)(?p \<mapsto> ?h), next_handle := Suc ?p, dcache := [?p], devfs_root := Some ?p\<rparr>"
  let ?v = "(devfs_handle2vnode ?p ?h (empty_vnode sb 0))"
  let ?st1 = "st\<lparr>vnodes := (vnodes st)(?r \<mapsto> ?v), next_node := Suc ?r, supers := (supers st)(sb \<mapsto> s\<lparr>s_op := True, s_cache := [?r], s_root := Some ?r\<rparr>)\<rparr>"
  have "devfs_iget ?d1 0 = Some ?p" by (simp add: devfs_iget_def ino_is_def)
  then have rd: "devfs_read_inode ?d1 sb 0 = ?v" by (simp add: devfs_read_inode_def)
  have m: "read_devfs_sb sb (devfs_put_super d, st) = Some (True, ?d1, ?st1)"
    using st(2,3) rd
    by (simp add: read_devfs_sb_def devfs_empty_dir_def devfs_create_cache_def devfs_add_to_cache_def devfs_put_super_def devfs_free_cache_def
        devfs_iget_def iget_def create_empty_inode_def Let_def devfs_handle2vnode_def empty_vnode_def)
  have n: "node_of ?d1 ?st1 ?p = Some ?r" by (simp add: node_of_def)
  have szd: "sized ?h" by (simp add: sized_def d_entry_size_def)
  let ?g = "grow 0 name ?h"
  let ?d2 = "?d1\<lparr>handles := (handles ?d1)(Suc ?p \<mapsto> new_device ?d1 ?p mode uid gid type f_op, ?p \<mapsto> ?g), next_handle := Suc (Suc ?p),
     next_inode := 1, dcache := [Suc ?p, ?p]\<rparr>"
  let ?st2 = "?st1\<lparr>vnodes := (vnodes ?st1)(?r \<mapsto> devfs_handle2vnode ?p ?g ?v)\<rparr>"
  have "devfs_register_device None name mode uid gid type f_op (?d1, ?st1) = Some (Some (Suc ?p), ?d2, ?st2)"
  proof -
    let ?e1 = "?d1\<lparr>handles := (handles ?d1)(Suc ?p \<mapsto> new_device ?d1 ?p mode uid gid type f_op), next_handle := Suc (Suc ?p), next_inode := 1\<rparr>"
    have "node_of ?e1 ?st1 ?p = Some ?r" using n by (simp add: node_of_def)
    then have "devfs_add_d_entry ?p name 0 (?e1, ?st1) = Some (?e1\<lparr>handles := (handles ?e1)(?p \<mapsto> ?g)\<rparr>, ?st2)"
      using szd name by (intro add_d_entry_eq) simp_all
    then show ?thesis
      by (simp add: devfs_register_device_def new_device_def devfs_put_super_def FS_DIRECTORY_def devfs_add_to_cache_def Let_def)
  qed
  moreover have "\<exists>st3. devfs_lookup ?d2 ?r name ?st2 = Some (Some ?r, st3)"
  proof -
    let ?w = "devfs_handle2vnode ?p ?g ?v"
    have "sized ?g" by (simp add: d_entry_size_def)
    then have "devfs_table ?d2 ?w = Some [(0, ''.''), (0, ''..''), (0, name)]"
      using entr_num_sized[of ?g] by (simp add: devfs_table_def)
    moreover have "find_d_entry [(0, ''.''), (0, ''..''), (0, name)] name 3 = Some 0"
      using devfs.search_newest[of name "[(0, ''.''), (0, ''..''), (0, name)]" 2] by (simp add: namei_match_iff eval_nat_numeral)
    moreover have "v_ino ?w = 0" "v_sb ?w = sb" "v_u ?w \<noteq> 0" using d by (simp_all add: empty_vnode_def)
    ultimately have "devfs_lookup ?d2 ?r name ?st2 = Some (Some ?r, ?st2\<lparr>vnodes := (vnodes ?st2)(?r \<mapsto> ?w\<lparr>v_count := v_count ?w + 1\<rparr>)\<rparr>)"
      by (intro lookup_itself[where es = "[(0, ''.''), (0, ''..''), (0, name)]" and ns = "[]"
            and s = "s\<lparr>s_op := True, s_cache := [?r], s_root := Some ?r\<rparr>"]) (simp_all add: namei_match_iff)
    then show ?thesis by blast
  qed
  moreover have "map_option s_root (supers ?st1 sb) = Some (Some ?r)" by simp
  ultimately show ?thesis using m by blast
qed

lemma devfs_remount_first_device_witness:
  "\<exists>d1 st1 r p d2 st2 st3. read_devfs_sb 0 (devfs_put_super demo_devfs, demo_vfs) = Some (True, d1, st1) \<and> map_option s_root (supers st1 0) = Some (Some r) \<and>
    devfs_register_device None ''null'' 0 0 0 3 0 (d1, st1) = Some (Some p, d2, st2) \<and> devfs_lookup d2 r ''null'' st2 = Some (Some r, st3)"
proof -
  have "supers demo_vfs 0 = Some \<lparr>s_cache = [], s_root = None, s_dev = None, s_op = True\<rparr>" by (simp add: demo_vfs_def)
  then show ?thesis using devfs_remount_first_device[OF demo_vfs_inv, of 0 _ demo_devfs "''null''" 0 0 0 3 0]
    by (simp add: demo_devfs_def DEVFS_FILENAME_LEN_def)
qed

end
