(* ===== verification/Drivers.thy ===== *)
theory Drivers
  imports Devfs Tasks
begin

text \<open>
  What the drivers share: the lock of a device in \<^verbatim>\<open>src/drivers/drivers.c\<close>, the pseudo devices of \<^verbatim>\<open>src/drivers/pseudo.c\<close> and
  the seed of \<^verbatim>\<open>src/drivers/urandom.c\<close>. The queue of a device is the list of the process numbers in its requests.
\<close>

section \<open>The lock of a device\<close>

text \<open>A request is appended at the end of the queue; the process then pauses until it is the first.\<close>

definition device_enqueue :: "int \<Rightarrow> int list \<Rightarrow> int list" where
  "device_enqueue pid q = q @ [pid]"

definition device_granted :: "int \<Rightarrow> int list \<Rightarrow> bool option" where
  "device_granted pid q = (case q of [] \<Rightarrow> None | p # _ \<Rightarrow> Some (p = pid))"

text \<open>One round of the loop of \<^verbatim>\<open>device_lock\<close>: the lock is held, or the task pauses.\<close>

definition device_wait :: "uint \<Rightarrow> uint \<Rightarrow> uint \<Rightarrow> int list \<Rightarrow> 'd kernel \<Rightarrow> (bool \<times> 'd kernel) option" where
  "device_wait ip sp bp q k = do {
     b \<leftarrow> device_granted (t_pid (cur k)) q;
     Some (b, if b then k else sys_pause ip sp bp k)
   }"

definition device_unlock :: "int list \<Rightarrow> 'd kernel \<Rightarrow> (int list \<times> 'd kernel) option" where
  "device_unlock q k =
    (case q of
       [] \<Rightarrow> None
     | p # q' \<Rightarrow>
         if p \<noteq> t_pid (cur k) then Some (q, k)
         else Some (q', case q' of [] \<Rightarrow> k | p' # _ \<Rightarrow> snd (sys_kill p' SIGCONT k)))"

text \<open>The part of it that concerns the queue.\<close>

definition device_dequeue :: "int \<Rightarrow> int list \<Rightarrow> int list option" where
  "device_dequeue pid q = (case q of [] \<Rightarrow> None | p # q' \<Rightarrow> Some (if p = pid then q' else q))"

definition requesting_pid :: "int list \<Rightarrow> int" where
  "requesting_pid q = (case q of [] \<Rightarrow> - 1 | p # _ \<Rightarrow> p)"

text \<open>The commands of a block device.\<close>

definition REQUEST_READ :: int where "REQUEST_READ = 0x2EAD"
definition REQUEST_WRITE :: int where "REQUEST_WRITE = 0x217E"

section \<open>Pseudo devices\<close>

definition STDIN_FILENO :: nat where "STDIN_FILENO = 0"
definition STDOUT_FILENO :: nat where "STDOUT_FILENO = 1"
definition STDERR_FILENO :: nat where "STDERR_FILENO = 2"

text \<open>The inode of a standard descriptor, unless it is the device itself.\<close>

definition std_node :: "nat \<Rightarrow> nat \<Rightarrow> 'd kernel \<Rightarrow> nat option option" where
  "std_node fd node k =
    (case t_files (cur k) ! fd of
       None \<Rightarrow> Some None
     | Some f \<Rightarrow> do { x \<leftarrow> fstore k f; Some (if f_node x = node then None else Some (f_node x)) })"

definition drv_std_read :: "nat \<Rightarrow> (nat \<Rightarrow> 'd file_operations) \<Rightarrow> nat \<Rightarrow> uint \<Rightarrow> uint \<Rightarrow> 'd kernel \<Rightarrow> ((int \<times> string) \<times> 'd kernel) option" where
  "drv_std_read fd fop node offset sz k = do {
     no \<leftarrow> std_node fd node k;
     case no of
       None \<Rightarrow> Some ((0, []), k)
     | Some n \<Rightarrow> do {
         v \<leftarrow> vnodes (kvfs k) n;
         let (r, d) = read_fs fop n v offset sz (kdev k);
         Some (r, k\<lparr>kdev := d\<rparr>)
       }
   }"

definition drv_std_write :: "nat \<Rightarrow> (nat \<Rightarrow> 'd file_operations) \<Rightarrow> nat \<Rightarrow> uint \<Rightarrow> string \<Rightarrow> 'd kernel \<Rightarrow> (int \<times> 'd kernel) option" where
  "drv_std_write fd fop node offset buffer k = do {
     no \<leftarrow> std_node fd node k;
     case no of
       None \<Rightarrow> Some (0, k)
     | Some n \<Rightarrow> do {
         v \<leftarrow> vnodes (kvfs k) n;
         let (r, d) = write_fs fop n v offset buffer (kdev k);
         Some (r, k\<lparr>kdev := d\<rparr>)
       }
   }"

definition drv_stdin_read where "drv_stdin_read = drv_std_read STDIN_FILENO"
definition drv_stdout_write where "drv_stdout_write = drv_std_write STDOUT_FILENO"
definition drv_stderr_write where "drv_stderr_write = drv_std_write STDERR_FILENO"

definition drv_null_read :: "uint \<Rightarrow> int \<times> string" where "drv_null_read sz = (0, [])"
definition drv_null_write :: "string \<Rightarrow> int" where "drv_null_write buffer = int (length buffer)"
definition drv_zero_read :: "uint \<Rightarrow> int \<times> string" where "drv_zero_read sz = (sint sz, replicate (unat sz) NUL)"

text \<open>The devices with their modes and the numbers of their operation tables, which are parameters.\<close>

definition pseudo_devices :: "(nat \<Rightarrow> nat) \<Rightarrow> (string \<times> uint \<times> nat) list" where
  "pseudo_devices ops = [(''stdin'', 0x124, ops 0), (''stdout'', 0x92, ops 1), (''stderr'', 0x92, ops 2), (''null'', 0x1B6, ops 3),
     (''zero'', 0x1B6, ops 4), (''urandom'', 0x1B6, ops 5)]"

fun register_devices :: "(string \<times> uint \<times> nat) list \<Rightarrow> devfs \<times> vfs \<Rightarrow> (devfs \<times> vfs) option" where
  "register_devices [] s = Some s"
| "register_devices ((name, mode, ops) # ds) s = do {
     (h, s1) \<leftarrow> devfs_register_device None name mode 0 0 FS_CHARDEVICE ops s;
     register_devices ds s1
   }"

definition setup_pseudo_devices :: "(nat \<Rightarrow> nat) \<Rightarrow> devfs \<times> vfs \<Rightarrow> (devfs \<times> vfs) option" where
  "setup_pseudo_devices ops s = register_devices (pseudo_devices ops) s"

section \<open>The seed of the random numbers\<close>

record urandom =
  urandom_state :: uint
  urandom_seed :: uint

definition srand :: "uint \<Rightarrow> urandom \<Rightarrow> urandom" where
  "srand seed u =
    (if seed = 1 \<and> urandom_seed u \<noteq> 0 then u\<lparr>urandom_state := urandom_seed u\<rparr> else u\<lparr>urandom_state := seed, urandom_seed := seed\<rparr>)"

section \<open>Interleavings\<close>

text \<open>
  Where each process is: outside, in the loop of \<^verbatim>\<open>device_lock\<close>, or behind it. A driver that returns without \<^verbatim>\<open>device_unlock\<close> leaves
  by the last rule.
\<close>

datatype place = Outside | Waiting | Holding

type_synonym lock_state = "int list \<times> (int \<Rightarrow> place)"

inductive lstep :: "lock_state \<Rightarrow> lock_state \<Rightarrow> bool" where
  enter: "pc p = Outside \<Longrightarrow> lstep (q, pc) (device_enqueue p q, pc(p := Waiting))"
| granted: "pc p = Waiting \<Longrightarrow> device_granted p q = Some True \<Longrightarrow> lstep (q, pc) (q, pc(p := Holding))"
| leave: "pc p = Holding \<Longrightarrow> device_dequeue p q = Some q' \<Longrightarrow> lstep (q, pc) (q', pc(p := Outside))"

inductive lstep_leak :: "lock_state \<Rightarrow> lock_state \<Rightarrow> bool" where
  "pc p = Holding \<Longrightarrow> lstep_leak (q, pc) (q, pc(p := Outside))"

inductive_cases lstep_cases: "lstep s s'"

definition lock_inv :: "lock_state \<Rightarrow> bool" where
  "lock_inv = (\<lambda>(q, pc). distinct q \<and> set q = {p. pc p \<noteq> Outside} \<and> (\<forall>p. pc p = Holding \<longrightarrow> hd q = p))"

lemma device_unlock_queue: "map_option fst (device_unlock q k) = device_dequeue (t_pid (cur k)) q"
  by (simp add: device_unlock_def device_dequeue_def split: list.split)

lemma lstep_inv: "lstep s s' \<Longrightarrow> lock_inv s \<Longrightarrow> lock_inv s'"
proof (erule lstep_cases)
  fix pc p and q :: "int list"
  assume a: "s = (q, pc)" "s' = (device_enqueue p q, pc(p := Waiting))" "pc p = Outside" and inv: "lock_inv s"
  then have p: "p \<notin> set q" by (simp add: lock_inv_def)
  have "q \<noteq> []" if "pc x = Holding" for x using inv that a by (auto simp: lock_inv_def)
  then show "lock_inv s'" using inv a p by (auto simp: lock_inv_def device_enqueue_def)
next
  fix pc p and q :: "int list"
  assume a: "s = (q, pc)" "s' = (q, pc(p := Holding))" "pc p = Waiting" "device_granted p q = Some True" and inv: "lock_inv s"
  then show "lock_inv s'" by (auto simp: lock_inv_def device_granted_def split: list.splits)
next
  fix pc p and q q' :: "int list"
  assume a: "s = (q, pc)" "s' = (q', pc(p := Outside))" "pc p = Holding" "device_dequeue p q = Some q'" and inv: "lock_inv s"
  then have h: "hd q = p" "p \<in> set q" "distinct q" "set q = {p. pc p \<noteq> Outside}" "\<And>x. pc x = Holding \<Longrightarrow> x = p" by (auto simp: lock_inv_def)
  then have "q = p # q'" using a(4) by (cases q) (auto simp: device_dequeue_def)
  then show "lock_inv s'" using h a(2) by (auto simp: lock_inv_def)
qed



section \<open>A lock that is not released\<close>

text \<open>
  After a process has left without releasing the lock its request stays at the front of the queue. As long as it does not come
  back, no other process gets the lock.
\<close>

lemma lock_leak:
  assumes "lock_inv (q0, pc0)" "pc0 p = Holding" "lstep_leak (q0, pc0) (q1, pc1)"
    and "(\<lambda>s s'. lstep s s' \<and> snd s' p = Outside)\<^sup>*\<^sup>* (q1, pc1) (q, pc)"
  shows "pc x \<noteq> Holding"
proof -
  let ?I = "\<lambda>(q, pc). q \<noteq> [] \<and> hd q = p \<and> pc p = Outside \<and> (\<forall>x. pc x \<noteq> Holding)"
  have q0: "q0 \<noteq> []" "hd q0 = p" "\<And>x. pc0 x = Holding \<Longrightarrow> x = p" using assms(1,2) by (auto simp: lock_inv_def)
  obtain p' where "pc0 p' = Holding" "q1 = q0" "pc1 = pc0(p' := Outside)" using assms(3) by (cases rule: lstep_leak.cases) simp
  then have l: "q1 = q0" "pc1 = pc0(p := Outside)" using q0(3) by simp_all
  have "?I (q, pc)" using assms(4)
  proof (induction rule: rtranclp_induct)
    case base
    then show ?case using q0 l by auto
  next
    case (step s s')
    then have "lstep s s'" "?I s" "snd s' p = Outside" by auto
    then show ?case
    proof (cases rule: lstep.cases)
      case (granted pc x q)
      then show ?thesis using \<open>?I s\<close> by (cases q) (auto simp: device_granted_def)
    qed (auto simp: device_enqueue_def)
  qed
  then show ?thesis by simp
qed

section \<open>The pseudo devices are registered\<close>

fun new_entries :: "uint \<Rightarrow> (string \<times> uint \<times> nat) list \<Rightarrow> (uint \<times> string) list" where
  "new_entries i [] = []"
| "new_entries i ((name, mode, ops) # ds) = (i, name) # new_entries (i + 1) ds"

text \<open>A mounted device filesystem, its root directory and the inode of that.\<close>

definition dev_mounted :: "devfs \<Rightarrow> vfs \<Rightarrow> nat \<Rightarrow> nat \<Rightarrow> nat \<Rightarrow> (uint \<times> string) list \<Rightarrow> bool" where
  "dev_mounted d st sb dir n es \<longleftrightarrow> devfs_inv d \<and> vfs_inv st \<and> linked d st sb \<and> devfs_root d = Some dir \<and> node_of d st dir = Some n \<and>
     (\<exists>dh. handles d dir = Some dh \<and> is_dir dh \<and> h_pdata dh = es)"

lemma register_root: "devfs_root (fst s) = Some dir \<Longrightarrow> devfs_register_device None name mode uid gid type ops s = devfs_register_device (Some dir) name mode uid gid type ops s"
  by (cases s) (simp add: devfs_register_device_def)

lemma register_mounted:
  assumes m: "dev_mounted d st sb dir n es" and name: "length name \<le> DEVFS_FILENAME_LEN"
    and room: "next_inode d \<noteq> - 1" "d_entry_size * Suc (length es) < 2 ^ 32"
  shows "\<exists>p d' st'. devfs_register_device None name mode 0 0 FS_CHARDEVICE ops (d, st) = Some (p, d', st') \<and>
    dev_mounted d' st' sb dir n (es @ [(next_inode d, name)]) \<and> next_inode d' = next_inode d + 1"
proof -
  let ?h = "new_device d dir mode 0 0 FS_CHARDEVICE ops"
  obtain dh where inv: "devfs_inv d" "vfs_inv st" "linked d st sb" "devfs_root d = Some dir" and dir: "handles d dir = Some dh" "is_dir dh" "node_of d st dir = Some n"
      and es: "h_pdata dh = es" using m by (auto simp: dev_mounted_def)
  obtain v where v: "vnodes st n = Some v" "v_sb v = sb" "v_u v = dir" using node_of_iff[OF inv(2,1,3)] dir(3) by blast
  let ?d = "registered d dir name dh ?h" and ?st = "st\<lparr>vnodes := (vnodes st)(n \<mapsto> devfs_handle2vnode dir (grow (next_inode d) name dh) v)\<rparr>"
  have h: "h_ino ?h = next_inode d" "\<not> is_dir ?h" by (simp_all add: new_device_def is_dir_def FS_CHARDEVICE_def FS_DIRECTORY_def)
  note r = register_eq[OF inv(1) dir v(1) name, of mode 0 0 FS_CHARDEVICE ops]
  have i: "devfs_inv ?d" "vfs_inv ?st" "linked ?d ?st sb"
    using registered_inv[OF inv(1) dir(1,2) room(1) _ h] registered_linked[OF inv(1-3) dir(1,3) v(1) refl] room(2) es by auto
  have "node_of ?d ?st dir = Some n" using node_of_iff[OF i(2,1,3)] v by simp
  moreover have "handles ?d dir = Some (grow (next_inode d) name dh)" "devfs_root ?d = Some dir" "next_inode ?d = next_inode d + 1"
    using inv(4) by (simp_all add: registered_def)
  ultimately have "dev_mounted ?d ?st sb dir n (es @ [(next_inode d, name)])" using i dir(2) es by (simp add: dev_mounted_def)
  then show ?thesis using r register_root[of "(d, st)" dir] inv(4) by (auto simp: registered_def)
qed

lemma register_devices_ok:
  assumes "dev_mounted d st sb dir n es" "\<forall>x \<in> set ds. length (fst x) \<le> DEVFS_FILENAME_LEN"
    and "unat (next_inode d) + length ds < 2 ^ 32" "d_entry_size * (length es + length ds) < 2 ^ 32"
  shows "\<exists>d' st'. register_devices ds (d, st) = Some (d', st') \<and> dev_mounted d' st' sb dir n (es @ new_entries (next_inode d) ds)"
  using assms
proof (induction ds arbitrary: d st es)
  case (Cons x ds)
  obtain name mode ops where x: "x = (name, mode, ops)" by (cases x)
  have ni: "next_inode d \<noteq> - 1"
  proof
    assume "next_inode d = - 1"
    then have "unat (next_inode d) = 2 ^ 32 - 1" by (simp add: unsigned_minus_1_eq_mask mask_eq_exp_minus_1)
    then show False using Cons.prems(3) by simp
  qed
  have "d_entry_size * Suc (length es) \<le> d_entry_size * (length es + length (x # ds))" by (rule mult_le_mono2) simp
  then have rm: "d_entry_size * Suc (length es) < 2 ^ 32" using Cons.prems(4) by linarith
  obtain p d' st' where r: "devfs_register_device None name mode 0 0 FS_CHARDEVICE ops (d, st) = Some (p, d', st')"
      "dev_mounted d' st' sb dir n (es @ [(next_inode d, name)])" "next_inode d' = next_inode d + 1"
    using register_mounted[OF Cons.prems(1) _ ni rm, of name mode ops] Cons.prems(2) x by auto
  have "unat (next_inode d') = Suc (unat (next_inode d))"
  proof -
    have "1 + next_inode d \<noteq> 0" using ni by (metis add.inverse_unique add.commute)
    then show ?thesis using r(3) unatSuc[of "next_inode d"] by (simp add: add.commute)
  qed
  then show ?case using Cons.IH[OF r(2)] Cons.prems r x by (simp add: algebra_simps)
qed simp

lemma new_entries_pseudo:
  "new_entries i (pseudo_devices ops) = [(i, ''stdin''), (i + 1, ''stdout''), (i + 2, ''stderr''), (i + 3, ''null''), (i + 4, ''zero''), (i + 5, ''urandom'')]"
  by (simp add: pseudo_devices_def)

text \<open>
  The set-up of the pseudo devices succeeds on a mounted device filesystem and keeps its invariants, and the six names are found
  in the root directory, with consecutive inode numbers.
\<close>

lemma setup_pseudo_devices_found:
  assumes m: "dev_mounted d st sb dir n es" and room: "unat (next_inode d) + 6 < 2 ^ 32" "d_entry_size * (length es + 6) < 2 ^ 32"
  shows "\<exists>d' st' es'. setup_pseudo_devices ops (d, st) = Some (d', st') \<and> dev_mounted d' st' sb dir n es' \<and>
    map (\<lambda>name. find_d_entry es' name (length es')) [''stdin'', ''stdout'', ''stderr'', ''null'', ''zero'', ''urandom''] =
    map (\<lambda>k. Some (next_inode d + k)) [0, 1, 2, 3, 4, 5]"
proof -
  let ?es = "es @ new_entries (next_inode d) (pseudo_devices ops)"
  have l: "length (pseudo_devices ops) = 6" "\<forall>x \<in> set (pseudo_devices ops). length (fst x) \<le> DEVFS_FILENAME_LEN"
    by (simp_all add: pseudo_devices_def DEVFS_FILENAME_LEN_def)
  have "\<exists>d' st'. register_devices (pseudo_devices ops) (d, st) = Some (d', st') \<and> dev_mounted d' st' sb dir n ?es"
    by (rule register_devices_ok[OF m l(2)]) (simp_all only: l(1) room)
  moreover have "map (\<lambda>name. find_d_entry ?es name (length ?es)) [''stdin'', ''stdout'', ''stderr'', ''null'', ''zero'', ''urandom''] =
      map (\<lambda>k. Some (next_inode d + k)) [0, 1, 2, 3, 4, 5]"
    unfolding new_entries_pseudo by (simp add: namei_match_iff component_def nth_append)
  ultimately show ?thesis unfolding setup_pseudo_devices_def by blast
qed

lemma setup_pseudo_devices_found_witness:
  "\<exists>d' st' es'. setup_pseudo_devices (\<lambda>i. i) (demo_devfs\<lparr>devfs_root := Some 1\<rparr>, demo_dev_vfs) = Some (d', st') \<and>
    dev_mounted d' st' 0 1 5 es' \<and> find_d_entry es' ''null'' (length es') = Some 4"
proof -
  obtain h where h: "handles demo_devfs 1 = Some h" "is_dir h" "h_pdata h = [(0, ''.''), (0, ''..'')]" by (rule demo_root)
  let ?d = "demo_devfs\<lparr>devfs_root := Some 1\<rparr>"
  have "devfs_inv ?d" "linked ?d demo_dev_vfs 0" "node_of ?d demo_dev_vfs 1 = Some 5"
    using demo_dev_ok by (simp_all add: devfs_inv_def linked_def shows_handle_def node_of_def)
  then have "dev_mounted ?d demo_dev_vfs 0 1 5 [(0, ''.''), (0, ''..'')]" using h demo_dev_ok(2) by (simp add: dev_mounted_def)
  moreover have "next_inode ?d = 1" by (simp add: demo_devfs_def)
  ultimately show ?thesis using setup_pseudo_devices_found[of ?d demo_dev_vfs 0 1 5 _ "\<lambda>i. i"] by (force simp: d_entry_size_def)
qed

end
