(* ===== verification/Ext2.thy ===== *)
theory Ext2
  imports Namei Memory
begin

text \<open>
  The second extended filesystem, which is read only: \<^verbatim>\<open>src/fs/ext2/super.c\<close>, \<^verbatim>\<open>src/fs/ext2/inode.c\<close>, the structures of
  \<^verbatim>\<open>src/include/fs/ext2.h\<close> and \<^verbatim>\<open>fs_read_block\<close> of \<^verbatim>\<open>src/fs/vfs/buffer.c\<close>. The read request of the block device is the
  parameter \<open>req\<close>: for a first sector and a number of sectors it gives its result and the bytes it stored. A buffer is the
  list of its bytes; what \<^verbatim>\<open>malloc\<close> leaves in a new one is an argument. Structures lie in buffers as the compiler lays
  them out. \<open>None\<close> is a division by zero or an access outside a buffer.
\<close>

type_synonym request = "nat \<Rightarrow> nat \<Rightarrow> int \<times> uchar list"

definition EXT2_MAGIC :: nat where "EXT2_MAGIC = 0xEF53"
definition EXT2_TYPE_FIFO :: nat where "EXT2_TYPE_FIFO = 0x1000"
definition EXT2_TYPE_CHAR :: nat where "EXT2_TYPE_CHAR = 0x2000"
definition EXT2_TYPE_DIR :: nat where "EXT2_TYPE_DIR = 0x4000"
definition EXT2_TYPE_BLOCK :: nat where "EXT2_TYPE_BLOCK = 0x6000"
definition EXT2_TYPE_FILE :: nat where "EXT2_TYPE_FILE = 0x8000"
definition EXT2_TYPE_LINK :: nat where "EXT2_TYPE_LINK = 0xA000"
definition EXT2_N_BLOCKS :: nat where "EXT2_N_BLOCKS = 15"
definition EXT2_NDIR_BLOCKS :: nat where "EXT2_NDIR_BLOCKS = 12"
definition EXT2_ROOT_INO :: uint where "EXT2_ROOT_INO = 2"
definition VFS_NAME_LEN :: nat where "VFS_NAME_LEN = 255"

record ext2_inode =
  e_mode :: nat
  e_uid :: nat
  e_size :: nat
  e_atime :: nat
  e_ctime :: nat
  e_mtime :: nat
  e_gid :: nat
  e_nlinks :: nat
  e_block :: "nat list"

record ext2_group_dt =
  bg_block_bitmap :: nat
  bg_inode_bitmap :: nat
  bg_inode_table :: nat

record ext2_group =
  inode_bitmap :: "uchar list"
  block_bitmap :: "uchar list"
  phys :: ext2_group_dt

record ext2_sb =
  s_inodes_count :: nat
  s_blocks_count :: nat
  s_first_data_block :: nat
  s_log_block_size :: nat
  s_blocks_per_group :: nat
  s_inodes_per_group :: nat
  s_magic :: nat
  s_ino_size :: nat

record ext2_discr =
  pysb :: ext2_sb
  groups :: "ext2_group list"
  inodes_per_block :: nat

text \<open>What the block layer uses of a super block and of its device.\<close>

record blk =
  blocksize :: nat
  skip_bytes :: nat
  bsize :: nat

definition as_mem :: "uchar list \<Rightarrow> memory" where
  "as_mem bs i = (if i < length bs then bs ! i else 0)"

definition get_ext2_sb :: "uchar list \<Rightarrow> ext2_sb" where
  "get_ext2_sb b = (let m = as_mem b in
     \<lparr>s_inodes_count = load32 m 0, s_blocks_count = load32 m 4, s_first_data_block = load32 m 20, s_log_block_size = load32 m 24,
      s_blocks_per_group = load32 m 32, s_inodes_per_group = load32 m 40, s_magic = load16 m 56, s_ino_size = load16 m 88\<rparr>)"

definition get_group_dt :: "uchar list \<Rightarrow> ext2_group_dt" where
  "get_group_dt b = (let m = as_mem b in \<lparr>bg_block_bitmap = load32 m 0, bg_inode_bitmap = load32 m 4, bg_inode_table = load32 m 8\<rparr>)"

definition get_ext2_inode :: "uchar list \<Rightarrow> nat \<Rightarrow> ext2_inode" where
  "get_ext2_inode b p = (let m = as_mem b in
     \<lparr>e_mode = load16 m p, e_uid = load16 m (p + 2), e_size = load32 m (p + 4), e_atime = load32 m (p + 8), e_ctime = load32 m (p + 12),
      e_mtime = load32 m (p + 16), e_gid = load16 m (p + 24), e_nlinks = load16 m (p + 26),
      e_block = map (\<lambda>i. load32 m (p + 40 + 4 * i)) [0..<EXT2_N_BLOCKS]\<rparr>)"

section \<open>Blocks\<close>

text \<open>The bytes a read stores at the start of a buffer.\<close>

definition overlay :: "uchar list \<Rightarrow> uchar list \<Rightarrow> uchar list" where
  "overlay new old = new @ drop (length new) old"

definition fs_read_block :: "request \<Rightarrow> blk \<Rightarrow> nat \<Rightarrow> nat \<Rightarrow> uchar list \<Rightarrow> (int \<times> uchar list) option" where
  "fs_read_block req sb block cnt buf =
    (if bsize sb = 0 then None
     else let start_sector = skip_bytes sb div bsize sb;
              sec_block = blocksize sb div bsize sb;
              (r, bs) = req (add32 (block * sec_block) start_sector) (cnt * sec_block mod 2 ^ 32)
          in Some (r, overlay bs buf))"

definition ext2_read_block :: "request \<Rightarrow> blk \<Rightarrow> nat \<Rightarrow> uchar list \<Rightarrow> (int \<times> uchar list) option" where
  "ext2_read_block req sb block buf =
    (if block = 0 then Some (2, overlay (replicate 1024 0) buf) else fs_read_block req sb (block - 1) 1 buf)"

section \<open>Files\<close>

definition file_ext2_block :: "ext2_inode \<Rightarrow> nat \<Rightarrow> nat" where
  "file_ext2_block i block = (if block < EXT2_NDIR_BLOCKS then e_block i ! block else 0)"

text \<open>The whole blocks between the first and the last one: whether all could be read, the bytes stored and the block buffer.\<close>

fun read_middle :: "request \<Rightarrow> blk \<Rightarrow> ext2_inode \<Rightarrow> nat \<Rightarrow> nat \<Rightarrow> uchar list \<Rightarrow> (bool \<times> uchar list \<times> uchar list) option" where
  "read_middle req sb i block 0 buf = Some (True, [], buf)"
| "read_middle req sb i block (Suc n) buf = do {
     (r, buf1) \<leftarrow> ext2_read_block req sb (file_ext2_block i block) buf;
     if r \<le> 0 then Some (False, [], buf1)
     else do {
       (ok, out, buf2) \<leftarrow> read_middle req sb i (Suc block) n buf1;
       Some (ok, take (blocksize sb) buf1 @ out, buf2)
     }
   }"

text \<open>
  The result and the bytes stored from the start of the user's buffer on. The numbers of blocks are compared as signed numbers;
  \<^verbatim>\<open>(offset + size - 1)\<close> is computed in 32 bits.
\<close>

definition ext2_read :: "request \<Rightarrow> blk \<Rightarrow> ext2_inode \<Rightarrow> nat \<Rightarrow> nat \<Rightarrow> nat \<Rightarrow> uchar list \<Rightarrow> (int \<times> uchar list) option" where
  "ext2_read req sb i fsize offset size0 g =
    (if blocksize sb = 0 then None
     else if offset > fsize then Some (0, [])
     else
       let size = (if add32 offset size0 > fsize then fsize - offset else size0);
           b_s = offset div blocksize sb;
           boff = offset mod blocksize sb;
           b_e = sub32 (add32 offset size) 1 div blocksize sb
       in do {
         (r, buf) \<leftarrow> ext2_read_block req sb (file_ext2_block i b_s) g;
         if r \<le> 0 then Some (err EIO, [])
         else do {
           let first = take (blocksize sb - boff) (drop boff buf);
           (ok, mid, buf2) \<leftarrow> read_middle req sb i (Suc b_s) (b_e - Suc b_s) buf;
           if \<not> ok then Some (err EIO, first @ mid)
           else if b_s = b_e then Some (int size, first @ mid)
           else do {
             (r3, buf3) \<leftarrow> ext2_read_block req sb (file_ext2_block i b_e) buf2;
             if r3 \<le> 0 then Some (err EIO, first @ mid)
             else Some (int size, first @ mid @ take (add32 offset size mod blocksize sb) buf3)
           }
         }
       })"

section \<open>Directories\<close>

text \<open>An entry at an address of the buffer the directory was read into.\<close>

definition ent_inode :: "memory \<Rightarrow> nat \<Rightarrow> nat" where "ent_inode m e = load32 m e"
definition ent_rec_len :: "memory \<Rightarrow> nat \<Rightarrow> nat" where "ent_rec_len m e = load16 m (e + 4)"
definition ent_name_len :: "memory \<Rightarrow> nat \<Rightarrow> nat" where "ent_name_len m e = unat (m (e + 6))"
definition ent_name :: "memory \<Rightarrow> nat \<Rightarrow> nat \<Rightarrow> string" where "ent_name m e n = load_string m (e + 8) n"

fun readdir_walk :: "memory \<Rightarrow> nat \<Rightarrow> nat \<Rightarrow> int \<Rightarrow> nat option" where
  "readdir_walk m e 0 read_size = Some e"
| "readdir_walk m e (Suc n) read_size =
     (let rs = read_size - int (ent_rec_len m e) in
      if rs \<le> 0 \<or> ent_rec_len m e = 0 then None else readdir_walk m (e + ent_rec_len m e) n rs)"

text \<open>
  The directory in memory at address 0, from what was there and the bytes read. The length is taken before the name is cut; a
  name that fills the buffer has no end.
\<close>

definition ext2_readdir :: "request \<Rightarrow> blk \<Rightarrow> ext2_inode \<Rightarrow> nat \<Rightarrow> nat \<Rightarrow> uchar list \<Rightarrow> memory \<Rightarrow> (int \<times> (nat \<times> string \<times> nat) option) option" where
  "ext2_readdir req sb i dsize index g m0 = do {
     (r, bytes) \<leftarrow> ext2_read req sb i dsize 0 dsize g;
     if r \<le> 0 then Some (r, None)
     else
       let m = store_bytes m0 0 bytes in
       case readdir_walk m 0 index (int dsize) of
         None \<Rightarrow> Some (err EINVAL, None)
       | Some e \<Rightarrow>
           if ent_inode m e = 0 then Some (err EINVAL, None)
           else let name = ent_name m e VFS_NAME_LEN in
             if length name \<ge> VFS_NAME_LEN then None
             else Some (0, Some (ent_inode m e, take (ent_name_len m e) name, length name))
   }"

text \<open>The size that is left goes down by the length of the next entry.\<close>

function lookup_walk :: "memory \<Rightarrow> string \<Rightarrow> nat \<Rightarrow> int \<Rightarrow> nat option" where
  "lookup_walk m name e read_size =
     (if read_size \<le> 0 then None
      else if namei_nmatch name (ent_name m e (Suc (length name))) (word_of_nat (ent_name_len m e)) then Some (ent_inode m e)
      else if ent_rec_len m e = 0 then None
      else let e1 = e + ent_rec_len m e in lookup_walk m name e1 (read_size - int (ent_rec_len m e1)))"
  by pat_completeness auto
termination
  by (relation "measures [\<lambda>(m, name, e, rs). nat rs, \<lambda>(m, name, e, rs). ent_rec_len m e]") auto

declare lookup_walk.simps [simp del]

definition ext2_lookup ::
  "(nat \<Rightarrow> uint \<Rightarrow> vnode) \<Rightarrow> request \<Rightarrow> blk \<Rightarrow> ext2_inode \<Rightarrow> vnode \<Rightarrow> string \<Rightarrow> uchar list \<Rightarrow> memory \<Rightarrow> vfs \<Rightarrow> (nat option \<times> vfs) option" where
  "ext2_lookup rd req sb i dir name g m0 st = do {
     (r, bytes) \<leftarrow> ext2_read req sb i (unat (v_size dir)) 0 (unat (v_size dir)) g;
     if r \<le> 0 then Some (None, st)
     else case lookup_walk (store_bytes m0 0 bytes) name 0 (sint (v_size dir)) of
       None \<Rightarrow> Some (None, st)
     | Some ino \<Rightarrow> iget rd (Some (v_sb dir)) (word_of_nat ino) st
   }"

section \<open>Inodes\<close>

definition ext2_inode_used :: "uchar list \<Rightarrow> nat \<Rightarrow> bool" where
  "ext2_inode_used bitmap goff \<longleftrightarrow> as_mem bitmap (goff div 8) AND push_bit (goff mod 8) 1 \<noteq> 0"

definition ext2_flags :: "nat \<Rightarrow> uint option" where
  "ext2_flags mode =
    (let t = 0x1000 * (mode div 0x1000 mod 16) in
     if t = EXT2_TYPE_FIFO then Some FS_PIPE
     else if t = EXT2_TYPE_CHAR then Some FS_CHARDEVICE
     else if t = EXT2_TYPE_DIR then Some FS_DIRECTORY
     else if t = EXT2_TYPE_BLOCK then Some FS_BLOCKDEVICE
     else if t = EXT2_TYPE_FILE then Some FS_FILE
     else if t = EXT2_TYPE_LINK then Some FS_SYMLINK
     else None)"

text \<open>The inode structure on the disk, when there is a used one with this number and its block can be read.\<close>

definition ext2_disk_inode :: "request \<Rightarrow> blk \<Rightarrow> ext2_discr \<Rightarrow> uint \<Rightarrow> uchar list \<Rightarrow> ext2_inode option option" where
  "ext2_disk_inode req sb d ino g =
    (let n = unat ino; p = pysb d in
     if n = 0 \<or> n > s_inodes_count p then Some None
     else if s_inodes_per_group p = 0 then None
     else
       let group = (n - 1) div s_inodes_per_group p; goff = (n - 1) mod s_inodes_per_group p in
       if group \<ge> length (groups d) then Some None
       else if \<not> ext2_inode_used (inode_bitmap (groups d ! group)) goff then Some None
       else if inodes_per_block d = 0 then None
       else do {
         (r, buf) \<leftarrow> ext2_read_block req sb (add32 (bg_inode_table (phys (groups d ! group))) (goff div inodes_per_block d)) g;
         Some (if r \<le> 0 then None else Some (get_ext2_inode buf (goff mod inodes_per_block d * s_ino_size p)))
       })"

text \<open>The pointer to the copied structure stands as the number of the inode. A file of unknown type keeps only its times and mode.\<close>

definition ext2_read_inode :: "request \<Rightarrow> blk \<Rightarrow> ext2_discr \<Rightarrow> uchar list \<Rightarrow> nat \<Rightarrow> uint \<Rightarrow> vnode option" where
  "ext2_read_inode req sb d g s ino = do {
     x \<leftarrow> ext2_disk_inode req sb d ino g;
     let v = \<lparr>v_ino = ino, v_count = 1, v_uid = 0, v_gid = 0, v_mode = 0, v_flags = 0, v_size = 0, v_sb = s, v_lookup = False, v_u = 0,
        v_mount = None, v_cover = None\<rparr>;
     Some (case x of
       None \<Rightarrow> v
     | Some i \<Rightarrow>
         let v1 = v\<lparr>v_mode := word_of_nat (e_mode i) AND 0x1FF\<rparr> in
         case ext2_flags (e_mode i) of
           None \<Rightarrow> v1
         | Some fl \<Rightarrow> v1\<lparr>v_flags := fl, v_uid := word_of_nat (e_uid i), v_gid := word_of_nat (e_gid i), v_size := word_of_nat (e_size i),
             v_lookup := True, v_u := unat ino\<rparr>)
   }"

definition ext2_put_inode :: "vnode \<Rightarrow> vnode" where
  "ext2_put_inode v = (if v_count v = 1 then v\<lparr>v_u := 0\<rparr> else v)"

section \<open>The super block\<close>

text \<open>
  The groups from number \<open>i\<close> on. The buffer for the descriptors has 1024 bytes whatever the block size is. \<open>Inl\<close> is a failed read.
\<close>

function read_groups :: "request \<Rightarrow> blk \<Rightarrow> ext2_sb \<Rightarrow> nat \<Rightarrow> nat \<Rightarrow> uchar list \<Rightarrow> uchar list \<Rightarrow> (unit + ext2_group list) option" where
  "read_groups req sb p cnt i buf g =
    (if i \<ge> cnt then Some (Inr [])
     else do {
       (r, buf1) \<leftarrow> ext2_read_block req sb (add32 (add32 (s_first_data_block p) (s_blocks_per_group p * i)) 1) buf;
       if length buf1 > 1024 then None
       else if r \<le> 0 then Some (Inl ())
       else do {
         let ph = get_group_dt buf1;
         (r2, ib) \<leftarrow> ext2_read_block req sb (bg_inode_bitmap ph) g;
         if r2 \<le> 0 then Some (Inl ())
         else do {
           (r3, bb) \<leftarrow> ext2_read_block req sb (bg_block_bitmap ph) g;
           if r3 \<le> 0 then Some (Inl ())
           else do {
             x \<leftarrow> read_groups req sb p cnt (Suc i) buf1 g;
             Some (map_sum id (Cons \<lparr>inode_bitmap = ib, block_bitmap = bb, phys = ph\<rparr>) x)
           }
         }
       }
     })"
  by pat_completeness auto
termination
  by (relation "measure (\<lambda>(req, sb, p, cnt, i, buf, g). cnt - i)") auto

declare read_groups.simps [simp del]

text \<open>
  The super block with the block size of the disk, when it can be read and has the magic number; the root inode is then fetched
  with \<^verbatim>\<open>iget\<close>.
\<close>

definition read_ext2_sb :: "request \<Rightarrow> nat \<Rightarrow> uchar list \<Rightarrow> uchar list \<Rightarrow> (blk \<times> ext2_discr) option option" where
  "read_ext2_sb req bs buf g = do {
     let sb = \<lparr>blocksize = 0x400, skip_bytes = 0x400, bsize = bs\<rparr>;
     (r, buf1) \<leftarrow> ext2_read_block req sb 1 buf;
     let p = get_ext2_sb buf1;
     if r \<le> 0 \<or> s_magic p \<noteq> EXT2_MAGIC then Some None
     else if s_ino_size p = 0 \<or> s_blocks_per_group p = 0 then None
     else do {
       let sb1 = sb\<lparr>blocksize := 0x400 * 2 ^ (s_log_block_size p mod 32) mod 2 ^ 32\<rparr>;
       x \<leftarrow> read_groups req sb1 p (s_blocks_count p div s_blocks_per_group p + 1) 0 buf1 g;
       Some (case x of
         Inl _ \<Rightarrow> None
       | Inr gs \<Rightarrow> Some (sb1, \<lparr>pysb = p, groups = gs, inodes_per_block = blocksize sb1 div s_ino_size p\<rparr>))
     }
   }"

definition ext2_mount_root :: "(nat \<Rightarrow> uint \<Rightarrow> vnode) \<Rightarrow> nat \<Rightarrow> vfs \<Rightarrow> vfs option" where
  "ext2_mount_root rd s st = do {
     x \<leftarrow> supers st s;
     (r, st1) \<leftarrow> iget rd (Some s) EXT2_ROOT_INO (st\<lparr>supers := (supers st)(s \<mapsto> x\<lparr>s_op := True\<rparr>)\<rparr>);
     y \<leftarrow> supers st1 s;
     Some (st1\<lparr>supers := (supers st1)(s \<mapsto> y\<lparr>s_root := r\<rparr>)\<rparr>)
   }"

section \<open>Reading a file\<close>

text \<open>Block \<open>b\<close> of the file is on the disk and can be read; \<open>data\<close> are the bytes of the file and of the rest of its last block.\<close>

definition holds_block :: "request \<Rightarrow> blk \<Rightarrow> ext2_inode \<Rightarrow> (nat \<Rightarrow> uchar) \<Rightarrow> nat \<Rightarrow> bool" where
  "holds_block req sb i data b \<longleftrightarrow> (\<forall>buf. length buf = blocksize sb \<longrightarrow>
     (\<exists>r > 0. ext2_read_block req sb (file_ext2_block i b) buf = Some (r, map data [b * blocksize sb..<Suc b * blocksize sb])))"

lemma holds_blockD:
  assumes "holds_block req sb i data b" "length buf = blocksize sb"
  obtains r where "r > 0" "ext2_read_block req sb (file_ext2_block i b) buf = Some (r, map data [b * blocksize sb..<Suc b * blocksize sb])"
  using assms by (auto simp: holds_block_def)

lemma length_block [simp]: "length (map data [b * n..<Suc b * n]) = n"
  by simp

lemma upt_glue: "(a :: nat) \<le> b \<Longrightarrow> b \<le> c \<Longrightarrow> map f [a..<b] @ map f [b..<c] = map f [a..<c]"
  by (metis map_append upt_add_eq_append le_add_diff_inverse)

lemma read_middle_ok:
  assumes "\<And>b. block \<le> b \<Longrightarrow> b < block + n \<Longrightarrow> holds_block req sb i data b" "length buf = blocksize sb"
  shows "\<exists>buf2. length buf2 = blocksize sb \<and>
    read_middle req sb i block n buf = Some (True, map data [block * blocksize sb..<(block + n) * blocksize sb], buf2)"
  using assms
proof (induction n arbitrary: block buf)
  case (Suc n)
  let ?b = "map data [block * blocksize sb..<Suc block * blocksize sb]"
  obtain r where r: "r > 0" "ext2_read_block req sb (file_ext2_block i block) buf = Some (r, ?b)"
    using holds_blockD[OF Suc.prems(1) Suc.prems(2), of block] by auto
  obtain buf2 where m: "length buf2 = blocksize sb"
      "read_middle req sb i (Suc block) n ?b = Some (True, map data [Suc block * blocksize sb..<(Suc block + n) * blocksize sb], buf2)"
    using Suc.IH[of "Suc block" ?b] Suc.prems(1) by fastforce
  have "take (blocksize sb) ?b = ?b" by (rule take_all) simp
  moreover have "?b @ map data [Suc block * blocksize sb..<(Suc block + n) * blocksize sb] = map data [block * blocksize sb..<(block + Suc n) * blocksize sb]"
    by (subst upt_glue) (simp_all add: algebra_simps)
  ultimately show ?case using r m by auto
qed simp

lemma first_part:
  assumes "0 < n" shows "take (n - off mod n) (drop (off mod n) (map data [off div n * n..<Suc (off div n) * n])) = map data [off..<Suc (off div n) * n]"
proof -
  have e: "off div n * n + off mod n = off" by simp
  have "off mod n < n" using assms by simp
  then have "length [off..<Suc (off div n) * n] = n - off mod n" using e unfolding length_upt mult_Suc by linarith
  moreover have "drop (off mod n) [off div n * n..<Suc (off div n) * n] = [off..<Suc (off div n) * n]" using e by (simp add: drop_upt)
  ultimately show ?thesis unfolding drop_map take_map by (simp only: take_all order_refl)
qed

lemma ext2_read_ok:
  assumes bs: "0 < blocksize sb" and rng: "0 < len" "offset + len \<le> fsize" "fsize < 2 ^ 32" and g: "length g = blocksize sb"
    and blocks: "\<forall>b \<in> {offset div blocksize sb..(offset + len - 1) div blocksize sb}. holds_block req sb i data b"
  shows "ext2_read req sb i fsize offset len g = Some (int len, map data [offset..<
    (if offset div blocksize sb = (offset + len - 1) div blocksize sb then Suc (offset div blocksize sb) * blocksize sb
     else (offset + len - 1) div blocksize sb * blocksize sb + (offset + len) mod blocksize sb)])"
proof -
  let ?n = "blocksize sb" and ?s = "offset div blocksize sb" and ?e = "(offset + len - 1) div blocksize sb"
  have a: "add32 offset len = offset + len" "sub32 (offset + len) 1 = offset + len - 1" "\<not> fsize < offset + len" "\<not> fsize < offset"
    using rng by simp_all
  have se: "?s \<le> ?e" using rng(1) by (simp add: div_le_mono)
  have off: "offset < Suc ?s * ?n" using bs by (simp add: dividend_less_div_times add.commute)
  define buf where "buf = map data [?s * ?n..<Suc ?s * ?n]"
  define p1 where "p1 = map data [offset..<Suc ?s * ?n]"
  have f: "take (?n - offset mod ?n) (drop (offset mod ?n) buf) = p1" unfolding buf_def p1_def by (rule first_part[OF bs])
  have l: "length buf = ?n" unfolding buf_def by simp
  obtain r where r: "r > 0" "ext2_read_block req sb (file_ext2_block i ?s) g = Some (r, buf)"
    using holds_blockD[OF _ g, of req i data ?s] blocks se unfolding buf_def by auto
  obtain buf2 where m: "length buf2 = ?n"
      "read_middle req sb i (Suc ?s) (?e - Suc ?s) buf = Some (True, map data [Suc ?s * ?n..<(Suc ?s + (?e - Suc ?s)) * ?n], buf2)"
    using read_middle_ok[of "Suc ?s" "?e - Suc ?s" req sb i data buf] blocks l by auto
  have sz: "(if add32 offset len > fsize then fsize - offset else len) = len" using a(1,3) by simp
  have body: "ext2_read req sb i fsize offset len g =
      (if ?s = ?e then Some (int len, p1 @ map data [Suc ?s * ?n..<(Suc ?s + (?e - Suc ?s)) * ?n])
       else Option.bind (ext2_read_block req sb (file_ext2_block i ?e) buf2) (\<lambda>(r3, buf3). if r3 \<le> 0 then Some (err EIO, p1 @ map data [Suc ?s * ?n..<(Suc ?s + (?e - Suc ?s)) * ?n])
             else Some (int len, p1 @ map data [Suc ?s * ?n..<(Suc ?s + (?e - Suc ?s)) * ?n] @ take ((offset + len) mod ?n) buf3)))"
    unfolding ext2_read_def Let_def unfolding sz unfolding a(1) a(2) using a(4) r m(2) f bs by (simp cong: if_cong)
  show ?thesis
  proof (cases "?s = ?e")
    case True
    then have "(Suc ?s + (?e - Suc ?s)) * ?n = Suc ?s * ?n" by simp
    then show ?thesis unfolding body using True p1_def by simp
  next
    case False
    then have lt: "Suc ?s \<le> ?e" using se by simp
    then have mid: "Suc ?s + (?e - Suc ?s) = ?e" by simp
    obtain r3 where r3: "r3 > 0" "ext2_read_block req sb (file_ext2_block i ?e) buf2 = Some (r3, map data [?e * ?n..<Suc ?e * ?n])"
      using holds_blockD[OF _ m(1), of req i data ?e] blocks se by auto
    have t: "take ((offset + len) mod ?n) (map data [?e * ?n..<Suc ?e * ?n]) = map data [?e * ?n..<?e * ?n + (offset + len) mod ?n]"
      using mod_less_divisor[OF bs, of "offset + len"] by (simp add: take_map)
    have le: "Suc ?s * ?n \<le> ?e * ?n" using lt by (rule mult_le_mono1)
    have "p1 @ map data [Suc ?s * ?n..<?e * ?n] @ map data [?e * ?n..<?e * ?n + (offset + len) mod ?n]
        = map data [offset..<?e * ?n + (offset + len) mod ?n]"
      unfolding p1_def using off le by (simp only: upt_glue less_imp_le le_add1)
    then show ?thesis unfolding body mid using False r3 t by (simp only: if_False bind.simps prod.case if_not_P not_le)
  qed
qed


text \<open>A disk whose sectors hold their number, and a file of its blocks 10 to 21.\<close>

definition demo_req :: request where
  "demo_req sec cnt = (int cnt, map (\<lambda>j. word_of_nat (sec + j div 512)) [0..<512 * cnt])"

definition demo_blk :: blk where "demo_blk = \<lparr>blocksize = 1024, skip_bytes = 1024, bsize = 512\<rparr>"

definition demo_ino :: ext2_inode where
  "demo_ino = \<lparr>e_mode = 0, e_uid = 0, e_size = 5000, e_atime = 0, e_ctime = 0, e_mtime = 0, e_gid = 0, e_nlinks = 1, e_block = [10..<25]\<rparr>"

definition demo_data :: "nat \<Rightarrow> uchar" where "demo_data j = word_of_nat (20 + j div 512)"

lemma demo_holds: "b < 12 \<Longrightarrow> holds_block demo_req demo_blk demo_ino demo_data b"
proof -
  assume b: "b < 12"
  have "[10..<25] ! b = 10 + b" by (rule nth_upt) (use b in simp)
  then have n: "file_ext2_block demo_ino b = 10 + b"
    using b unfolding file_ext2_block_def EXT2_NDIR_BLOCKS_def demo_ino_def by (simp only: ext2_inode.simps if_True)
  have e: "map (\<lambda>j. word_of_nat ((9 + b) * 2 + 2 + j div 512)) [0..<1024] = map demo_data [b * 1024..<Suc b * 1024]"
  proof (rule nth_equalityI)
    fix j assume "j < length (map (\<lambda>j. word_of_nat ((9 + b) * 2 + 2 + j div 512) :: uchar) [0..<1024])"
    then have "j < 1024" by simp
    moreover have "(b * 1024 + j) div 512 = 2 * b + j div 512"
    proof -
      have "b * 1024 + j = j + (2 * b) * 512" by simp
      then show ?thesis by (simp only: div_mult_self3 div_mult_self1)
    qed
    ultimately show "map (\<lambda>j. word_of_nat ((9 + b) * 2 + 2 + j div 512)) [0..<1024] ! j = map demo_data [b * 1024..<Suc b * 1024] ! j"
      by (simp add: demo_data_def algebra_simps)
  qed simp
  have s: "add32 ((9 + b) * 2) 2 = (9 + b) * 2 + 2" using b by simp
  have "ext2_read_block demo_req demo_blk (10 + b) buf = Some (2, map demo_data [b * 1024..<Suc b * 1024])" if "length buf = 1024" for buf
    using that e s by (simp add: ext2_read_block_def fs_read_block_def demo_blk_def demo_req_def overlay_def Let_def)
  then show ?thesis using n by (auto simp: holds_block_def demo_blk_def)
qed


section \<open>Reading at the end\<close>

text \<open>At the end of a file the size is 0, and the rest of the block is stored all the same.\<close>

lemma ext2_read_at_end:
  assumes "0 < offset" "offset < 2 ^ 32" "0 < blocksize sb" "offset mod blocksize sb \<noteq> 0" "length g = blocksize sb"
    and "holds_block req sb i data (offset div blocksize sb)"
  shows "ext2_read req sb i offset offset n g = Some (0, map data [offset..<Suc (offset div blocksize sb) * blocksize sb]) \<or> add32 offset n \<le> offset"
proof (cases "add32 offset n > offset")
  case True
  let ?n = "blocksize sb"
  have e: "(offset - 1) div ?n = offset div ?n" using assms(1,4) by (metis Suc_diff_1 div_Suc mod_less_eq_dividend gr0I)
  have a: "add32 offset 0 = offset" "sub32 offset 1 = offset - 1" using assms by simp_all
  define buf where "buf = map data [offset div ?n * ?n..<Suc (offset div ?n) * ?n]"
  have f: "take (?n - offset mod ?n) (drop (offset mod ?n) buf) = map data [offset..<Suc (offset div ?n) * ?n]"
    unfolding buf_def by (rule first_part[OF assms(3)])
  obtain r where "r > 0" "ext2_read_block req sb (file_ext2_block i (offset div ?n)) g = Some (r, buf)"
    using holds_blockD[OF assms(6,5)] unfolding buf_def by auto
  then show ?thesis using True a e assms(3) f by (simp add: ext2_read_def Let_def)
qed simp

section \<open>Group descriptors\<close>

text \<open>
  Every group reads the first descriptor of the table in its own backup. On a disk whose backups are copies of the primary table
  all groups therefore get the descriptor, and the bitmaps, of group 0.
\<close>

lemma read_groups_alike:
  assumes "read_groups req sb p cnt i buf g = Some (Inr gs)" "length buf = 1024"
    and "\<And>j buf. i \<le> j \<Longrightarrow> j < cnt \<Longrightarrow> length buf = 1024 \<Longrightarrow>
      ext2_read_block req sb (add32 (add32 (s_first_data_block p) (s_blocks_per_group p * j)) 1) buf = Some (2, tab)"
    and "length tab = 1024"
  shows "\<forall>x \<in> set gs. phys x = get_group_dt tab"
  using assms
proof (induction "cnt - i" arbitrary: i buf gs)
  case 0
  then show ?case by (simp add: read_groups.simps[of req sb p cnt i])
next
  case (Suc d)
  then have i: "\<not> i \<ge> cnt" "d = cnt - Suc i" by simp_all
  have t: "ext2_read_block req sb (add32 (add32 (s_first_data_block p) (s_blocks_per_group p * i)) 1) buf = Some (2, tab)"
    using Suc.prems(2,3) i by simp
  obtain ib bb x where rest: "read_groups req sb p cnt (Suc i) tab g = Some x"
      "map_sum id (Cons \<lparr>inode_bitmap = ib, block_bitmap = bb, phys = get_group_dt tab\<rparr>) x = Inr gs"
    using Suc.prems(1) t i assms(4) unfolding read_groups.simps[of req sb p cnt i]
    by (auto simp: Let_def bind_eq_Some_conv split: if_splits)
  then obtain gs' where gs': "x = Inr gs'" "gs = \<lparr>inode_bitmap = ib, block_bitmap = bb, phys = get_group_dt tab\<rparr> # gs'" by (cases x) auto
  have "\<forall>y \<in> set gs'. phys y = get_group_dt tab"
    by (rule Suc.hyps(1)[OF i(2), of tab]) (use rest gs' Suc.prems(3) assms(4) in auto)
  then show ?case using gs'(2) by simp
qed

section \<open>Looking up a name\<close>

definition ent_match :: "memory \<Rightarrow> string \<Rightarrow> nat \<Rightarrow> bool" where
  "ent_match m name e \<longleftrightarrow> namei_nmatch name (ent_name m e (Suc (length name))) (word_of_nat (ent_name_len m e))"

text \<open>The entries \<open>e 0\<close> to \<open>e k\<close> follow each other, and the first \<open>k\<close> of them are passed.\<close>

lemma lookup_walk_skip:
  assumes "\<And>j. j < k \<Longrightarrow> e (Suc j) = e j + ent_rec_len m (e j) \<and> ent_rec_len m (e j) > 0 \<and> \<not> ent_match m name (e j)"
    and "\<And>j. j < k \<Longrightarrow> (\<Sum>l = 1..j. int (ent_rec_len m (e l))) < rs"
  shows "lookup_walk m name (e 0) rs = lookup_walk m name (e k) (rs - (\<Sum>l = 1..k. int (ent_rec_len m (e l))))"
  using assms
proof (induction k)
  case (Suc k)
  let ?rs = "rs - (\<Sum>l = 1..k. int (ent_rec_len m (e l)))"
  have "lookup_walk m name (e 0) rs = lookup_walk m name (e k) ?rs" using Suc by simp
  also have "\<dots> = lookup_walk m name (e (Suc k)) (?rs - int (ent_rec_len m (e (Suc k))))"
    using Suc.prems(1)[of k] Suc.prems(2)[of k] by (subst lookup_walk.simps) (simp add: Let_def ent_match_def)
  finally show ?case by (simp add: algebra_simps)
qed simp

lemma chain_sum:
  assumes "\<And>j. j < k \<Longrightarrow> e (Suc j) = e j + ent_rec_len m (e j)" "e 0 = 0" "j \<le> k"
  shows "(\<Sum>l = 1..j. int (ent_rec_len m (e l))) = int (e j + ent_rec_len m (e j)) - int (ent_rec_len m (e 0))"
  using assms(3)
proof (induction j)
  case (Suc j)
  then show ?case using assms(1)[of j] by simp
qed (simp add: assms(2))

text \<open>A name is found in the first entry it matches, when the entries lie inside the directory.\<close>

lemma lookup_walk_finds:
  assumes chain: "\<And>j. j < k \<Longrightarrow> e (Suc j) = e j + ent_rec_len m (e j) \<and> ent_rec_len m (e j) > 0 \<and> \<not> ent_match m name (e j)"
    and k: "ent_match m name (e k)" and e0: "e 0 = 0" and inside: "\<And>j. j \<le> k \<Longrightarrow> e j + ent_rec_len m (e j) \<le> n" and n: "0 < n"
  shows "lookup_walk m name 0 (int n) = Some (ent_inode m (e k))"
proof -
  note sum = chain_sum[of k e m, OF _ e0]
  have less: "(\<Sum>l = 1..j. int (ent_rec_len m (e l))) < int n" if "j \<le> k" for j
  proof (cases "j = 0")
    case False
    then have "ent_rec_len m (e 0) > 0" using chain[of 0] that by simp
    then show ?thesis using sum[OF _ that] chain inside[OF that] by simp
  qed (use n in simp)
  have "lookup_walk m name 0 (int n) = lookup_walk m name (e k) (int n - (\<Sum>l = 1..k. int (ent_rec_len m (e l))))"
    using lookup_walk_skip[of k e m name "int n"] chain e0 less by simp
  also have "\<dots> = Some (ent_inode m (e k))" using less[of k] k by (subst lookup_walk.simps) (simp add: ent_match_def)
  finally show ?thesis .
qed

text \<open>
  The length of the first entry is never taken off: after the last entry the search goes on behind the directory, with what lies
  there in memory.
\<close>

lemma lookup_walk_past_end:
  assumes chain: "\<And>j. j < k \<Longrightarrow> e (Suc j) = e j + ent_rec_len m (e j) \<and> ent_rec_len m (e j) > 0 \<and> \<not> ent_match m name (e j)"
    and e: "e 0 = 0" "e k = n" "0 < k"
  shows "lookup_walk m name 0 (int n) = lookup_walk m name n (int (ent_rec_len m 0) - int (ent_rec_len m n))"
proof -
  note sum = chain_sum[of k e m, OF _ e(1)]
  have mono: "j < k \<Longrightarrow> e (Suc j) \<le> e k" for j
  proof (induction "k - Suc j" arbitrary: j)
    case 0
    then have "Suc j = k" by linarith
    then show ?case by simp
  next
    case (Suc d)
    then have "Suc j < k" by simp
    moreover have "d = k - Suc (Suc j)" using Suc.hyps(2) by linarith
    ultimately show ?case using chain[of "Suc j"] Suc.hyps(1)[of "Suc j"] by simp
  qed
  have "(\<Sum>l = 1..j. int (ent_rec_len m (e l))) < int n" if "j < k" for j
    using sum[of j] chain mono[OF that] chain[of 0, simplified e(1)] e that by (simp add: less_imp_le)
  then have "lookup_walk m name 0 (int n) = lookup_walk m name (e k) (int n - (\<Sum>l = 1..k. int (ent_rec_len m (e l))))"
    using lookup_walk_skip[of k e m name "int n"] chain e by simp
  then show ?thesis using sum[of k] chain e by simp
qed

section \<open>Block devices\<close>

text \<open>
  What the filesystem relies on: a request for sectors of the device succeeds and stores their bytes. The sectors are those of
  an image, of \<open>ss\<close> bytes each.
\<close>

locale block_device =
  fixes req :: request and img :: "nat \<Rightarrow> uchar" and sectors ss :: nat
  assumes sector: "0 < ss"
    and small: "sectors * ss < 2 ^ 32"
    and request: "0 < cnt \<Longrightarrow> sec + cnt \<le> sectors \<Longrightarrow> \<exists>r > 0. req sec cnt = (r, map img [sec * ss..<(sec + cnt) * ss])"
begin

text \<open>A block is read from its place in the image, when it consists of whole sectors and lies on the device.\<close>

lemma read_block_image:
  assumes sb: "bsize sb = ss" "blocksize sb = k * ss" "0 < k" "skip_bytes sb = l * ss"
    and on: "l + Suc b * k \<le> sectors" and buf: "length buf = blocksize sb"
  shows "\<exists>r > 0. fs_read_block req sb b 1 buf = Some (r, map img [skip_bytes sb + b * blocksize sb..<skip_bytes sb + Suc b * blocksize sb])"
proof -
  have "l + Suc b * k \<le> sectors * ss" using on sector by (metis le_trans mult.right_neutral mult_le_mono2 Suc_leI One_nat_def)
  then have lim: "l + Suc b * k < 2 ^ 32" using small by simp
  then have a: "add32 (b * k) l = b * k + l" "k mod 2 ^ 32 = k" by simp_all
  obtain r where r: "r > 0" "req (b * k + l) k = (r, map img [(b * k + l) * ss..<(b * k + l + k) * ss])"
    using request[of k "b * k + l"] sb(3) on by (auto simp: algebra_simps)
  have e: "(b * k + l) * ss = skip_bytes sb + b * blocksize sb" "(b * k + l + k) * ss = skip_bytes sb + Suc b * blocksize sb"
    using sb by (simp_all add: algebra_simps)
  have "fs_read_block req sb b 1 buf = Some (r, overlay (map img [(b * k + l) * ss..<(b * k + l + k) * ss]) buf)"
    using sb sector a r(2) by (simp add: fs_read_block_def Let_def)
  moreover have "overlay (map img [(b * k + l) * ss..<(b * k + l + k) * ss]) buf = map img [(b * k + l) * ss..<(b * k + l + k) * ss]"
    using buf sb(2) by (simp add: overlay_def algebra_simps)
  ultimately show ?thesis using r(1) e by auto
qed

text \<open>So the blocks of a file hold what the image has at their places.\<close>

lemma file_block_image:
  assumes sb: "bsize sb = ss" "blocksize sb = k * ss" "0 < k" "skip_bytes sb = l * ss"
    and fb: "file_ext2_block i b = Suc c" "l + Suc c * k \<le> sectors"
    and data: "\<And>j. j < blocksize sb \<Longrightarrow> data (b * blocksize sb + j) = img (skip_bytes sb + c * blocksize sb + j)"
  shows "holds_block req sb i data b"
proof -
  have "map img [skip_bytes sb + c * blocksize sb..<skip_bytes sb + Suc c * blocksize sb] = map data [b * blocksize sb..<Suc b * blocksize sb]"
    by (rule nth_equalityI) (simp_all add: data add.assoc)
  then show ?thesis using read_block_image[OF sb fb(2)] fb(1) by (auto simp: holds_block_def ext2_read_block_def)
qed

end

end
