(* ===== verification/Ramdisk.thy ===== *)
theory Ramdisk
  imports Drivers Ext2
begin

text \<open>
  The ramdisk of \<^verbatim>\<open>src/drivers/ramdisk.c\<close>, a block device of 2880 sectors whose bytes are kept in memory. A request returns the
  buffer and the disk after it and whether the lock of the device was released; \<open>None\<close> is a copy outside the disk or the
  buffer. The second part puts the filesystem of the theory Ext2 on this device.
\<close>

definition RAMDISK_SECTOR_SIZE :: nat where "RAMDISK_SECTOR_SIZE = 512"
definition RAMDISK_SECTOR_COUNT :: nat where "RAMDISK_SECTOR_COUNT = 2880"

abbreviation RAMDISK_BYTES :: nat where
  "RAMDISK_BYTES \<equiv> RAMDISK_SECTOR_COUNT * RAMDISK_SECTOR_SIZE"

definition ramdisk_request :: "int \<Rightarrow> uint \<Rightarrow> uint \<Rightarrow> uchar list \<Rightarrow> memory \<Rightarrow> (bool \<times> int \<times> uchar list \<times> memory) option" where
  "ramdisk_request cmd sector cnt0 buffer disk =
    (if sector > word_of_nat RAMDISK_SECTOR_COUNT then Some (False, 0, buffer, disk)
     else
       let cnt = (if sector + cnt0 > word_of_nat RAMDISK_SECTOR_COUNT then word_of_nat RAMDISK_SECTOR_COUNT - sector else cnt0);
           sz = unat (cnt * word_of_nat RAMDISK_SECTOR_SIZE);
           off = unat (sector * word_of_nat RAMDISK_SECTOR_SIZE)
       in
       if cmd = REQUEST_READ then
         (if off + sz > RAMDISK_BYTES \<or> sz > length buffer then None
          else Some (True, sint cnt, load_bytes disk off sz @ drop sz buffer, disk))
       else if cmd = REQUEST_WRITE then
         (if off + sz > RAMDISK_BYTES \<or> sz > length buffer then None
          else Some (True, sint cnt, buffer, store_bytes disk off (take sz buffer)))
       else Some (True, sint cnt, buffer, disk))"

definition setup_ramdisk :: "nat \<Rightarrow> devfs \<times> vfs \<Rightarrow> (nat option \<times> memory \<times> devfs \<times> vfs) option" where
  "setup_ramdisk ops s = do {
     (h, s1) \<leftarrow> devfs_register_device None ''ram0'' 0x1B0 0 0 FS_BLOCKDEVICE ops s;
     p \<leftarrow> h;
     Some (Some p, (\<lambda>_. 0), s1)
   }"

section \<open>Requests inside the disk\<close>

lemma ramdisk_words:
  assumes "sec + cnt \<le> RAMDISK_SECTOR_COUNT"
  shows "\<not> (word_of_nat sec :: uint) > word_of_nat RAMDISK_SECTOR_COUNT" "\<not> (word_of_nat sec + word_of_nat cnt :: uint) > word_of_nat RAMDISK_SECTOR_COUNT"
    "unat (word_of_nat cnt * word_of_nat RAMDISK_SECTOR_SIZE :: uint) = cnt * RAMDISK_SECTOR_SIZE"
    "unat (word_of_nat sec * word_of_nat RAMDISK_SECTOR_SIZE :: uint) = sec * RAMDISK_SECTOR_SIZE" "sint (word_of_nat cnt :: uint) = int cnt"
    "(sec + cnt) * RAMDISK_SECTOR_SIZE \<le> RAMDISK_BYTES"
proof -
  have l: "sec \<le> 2880" "cnt \<le> 2880" "sec + cnt \<le> 2880" using assms by (simp_all add: RAMDISK_SECTOR_COUNT_def)
  have u: "unat (word_of_nat n :: uint) = n" if "n < 2 ^ 32" for n using that by (simp add: unat_of_nat)
  show "\<not> (word_of_nat sec :: uint) > word_of_nat RAMDISK_SECTOR_COUNT"
    using l u[of sec] by (simp add: word_less_nat_alt RAMDISK_SECTOR_COUNT_def)
  have "unat (word_of_nat (sec + cnt) :: uint) = sec + cnt" by (rule u) (use l in simp)
  then show "\<not> (word_of_nat sec + word_of_nat cnt :: uint) > word_of_nat RAMDISK_SECTOR_COUNT"
    using l by (simp add: word_less_nat_alt RAMDISK_SECTOR_COUNT_def)
  have "unat (word_of_nat (cnt * 512) :: uint) = cnt * 512" by (rule u) (use l in simp)
  then show "unat (word_of_nat cnt * word_of_nat RAMDISK_SECTOR_SIZE :: uint) = cnt * RAMDISK_SECTOR_SIZE" by (simp add: RAMDISK_SECTOR_SIZE_def)
  have "unat (word_of_nat (sec * 512) :: uint) = sec * 512" by (rule u) (use l in simp)
  then show "unat (word_of_nat sec * word_of_nat RAMDISK_SECTOR_SIZE :: uint) = sec * RAMDISK_SECTOR_SIZE" by (simp add: RAMDISK_SECTOR_SIZE_def)
  show "sint (word_of_nat cnt :: uint) = int cnt"
    using l(2) by (simp add: signed_of_nat signed_take_bit_int_eq_self)
  show "(sec + cnt) * RAMDISK_SECTOR_SIZE \<le> RAMDISK_BYTES" using assms by (rule mult_le_mono1)
qed

lemma ramdisk_read_ok:
  assumes "sec + cnt \<le> RAMDISK_SECTOR_COUNT" "cnt * RAMDISK_SECTOR_SIZE \<le> length buf"
  shows "ramdisk_request REQUEST_READ (word_of_nat sec) (word_of_nat cnt) buf disk =
    Some (True, int cnt, load_bytes disk (sec * RAMDISK_SECTOR_SIZE) (cnt * RAMDISK_SECTOR_SIZE) @ drop (cnt * RAMDISK_SECTOR_SIZE) buf, disk)"
  using ramdisk_words[OF assms(1)] assms(2) by (simp add: ramdisk_request_def Let_def algebra_simps)

lemma ramdisk_write_ok:
  assumes "sec + cnt \<le> RAMDISK_SECTOR_COUNT" "cnt * RAMDISK_SECTOR_SIZE \<le> length buf"
  shows "ramdisk_request REQUEST_WRITE (word_of_nat sec) (word_of_nat cnt) buf disk =
    Some (True, int cnt, buf, store_bytes disk (sec * RAMDISK_SECTOR_SIZE) (take (cnt * RAMDISK_SECTOR_SIZE) buf))"
  using ramdisk_words[OF assms(1)] assms(2) by (simp add: ramdisk_request_def Let_def algebra_simps REQUEST_READ_def REQUEST_WRITE_def)

text \<open>
  C22: sectors written to the ramdisk are read back with the same bytes, the lock is released by both requests, and no byte outside
  the sectors changes.
\<close>

theorem ramdisk_roundtrip:
  assumes "sec + cnt \<le> RAMDISK_SECTOR_COUNT" "length buf = cnt * RAMDISK_SECTOR_SIZE" "length buf2 = length buf"
  shows "\<exists>disk'. ramdisk_request REQUEST_WRITE (word_of_nat sec) (word_of_nat cnt) buf disk = Some (True, int cnt, buf, disk') \<and>
    ramdisk_request REQUEST_READ (word_of_nat sec) (word_of_nat cnt) buf2 disk' = Some (True, int cnt, buf, disk') \<and>
    (\<forall>a. a < sec * RAMDISK_SECTOR_SIZE \<or> (sec + cnt) * RAMDISK_SECTOR_SIZE \<le> a \<longrightarrow> disk' a = disk a)"
proof -
  let ?disk = "store_bytes disk (sec * RAMDISK_SECTOR_SIZE) buf"
  have "load_bytes ?disk (sec * RAMDISK_SECTOR_SIZE) (length buf) = buf"
    by (rule nth_equalityI) (simp_all add: load_bytes_def store_bytes_def)
  moreover have "\<forall>a. a < sec * RAMDISK_SECTOR_SIZE \<or> (sec + cnt) * RAMDISK_SECTOR_SIZE \<le> a \<longrightarrow> ?disk a = disk a"
    using assms(2) by (auto simp: store_bytes_def algebra_simps)
  ultimately show ?thesis using ramdisk_write_ok[OF assms(1), of buf disk] ramdisk_read_ok[OF assms(1), of buf2 ?disk] assms(2,3) by simp
qed

theorem ramdisk_roundtrip_witness:
  "\<exists>disk'. ramdisk_request REQUEST_WRITE 2879 1 (replicate 512 7) (\<lambda>_. 0) = Some (True, 1, replicate 512 7, disk') \<and>
    ramdisk_request REQUEST_READ 2879 1 (replicate 512 0) disk' = Some (True, 1, replicate 512 7, disk') \<and> disk' 5 = 0"
proof -
  have "\<exists>disk'. ramdisk_request REQUEST_WRITE (word_of_nat 2879) (word_of_nat 1) (replicate 512 7) (\<lambda>_. 0) = Some (True, int 1, replicate 512 7, disk') \<and>
      ramdisk_request REQUEST_READ (word_of_nat 2879) (word_of_nat 1) (replicate 512 0) disk' = Some (True, int 1, replicate 512 7, disk') \<and>
      (\<forall>a. a < 2879 * RAMDISK_SECTOR_SIZE \<or> (2879 + 1) * RAMDISK_SECTOR_SIZE \<le> a \<longrightarrow> disk' a = 0)"
    by (rule ramdisk_roundtrip) (simp_all add: RAMDISK_SECTOR_COUNT_def RAMDISK_SECTOR_SIZE_def)
  then obtain disk' where d: "ramdisk_request REQUEST_WRITE (word_of_nat 2879) (word_of_nat 1) (replicate 512 7) (\<lambda>_. 0) = Some (True, int 1, replicate 512 7, disk')"
      "ramdisk_request REQUEST_READ (word_of_nat 2879) (word_of_nat 1) (replicate 512 0) disk' = Some (True, int 1, replicate 512 7, disk')"
      "\<forall>a. a < 2879 * RAMDISK_SECTOR_SIZE \<or> (2879 + 1) * RAMDISK_SECTOR_SIZE \<le> a \<longrightarrow> disk' a = 0" by blast
  have w: "word_of_nat 2879 = (2879 :: uint)" "word_of_nat 1 = (1 :: uint)" "int 1 = 1" by simp_all
  have "disk' 5 = 0" using d(3) by (simp add: RAMDISK_SECTOR_SIZE_def)
  then show ?thesis using d(1,2) unfolding w by blast
qed

section \<open>Requests outside the disk\<close>

text \<open>A request behind the end returns 0 with the lock still held.\<close>

lemma ramdisk_keeps_lock: "sector > word_of_nat RAMDISK_SECTOR_COUNT \<Longrightarrow> ramdisk_request cmd sector cnt buf disk = Some (False, 0, buf, disk)"
  by (simp add: ramdisk_request_def)

text \<open>The sum of sector and count wraps: the count is not limited then, and the copy leaves the disk.\<close>

lemma ramdisk_wraps: "ramdisk_request REQUEST_READ 1 0xFFFFFFFF buf disk = None"
  by (simp add: ramdisk_request_def Let_def RAMDISK_SECTOR_COUNT_def RAMDISK_SECTOR_SIZE_def REQUEST_READ_def)

section \<open>A filesystem on the ramdisk\<close>

text \<open>The device as the filesystem sees it: the bytes a read request stores, in a buffer of the right length.\<close>

definition ram_req :: "memory \<Rightarrow> request" where
  "ram_req disk sec cnt =
    (case ramdisk_request REQUEST_READ (word_of_nat sec) (word_of_nat cnt) (replicate (cnt * RAMDISK_SECTOR_SIZE) 0) disk of
       Some (_, r, bs, _) \<Rightarrow> (r, bs)
     | None \<Rightarrow> (0, []))"

interpretation ram: block_device "ram_req disk" disk RAMDISK_SECTOR_COUNT RAMDISK_SECTOR_SIZE for disk
proof unfold_locales
  show "0 < RAMDISK_SECTOR_SIZE" "RAMDISK_SECTOR_COUNT * RAMDISK_SECTOR_SIZE < 2 ^ 32" by (simp_all add: RAMDISK_SECTOR_SIZE_def RAMDISK_SECTOR_COUNT_def)
  fix cnt sec :: nat assume c: "0 < cnt" "sec + cnt \<le> RAMDISK_SECTOR_COUNT"
  have "load_bytes disk (sec * RAMDISK_SECTOR_SIZE) (cnt * RAMDISK_SECTOR_SIZE) = map disk [sec * RAMDISK_SECTOR_SIZE..<(sec + cnt) * RAMDISK_SECTOR_SIZE]"
    by (rule nth_equalityI) (simp_all add: load_bytes_def algebra_simps)
  then show "\<exists>r > 0. ram_req disk sec cnt = (r, map disk [sec * RAMDISK_SECTOR_SIZE..<(sec + cnt) * RAMDISK_SECTOR_SIZE])"
    using c ramdisk_read_ok[OF c(2), of "replicate (cnt * RAMDISK_SECTOR_SIZE) 0" disk] by (simp add: ram_req_def)
qed

definition ram_blk :: blk where "ram_blk = \<lparr>blocksize = 1024, skip_bytes = 1024, bsize = RAMDISK_SECTOR_SIZE\<rparr>"

text \<open>Where a byte of a file lies on a disk with blocks of 1024 bytes.\<close>

definition file_byte :: "memory \<Rightarrow> ext2_inode \<Rightarrow> nat \<Rightarrow> uchar" where
  "file_byte disk i j = disk (e_block i ! (j div 1024) * 1024 + j mod 1024)"

lemma ram_holds_block:
  assumes "b < EXT2_NDIR_BLOCKS" "0 < e_block i ! b" "2 * Suc (e_block i ! b) \<le> RAMDISK_SECTOR_COUNT"
  shows "holds_block (ram_req disk) ram_blk i (file_byte disk i) b"
proof (rule ram.file_block_image[where k = 2 and l = 2 and c = "e_block i ! b - 1"])
  show "bsize ram_blk = RAMDISK_SECTOR_SIZE" "blocksize ram_blk = 2 * RAMDISK_SECTOR_SIZE" "(0 :: nat) < 2" "skip_bytes ram_blk = 2 * RAMDISK_SECTOR_SIZE"
    by (simp_all add: ram_blk_def RAMDISK_SECTOR_SIZE_def)
  show "file_ext2_block i b = Suc (e_block i ! b - 1)" "2 + Suc (e_block i ! b - 1) * 2 \<le> RAMDISK_SECTOR_COUNT" using assms by (simp_all add: file_ext2_block_def)
  fix j assume "j < blocksize ram_blk"
  then have j: "j < 1024" by (simp add: ram_blk_def)
  then have "(b * 1024 + j) div 1024 = b" "(b * 1024 + j) mod 1024 = j" by simp_all
  moreover have "1024 + (e_block i ! b - 1) * 1024 = e_block i ! b * 1024" using assms(2) by (cases "e_block i ! b") simp_all
  ultimately show "file_byte disk i (b * blocksize ram_blk + j) = disk (skip_bytes ram_blk + (e_block i ! b - 1) * blocksize ram_blk + j)"
    by (simp add: file_byte_def ram_blk_def)
qed


definition ram_ino :: ext2_inode where
  "ram_ino = \<lparr>e_mode = 0, e_uid = 0, e_size = 3000, e_atime = 0, e_ctime = 0, e_mtime = 0, e_gid = 0, e_nlinks = 1,
     e_block = [5, 6, 7, 8, 9, 10, 11, 12, 13, 14, 15, 16, 0, 0, 0]\<rparr>"


end
