(* ===== verification/Ports.thy ===== *)
theory Ports
  imports Prelude
begin

text \<open>
  Port input and output, \<^verbatim>\<open>inportb\<close> and \<^verbatim>\<open>outportb\<close> of \<^verbatim>\<open>src/drivers/drivers.c\<close>: the hardware is a parameter, given by how its state
  answers a read of a port and how it changes with reads and writes.
\<close>

record 'h ports =
  inb :: "nat \<Rightarrow> 'h \<Rightarrow> uchar \<times> 'h"
  outb :: "nat \<Rightarrow> uchar \<Rightarrow> 'h \<Rightarrow> 'h"

text \<open>Ports of 16 bits, \<^verbatim>\<open>inportw\<close> and \<^verbatim>\<open>outportw\<close>.\<close>

record 'h ports16 = "'h ports" +
  inw :: "nat \<Rightarrow> 'h \<Rightarrow> ushort \<times> 'h"
  outw :: "nat \<Rightarrow> ushort \<Rightarrow> 'h \<Rightarrow> 'h"

text \<open>A list of port outputs in order.\<close>

definition outbs :: "('h, 'z) ports_scheme \<Rightarrow> (nat \<times> uchar) list \<Rightarrow> 'h \<Rightarrow> 'h" where
  "outbs p xs h = foldl (\<lambda>h (port, v). outb p port v h) h xs"

end
