(* ===== verification/Serial.thy ===== *)
theory Serial
  imports Devfs Ports
begin

text \<open>
  The driver of the serial ports, \<^verbatim>\<open>src/drivers/serial.c\<close>. The hardware behind the ports is a parameter. A loop that polls a register may never end, which is \<open>None\<close>.
\<close>

section \<open>Registers\<close>

definition COM1 :: nat where "COM1 = 0x3F8"
definition COM2 :: nat where "COM2 = 0x2F8"
definition COM3 :: nat where "COM3 = 0x3E8"
definition COM4 :: nat where "COM4 = 0x2E8"
definition RBR :: nat where "RBR = 0"
definition THR :: nat where "THR = 0"
definition IER :: nat where "IER = 1"
definition FCR :: nat where "FCR = 2"
definition LCR :: nat where "LCR = 3"
definition MCR :: nat where "MCR = 4"
definition LSR :: nat where "LSR = 5"
definition MSR :: nat where "MSR = 6"
definition DL_LO :: nat where "DL_LO = 0"
definition DL_HI :: nat where "DL_HI = 1"
definition NO_INTERRUPTS :: uchar where "NO_INTERRUPTS = 0"
definition SET_DLAB :: uchar where "SET_DLAB = 0x80"
definition RX_TRIGGER :: uchar where "RX_TRIGGER = 0xC0"
definition XFres :: uchar where "XFres = 4"
definition RFres :: uchar where "RFres = 2"
definition FCR_enable :: uchar where "FCR_enable = 1"
definition OUT2 :: uchar where "OUT2 = 8"
definition RTS :: uchar where "RTS = 2"
definition DTR :: uchar where "DTR = 1"
definition MCR_LOOP :: uchar where "MCR_LOOP = 0x10"
definition LOOP_CLEAR :: uchar where "LOOP_CLEAR = 0"
definition THRE :: uchar where "THRE = 0x20"
definition RBF :: uchar where "RBF = 1"
definition WORD_8 :: uchar where "WORD_8 = 3"
definition baud_divisor :: nat where "baud_divisor = 1"

section \<open>Operations\<close>

definition detect_serial_port :: "'h ports \<Rightarrow> nat \<Rightarrow> 'h \<Rightarrow> bool \<times> 'h" where
  "detect_serial_port p port h =
    (let (v, h1) = inb p (port + MSR) (outb p (port + MCR) MCR_LOOP h) in
     if v AND 0xF0 \<noteq> 0 then (False, h1)
     else let (w, h2) = inb p (port + MSR) (outb p (port + MCR) (MCR_LOOP OR 0x0F) h1) in
       if w AND 0xF0 \<noteq> 0xF0 then (False, h2) else (True, h2))"

definition serial_open :: "'h ports \<Rightarrow> nat \<Rightarrow> 'h \<Rightarrow> int \<times> 'h" where
  "serial_open p port h = (0, outbs p
    [(port + IER, NO_INTERRUPTS), (port + LCR, SET_DLAB), (port + DL_LO, word_of_nat (baud_divisor mod 256)), (port + DL_HI, word_of_nat (baud_divisor div 256 mod 256)),
     (port + LCR, WORD_8), (port + MCR, LOOP_CLEAR), (port + FCR, RX_TRIGGER OR RFres OR XFres OR FCR_enable), (port + MCR, OUT2 OR RTS OR DTR)] h)"

partial_function (option) wait_thre :: "'h ports \<Rightarrow> nat \<Rightarrow> 'h \<Rightarrow> 'h option" where
  "wait_thre p port h =
    (if fst (inb p (port + LSR) h) AND THRE \<noteq> 0 then Some (snd (inb p (port + LSR) h)) else wait_thre p port (snd (inb p (port + LSR) h)))"

fun serial_send :: "'h ports \<Rightarrow> nat \<Rightarrow> uchar list \<Rightarrow> 'h \<Rightarrow> 'h option" where
  "serial_send p port [] h = Some h"
| "serial_send p port (c # cs) h = Option.bind (wait_thre p port h) (\<lambda>h1. serial_send p port cs (outb p (port + THR) c h1))"

definition serial_write :: "'h ports \<Rightarrow> nat \<Rightarrow> uchar list \<Rightarrow> 'h \<Rightarrow> (int \<times> 'h) option" where
  "serial_write p port buffer h = map_option (\<lambda>h1. (int (length buffer), h1)) (serial_send p port buffer h)"

text \<open>The condition is \<^verbatim>\<open>!inportb(port + LSR)&RBF\<close>: it waits only while the whole register is 0.\<close>

partial_function (option) wait_rbf :: "'h ports \<Rightarrow> nat \<Rightarrow> 'h \<Rightarrow> 'h option" where
  "wait_rbf p port h =
    (if (if fst (inb p (port + LSR) h) = 0 then 1 else 0) AND RBF = 0 then Some (snd (inb p (port + LSR) h)) else wait_rbf p port (snd (inb p (port + LSR) h)))"

fun serial_receive :: "'h ports \<Rightarrow> nat \<Rightarrow> nat \<Rightarrow> 'h \<Rightarrow> (uchar list \<times> 'h) option" where
  "serial_receive p port 0 h = Some ([], h)"
| "serial_receive p port (Suc n) h = do {
     h1 \<leftarrow> wait_rbf p port h;
     let (c, h2) = inb p (port + RBR) h1;
     (cs, h3) \<leftarrow> serial_receive p port n h2;
     Some (c # cs, h3)
   }"

definition serial_read :: "'h ports \<Rightarrow> nat \<Rightarrow> nat \<Rightarrow> 'h \<Rightarrow> ((int \<times> uchar list) \<times> 'h) option" where
  "serial_read p port sz h = map_option (\<lambda>(cs, h1). ((int sz, cs), h1)) (serial_receive p port sz h)"

definition serial_close :: "'h ports \<Rightarrow> nat \<Rightarrow> 'h \<Rightarrow> int \<times> 'h" where
  "serial_close p port h = (0, outbs p [(port + IER, NO_INTERRUPTS), (port + MCR, 0)] h)"

text \<open>The ports that are found are registered; the result lists the handles with their port.\<close>

fun register_serial :: "'h ports \<Rightarrow> nat \<Rightarrow> (string \<times> nat) list \<Rightarrow> 'h \<Rightarrow> devfs \<times> vfs \<Rightarrow> ((nat option \<times> nat) list \<times> 'h \<times> devfs \<times> vfs) option" where
  "register_serial p ops [] h s = Some ([], h, s)"
| "register_serial p ops ((name, port) # xs) h s =
    (let (found, h1) = detect_serial_port p port h in
     if found then do {
       (hd, s1) \<leftarrow> devfs_register_device None name 0x1B0 0 0 FS_CHARDEVICE ops s;
       (rs, h2, s2) \<leftarrow> register_serial p ops xs h1 s1;
       Some ((hd, port) # rs, h2, s2)
     }
     else register_serial p ops xs h1 s)"

definition setup_serial :: "'h ports \<Rightarrow> nat \<Rightarrow> 'h \<Rightarrow> devfs \<times> vfs \<Rightarrow> ((nat option \<times> nat) list \<times> 'h \<times> devfs \<times> vfs) option" where
  "setup_serial p ops h s = register_serial p ops [(''ttyS0'', COM1), (''ttyS1'', COM2), (''ttyS2'', COM3), (''ttyS3'', COM4)] h s"

section \<open>Sending\<close>

abbreviation poll :: "'h ports \<Rightarrow> nat \<Rightarrow> 'h \<Rightarrow> 'h" where
  "poll p port h \<equiv> snd (inb p (port + LSR) h)"

abbreviation ready :: "'h ports \<Rightarrow> nat \<Rightarrow> 'h \<Rightarrow> bool" where
  "ready p port h \<equiv> fst (inb p (port + LSR) h) AND THRE \<noteq> 0"

lemma wait_thre_ends:
  assumes "ready p port ((poll p port ^^ n) h)"
  shows "\<exists>k. wait_thre p port h = Some ((poll p port ^^ Suc k) h)"
  using assms
proof (induction n arbitrary: h)
  case 0
  then show ?case by (subst wait_thre.simps) (auto intro: exI[of _ 0])
next
  case (Suc n)
  show ?case
  proof (cases "ready p port h")
    case True
    then show ?thesis by (subst wait_thre.simps) (auto intro: exI[of _ 0])
  next
    case False
    obtain k where "wait_thre p port (poll p port h) = Some ((poll p port ^^ Suc k) (poll p port h))"
      using Suc.IH[of "poll p port h"] Suc.prems[unfolded funpow_Suc_right comp_apply] by blast
    then have "wait_thre p port h = Some ((poll p port ^^ Suc (Suc k)) h)"
      using False by (subst wait_thre.simps) (simp add: funpow_Suc_right[of "Suc k"] del: funpow.simps)
    then show ?thesis by blast
  qed
qed

lemma serial_send_ok:
  assumes "\<And>h. \<exists>n. ready p port ((poll p port ^^ n) h)" "\<And>h. sent (poll p port h) = sent h" "\<And>h c. sent (outb p (port + THR) c h) = sent h @ [c]"
  shows "\<exists>h'. serial_send p port cs h = Some h' \<and> sent h' = sent h @ cs"
proof (induction cs arbitrary: h)
  case (Cons c cs)
  obtain n where "ready p port ((poll p port ^^ n) h)" using assms(1)[of h] ..
  from wait_thre_ends[OF this] obtain k where w: "wait_thre p port h = Some ((poll p port ^^ Suc k) h)" ..
  have "sent ((poll p port ^^ j) h) = sent h" for j by (induction j) (simp_all add: assms(2))
  then have s: "sent (outb p (port + THR) c ((poll p port ^^ Suc k) h)) = sent h @ [c]" using assms(2,3) by simp
  obtain h' where h': "serial_send p port cs (outb p (port + THR) c ((poll p port ^^ Suc k) h)) = Some h'"
      "sent h' = sent (outb p (port + THR) c ((poll p port ^^ Suc k) h)) @ cs" using Cons.IH by blast
  have "serial_send p port (c # cs) h = Some h'" using w h'(1) by simp
  moreover have "sent h' = sent h @ c # cs" using h'(2) s by simp
  ultimately show ?case by blast
qed simp


text \<open>A transmitter that needs two polls for each byte.\<close>

definition demo_uart :: "(nat \<times> uchar list) ports" where
  "demo_uart = \<lparr>inb = (\<lambda>port (n, out). (if n = 0 then THRE else 0, (n - 1, out))), outb = (\<lambda>port c (n, out). (2, out @ [c]))\<rparr>"


section \<open>Receiving\<close>

text \<open>An idle line, whose status says that there is no data: a read takes the register at once.\<close>

lemma serial_read_without_data:
  assumes "inb p (port + LSR) h = (0x60, h1)" "inb p (port + RBR) h1 = (c, h2)"
  shows "serial_read p port 1 h = Some ((1, [c]), h2)"
proof -
  have "wait_rbf p port h = Some h1" using assms(1) by (subst wait_rbf.simps) simp
  then show ?thesis using assms(2) by (simp add: serial_read_def)
qed

end
