(* ===== verification/Floppy.thy ===== *)
theory Floppy
  imports Drivers Dts Memory Ports
begin

text \<open>
  The floppy driver: \<^verbatim>\<open>src/drivers/fdc/fdc_lib.c\<close> and the programming of the DMA controller in \<^verbatim>\<open>src/drivers/fdc/dma_lib.c\<close>. The
  hardware is a parameter: its ports and the track buffer it transfers to and from. \<open>None\<close> is a loop that does not end or a copy
  behind the caller's buffer; the delays are left out. The buffer of a read is not a null pointer, and the model gives the places
  and bytes stored in it. \<^verbatim>\<open>thepid\<close>, the process of the last wait, is an argument of the interrupt handler.
\<close>

record 'h fdc_hw = "'h ports" +
  tbuf :: "'h \<Rightarrow> memory"
  set_tbuf :: "memory \<Rightarrow> 'h \<Rightarrow> 'h"

definition DG144_HEADS :: nat where "DG144_HEADS = 2"
definition DG144_TRACKS :: nat where "DG144_TRACKS = 80"
definition DG144_SPT :: nat where "DG144_SPT = 18"
definition DG144_GAP3RW :: uchar where "DG144_GAP3RW = 0x1B"
definition FDC_DOR :: nat where "FDC_DOR = 0x3F2"
definition FDC_MSR :: nat where "FDC_MSR = 0x3F4"
definition FDC_DRS :: nat where "FDC_DRS = 0x3F4"
definition FDC_DATA :: nat where "FDC_DATA = 0x3F5"
definition FDC_DIR :: nat where "FDC_DIR = 0x3F7"
definition FDC_CCR :: nat where "FDC_CCR = 0x3F7"
definition CMD_SPECIFY :: uchar where "CMD_SPECIFY = 0x03"
definition CMD_WRITE :: uchar where "CMD_WRITE = 0xC5"
definition CMD_READ :: uchar where "CMD_READ = 0xE6"
definition CMD_RECAL :: uchar where "CMD_RECAL = 0x07"
definition CMD_SENSEI :: uchar where "CMD_SENSEI = 0x08"
definition CMD_SEEK :: uchar where "CMD_SEEK = 0x0F"
definition FLOPPY_SECTOR_SIZE :: nat where "FLOPPY_SECTOR_SIZE = 512"
definition FLOPPY_SECTOR_COUNT :: nat where "FLOPPY_SECTOR_COUNT = 2880"
definition tbaddr :: nat where "tbaddr = 0x80000"
definition IRQ6 :: uchar where "IRQ6 = 38"

record fdc =
  f_done :: bool
  f_dchange :: bool
  f_motor :: bool
  f_mtick :: int
  f_tmout :: int
  f_status :: "uchar list"
  f_statsz :: nat
  f_sr0 :: uchar
  f_track :: uchar

text \<open>The values the globals start with.\<close>

definition fdc_start :: fdc where
  "fdc_start = \<lparr>f_done = False, f_dchange = False, f_motor = False, f_mtick = 0, f_tmout = 0, f_status = replicate 7 0, f_statsz = 0,
     f_sr0 = 0, f_track = 0xFF\<rparr>"

section \<open>The DMA controller\<close>

definition MaskReg :: "nat list" where "MaskReg = [0x0A, 0x0A, 0x0A, 0x0A, 0xD4, 0xD4, 0xD4, 0xD4]"
definition ModeReg :: "nat list" where "ModeReg = [0x0B, 0x0B, 0x0B, 0x0B, 0xD6, 0xD6, 0xD6, 0xD6]"
definition ClearReg :: "nat list" where "ClearReg = [0x0C, 0x0C, 0x0C, 0x0C, 0xD8, 0xD8, 0xD8, 0xD8]"
definition PagePort :: "nat list" where "PagePort = [0x87, 0x83, 0x81, 0x82, 0x8F, 0x8B, 0x89, 0x8A]"
definition AddrPort :: "nat list" where "AddrPort = [0x00, 0x02, 0x04, 0x06, 0xC0, 0xC4, 0xC8, 0xCC]"
definition CountPort :: "nat list" where "CountPort = [0x01, 0x03, 0x05, 0x07, 0xC2, 0xC6, 0xCA, 0xCE]"

definition dma_outputs :: "nat \<Rightarrow> uchar \<Rightarrow> nat \<Rightarrow> nat \<Rightarrow> uchar \<Rightarrow> (nat \<times> uchar) list" where
  "dma_outputs ch apage offset len mode =
    [(MaskReg ! ch, 4 OR word_of_nat ch), (ClearReg ! ch, 0), (ModeReg ! ch, mode), (AddrPort ! ch, word_of_nat (offset mod 256)),
     (AddrPort ! ch, word_of_nat (offset div 256 mod 256)), (PagePort ! ch, apage), (CountPort ! ch, word_of_nat (len mod 256)),
     (CountPort ! ch, word_of_nat (len div 256 mod 256)), (MaskReg ! ch, word_of_nat ch)]"

definition dma_xfer :: "('h, 'z) ports_scheme \<Rightarrow> nat \<Rightarrow> nat \<Rightarrow> nat \<Rightarrow> bool \<Rightarrow> 'h \<Rightarrow> 'h" where
  "dma_xfer p ch address len read_req h =
     outbs p (dma_outputs ch (word_of_nat (address div 2 ^ 16)) (address mod 2 ^ 16) (sub32 len 1) ((if read_req then 0x48 else 0x44) + word_of_nat ch)) h"

section \<open>Commands\<close>

fun sendbyte_loop :: "('h, 'z) ports_scheme \<Rightarrow> uchar \<Rightarrow> nat \<Rightarrow> 'h \<Rightarrow> 'h" where
  "sendbyte_loop p byte 0 h = h"
| "sendbyte_loop p byte (Suc n) h =
    (let (msr, h1) = inb p FDC_MSR h in
     if msr AND 0xC0 = 0x80 then outb p FDC_DATA byte h1 else sendbyte_loop p byte n (snd (inb p 0x80 h1)))"

definition sendbyte :: "('h, 'z) ports_scheme \<Rightarrow> uchar \<Rightarrow> 'h \<Rightarrow> 'h" where
  "sendbyte p byte h = sendbyte_loop p byte 128 h"

definition sendbytes :: "('h, 'z) ports_scheme \<Rightarrow> uchar list \<Rightarrow> 'h \<Rightarrow> 'h" where
  "sendbytes p bs h = foldl (\<lambda>h b. sendbyte p b h) h bs"

text \<open>A time-out gives \<open>-1\<close>, which is stored as 255.\<close>

fun getbyte_loop :: "('h, 'z) ports_scheme \<Rightarrow> nat \<Rightarrow> 'h \<Rightarrow> uchar \<times> 'h" where
  "getbyte_loop p 0 h = (0xFF, h)"
| "getbyte_loop p (Suc n) h =
    (let (msr, h1) = inb p FDC_MSR h in
     if msr AND 0xD0 = 0xD0 then inb p FDC_DATA h1 else getbyte_loop p n (snd (inb p 0x80 h1)))"

definition getbyte :: "('h, 'z) ports_scheme \<Rightarrow> 'h \<Rightarrow> uchar \<times> 'h" where
  "getbyte p h = getbyte_loop p 128 h"

fun read_status :: "('h, 'z) ports_scheme \<Rightarrow> nat \<Rightarrow> fdc \<Rightarrow> 'h \<Rightarrow> fdc \<times> 'h" where
  "read_status p 0 f h = (f, h)"
| "read_status p (Suc n) f h =
    (let (msr, h1) = inb p FDC_MSR h in
     if msr AND 0x10 = 0 then (f, h1)
     else let (b, h2) = getbyte p h1 in
       read_status p n (f\<lparr>f_status := (f_status f)[f_statsz f := b], f_statsz := Suc (f_statsz f)\<rparr>) h2)"

text \<open>The time-out is not counted down anywhere, and no interrupt sets \<^verbatim>\<open>done\<close>.\<close>

definition waitfdc :: "('h, 'z) ports_scheme \<Rightarrow> bool \<Rightarrow> fdc \<times> 'h \<Rightarrow> (bool \<times> fdc \<times> 'h) option" where
  "waitfdc p sensei s = (case s of (f, h) \<Rightarrow>
     let f1 = f\<lparr>f_tmout := 1000\<rparr> in
     if \<not> f_done f1 \<and> f_tmout f1 \<noteq> 0 then None
     else
       let (f2, h2) = read_status p 7 (f1\<lparr>f_statsz := 0\<rparr>) h;
           (f3, h3) = (if sensei
             then (let h' = sendbyte p CMD_SENSEI h2; (a, ha) = getbyte p h'; (b, hb) = getbyte p ha in (f2\<lparr>f_sr0 := a, f_track := b\<rparr>, hb))
             else (f2, h2))
       in
       if f_tmout f3 = 0
       then (let (v, h4) = inb p FDC_DIR h3 in Some (False, if v AND 0x80 \<noteq> 0 then f3\<lparr>f_dchange := True\<rparr> else f3, h4))
       else Some (True, f3, h3))"

definition block2hts :: "nat \<Rightarrow> nat \<times> nat \<times> nat" where
  "block2hts block =
    (block mod (DG144_SPT * DG144_HEADS) div DG144_SPT, block div (DG144_SPT * DG144_HEADS), block mod DG144_SPT + 1)"

definition motoron :: "('h, 'z) ports_scheme \<Rightarrow> fdc \<times> 'h \<Rightarrow> fdc \<times> 'h" where
  "motoron p s = (case s of (f, h) \<Rightarrow>
     if f_motor f then (f, h) else (f\<lparr>f_mtick := - 1, f_motor := True\<rparr>, outb p FDC_DOR 0x1C h))"

definition motoroff :: "fdc \<times> 'h \<Rightarrow> fdc \<times> 'h" where
  "motoroff s = (case s of (f, h) \<Rightarrow> if f_motor f then (f\<lparr>f_mtick := 2000\<rparr>, h) else (f, h))"

definition recalibrate :: "('h, 'z) ports_scheme \<Rightarrow> fdc \<times> 'h \<Rightarrow> (fdc \<times> 'h) option" where
  "recalibrate p s = map_option snd (waitfdc p True (fst s, sendbytes p [CMD_RECAL, 0] (snd s)))"

definition flseek :: "('h, 'z) ports_scheme \<Rightarrow> nat \<Rightarrow> fdc \<times> 'h \<Rightarrow> (bool \<times> fdc \<times> 'h) option" where
  "flseek p track s =
    (if unat (f_track (fst s)) = track then Some (True, s)
     else do {
       let s1 = (if \<not> f_motor (fst s) then motoron p s else s);
       (r, f2, h2) \<leftarrow> waitfdc p True (fst s1, sendbytes p [CMD_SEEK, 0, word_of_nat track] (snd s1));
       Some (r \<and> \<not> (f_sr0 f2 \<noteq> 0x20 \<or> unat (f_track f2) \<noteq> track), f2, h2)
     })"

definition reset :: "('h, 'z) ports_scheme \<Rightarrow> fdc \<times> 'h \<Rightarrow> (fdc \<times> 'h) option" where
  "reset p s = (case s of (f, h) \<Rightarrow> do {
     let h1 = outb p FDC_DOR 0x0C (outb p FDC_DRS 0 (outb p FDC_DOR 0 h));
     let f1 = f\<lparr>f_mtick := 0, f_motor := False, f_done := True\<rparr>;
     (r, s2) \<leftarrow> flseek p 1 (f1, sendbytes p [CMD_SPECIFY, 0xDF, 0x02] h1);
     (f3, h3) \<leftarrow> recalibrate p s2;
     Some (f3\<lparr>f_dchange := False\<rparr>, h3)
   })"

section \<open>Transfers\<close>

text \<open>\<^verbatim>\<open>nosectors * FLOPPY_SECTOR_SIZE\<close>, an unsigned long.\<close>

definition xfer_bytes :: "nat \<Rightarrow> nat" where
  "xfer_bytes nosectors = nosectors * FLOPPY_SECTOR_SIZE mod 2 ^ 32"

text \<open>The start of a transfer: the motor is switched on, and data to be written goes to the track buffer.\<close>

definition rw_start :: "'h fdc_hw \<Rightarrow> uchar list option \<Rightarrow> fdc \<times> 'h \<Rightarrow> fdc \<times> 'h" where
  "rw_start p data s =
    (let (f, h) = motoron p s in
     (f, case data of None \<Rightarrow> h | Some bs \<Rightarrow> set_tbuf p (store_bytes (tbuf p h) tbaddr bs) h))"

text \<open>The command with its parameters.\<close>

definition rw_command :: "'h fdc_hw \<Rightarrow> nat \<Rightarrow> bool \<Rightarrow> nat \<Rightarrow> 'h \<Rightarrow> 'h" where
  "rw_command p block rd nosectors h =
    (let (head, track, sector) = block2hts block;
         h1 = dma_xfer p 2 tbaddr (xfer_bytes nosectors) (\<not> rd) (outb p FDC_CCR 0 h)
     in sendbytes p [if rd then CMD_READ else CMD_WRITE, word_of_nat (head * 4), word_of_nat track, word_of_nat head, word_of_nat sector, 2,
          word_of_nat DG144_SPT, DG144_GAP3RW, 0xFF] h1)"

text \<open>
  The tries, from number \<open>tries\<close> on; a changed disk or a time-out starts the transfer again. The result says whether a try
  succeeded.
\<close>

partial_function (option) rw_tries :: "'h fdc_hw \<Rightarrow> nat \<Rightarrow> bool \<Rightarrow> uchar list option \<Rightarrow> nat \<Rightarrow> nat \<Rightarrow> fdc \<times> 'h \<Rightarrow> ((bool \<times> bool) \<times> fdc \<times> 'h) option" where
  "rw_tries p block rd data nosectors tries s =
    (if tries \<ge> 3 then Some ((True, False), motoroff s)
     else
       let (v, h1) = inb p FDC_DIR (snd s); s1 = (fst s, h1) in
       if v AND 0x80 \<noteq> 0 then
         Option.bind (flseek p 1 ((fst s)\<lparr>f_dchange := True\<rparr>, h1)) (\<lambda>(r, s2).
         Option.bind (recalibrate p s2) (\<lambda>s3.
           rw_tries p block rd data nosectors 0 (rw_start p data (motoroff s3))))
       else
         Option.bind (flseek p (fst (snd (block2hts block))) s1) (\<lambda>(ok, s2).
           if \<not> ok then Some ((False, False), motoroff s2)
           else
             Option.bind (waitfdc p True (fst s2, rw_command p block rd nosectors (snd s2))) (\<lambda>(w, s3).
               if \<not> w then Option.bind (reset p s3) (\<lambda>s4. rw_tries p block rd data nosectors 0 (rw_start p data s4))
               else if f_status (fst s3) ! 0 AND 0xC0 = 0 then Some ((True, True), motoroff s3)
               else Option.bind (recalibrate p s3) (\<lambda>s4. rw_tries p block rd data nosectors (Suc tries) s4))))"

text \<open>
  A failed seek returns at once; otherwise a read copies the track buffer, also after the last try has failed. The bytes are those
  stored in the caller's buffer.
\<close>

definition fdc_rw :: "'h fdc_hw \<Rightarrow> nat \<Rightarrow> bool \<Rightarrow> uchar list option \<Rightarrow> nat \<Rightarrow> fdc \<times> 'h \<Rightarrow> ((bool \<times> uchar list) \<times> fdc \<times> 'h) option" where
  "fdc_rw p block rd data nosectors s = do {
     let d = (if rd then None else data);
     ((copied, ok), s1) \<leftarrow> rw_tries p block rd d nosectors 0 (rw_start p d s);
     Some ((ok, if copied \<and> rd then load_bytes (tbuf p (snd s1)) tbaddr (xfer_bytes nosectors) else []), s1)
   }"

text \<open>
  A read that ends on another track is done sector by sector; the bytes of sector \<open>i\<close> go to the place \<open>512 * i\<close> of the buffer. The
  sum of block and number is reduced to 32 bits and read as an int, and the division truncates.
\<close>

definition end_track :: "nat \<Rightarrow> nat \<Rightarrow> int" where
  "end_track block nosectors =
    (let e = (block + nosectors) mod 2 ^ 32 in
     if e < 2 ^ 31 then int (fst (snd (block2hts e))) else - int (fst (snd (block2hts (2 ^ 32 - e)))))"

fun read_sectors :: "'h fdc_hw \<Rightarrow> nat \<Rightarrow> nat \<Rightarrow> nat \<Rightarrow> bool \<times> (nat \<times> uchar list) list \<Rightarrow> fdc \<times> 'h \<Rightarrow>
    ((bool \<times> (nat \<times> uchar list) list) \<times> fdc \<times> 'h) option" where
  "read_sectors p block loop 0 acc s = Some (acc, s)"
| "read_sectors p block loop (Suc n) acc s = do {
     ((r, bs), s1) \<leftarrow> fdc_rw p (block + loop) True None 1 s;
     read_sectors p block (Suc loop) n (r, snd acc @ [(loop * 512, bs)]) s1
   }"

definition fdc_read_block :: "'h fdc_hw \<Rightarrow> nat \<Rightarrow> nat \<Rightarrow> fdc \<times> 'h \<Rightarrow> ((bool \<times> (nat \<times> uchar list) list) \<times> fdc \<times> 'h) option" where
  "fdc_read_block p block nosectors s =
    (if int (fst (snd (block2hts block))) \<noteq> end_track block nosectors then read_sectors p block 0 nosectors (False, []) s
     else map_option (\<lambda>((r, bs), s1). ((r, [(0, bs)]), s1)) (fdc_rw p block True None nosectors s))"

text \<open>
  The request of the device. \<open>l\<close> is the queue of the device and the kernel when \<^verbatim>\<open>device_lock\<close> returns; the result of the
  transfer is not used.
\<close>

definition floppy_request :: "'h fdc_hw \<Rightarrow> int \<Rightarrow> uint \<Rightarrow> uint \<Rightarrow> uchar list \<Rightarrow> int list \<times> 'd kernel \<Rightarrow> fdc \<times> 'h \<Rightarrow>
    ((int \<times> (nat \<times> uchar list) list) \<times> (int list \<times> 'd kernel) \<times> fdc \<times> 'h) option" where
  "floppy_request p cmd sector cnt0 buffer l s =
    (if unat sector \<ge> FLOPPY_SECTOR_COUNT then Some ((err EINVAL, []), l, s)
     else do {
       let cnt = (if sector + cnt0 \<ge> word_of_nat FLOPPY_SECTOR_COUNT then word_of_nat FLOPPY_SECTOR_COUNT - sector else cnt0);
       (st, s1) \<leftarrow>
         (if cmd = REQUEST_READ then map_option (\<lambda>((r, st), s1). (st, s1)) (fdc_read_block p (unat sector) (unat cnt) s)
          else if cmd = REQUEST_WRITE then
            (if length buffer < xfer_bytes (unat cnt) then None
             else map_option (\<lambda>(r, s1). ([], s1)) (fdc_rw p (unat sector) False (Some (take (xfer_bytes (unat cnt)) buffer)) (unat cnt) s))
          else Some ([], s));
       l1 \<leftarrow> device_unlock (fst l) (snd l);
       Some ((sint cnt, st), l1, s1)
     })"

definition FloppyIRQ :: "('h, 'z) ports_scheme \<Rightarrow> int \<Rightarrow> 'd kernel \<times> 'h \<Rightarrow> 'd kernel \<times> 'h" where
  "FloppyIRQ p thepid s = (snd (sys_kill thepid SIGCONT (fst s)), outb p 0x20 0x20 (snd s))"

text \<open>The block count and block size of the handle are part of the result.\<close>

definition setup_floppy :: "'h fdc_hw \<Rightarrow> nat \<Rightarrow> int \<Rightarrow> ('d kernel \<times> 'h) handlers \<Rightarrow> fdc \<times> 'h \<Rightarrow> devfs \<times> vfs \<Rightarrow>
    ((nat \<times> nat \<times> nat) option \<times> ('d kernel \<times> 'h) handlers \<times> (fdc \<times> 'h) \<times> devfs \<times> vfs) option" where
  "setup_floppy p ops thepid hs s d =
    (let (v, h1) = inb p 0x71 (outb p 0x70 0x10 (snd s)) in
     if v = 0 then Some (None, hs, (fst s, h1), d)
     else do {
       let hs1 = register_interrupt_handler IRQ6 (\<lambda>(regs, ks). (regs, FloppyIRQ p thepid ks)) hs;
       s2 \<leftarrow> reset p (fst s, h1);
       (hd, d1) \<leftarrow> devfs_register_device None ''fd0'' 0x1B0 0 0 FS_BLOCKDEVICE ops d;
       q \<leftarrow> hd;
       Some (Some (q, FLOPPY_SECTOR_COUNT, FLOPPY_SECTOR_SIZE), hs1, s2, d1)
     })"

section \<open>Sectors on the disk\<close>

text \<open>
  Head, track and sector of a block of the disk are in the range of the drive's geometry, and the block is recovered from them.
\<close>

lemma block2hts_roundtrip:
  assumes "block < FLOPPY_SECTOR_COUNT" "block2hts block = (head, track, sector)"
  shows "head < DG144_HEADS \<and> track < DG144_TRACKS \<and> 1 \<le> sector \<and> sector \<le> DG144_SPT \<and> (track * DG144_HEADS + head) * DG144_SPT + (sector - 1) = block"
proof -
  have e: "head = block mod 36 div 18" "track = block div 36" "sector = block mod 18 + 1" and b: "block < 2880"
    using assms by (simp_all add: block2hts_def DG144_SPT_def DG144_HEADS_def FLOPPY_SECTOR_COUNT_def)
  have m: "block mod 36 mod 18 = block mod 18" by (rule mod_mod_cancel) simp
  have "block mod 36 div 18 * 18 + block mod 18 = block mod 36" using div_mult_mod_eq[of "block mod 36" 18] unfolding m .
  moreover have "(block div 36 * 2 + block mod 36 div 18) * 18 = block div 36 * 36 + block mod 36 div 18 * 18" by (simp add: algebra_simps)
  ultimately have "(block div 36 * 2 + block mod 36 div 18) * 18 + block mod 18 = block" using div_mult_mod_eq[of block 36] by linarith
  moreover have "block mod 36 div 18 < 2" "block div 36 < 80" "block mod 18 < 18" using b by (simp_all add: less_mult_imp_div_less)
  ultimately show ?thesis unfolding e by (simp add: DG144_SPT_def DG144_HEADS_def DG144_TRACKS_def)
qed

lemma block2hts_roundtrip_witness: "block2hts 2879 = (1, 79, 18) \<and> (79 * DG144_HEADS + 1) * DG144_SPT + (18 - 1) = 2879"
proof -
  have "block2hts 2879 = (1, 79, 18)" by (simp add: block2hts_def DG144_SPT_def DG144_HEADS_def)
  then show ?thesis using block2hts_roundtrip[of 2879 1 79 18] by (simp add: FLOPPY_SECTOR_COUNT_def)
qed

section \<open>Reads stay on a track\<close>

abbreviation track_of :: "nat \<Rightarrow> nat" where
  "track_of b \<equiv> fst (snd (block2hts b))"

text \<open>The transfers of a read, each a first block and a number of sectors.\<close>

definition read_plan :: "nat \<Rightarrow> nat \<Rightarrow> (nat \<times> nat) list" where
  "read_plan block n = (if track_of block \<noteq> track_of (block + n) then map (\<lambda>i. (block + i, 1)) [0..<n] else [(block, n)])"

fun run_transfers :: "'h fdc_hw \<Rightarrow> nat \<Rightarrow> (nat \<times> nat) list \<Rightarrow> bool \<times> (nat \<times> uchar list) list \<Rightarrow> fdc \<times> 'h \<Rightarrow>
    ((bool \<times> (nat \<times> uchar list) list) \<times> fdc \<times> 'h) option" where
  "run_transfers p block [] acc s = Some (acc, s)"
| "run_transfers p block ((b, k) # ts) acc s = do {
     ((r, bs), s1) \<leftarrow> fdc_rw p b True None k s;
     run_transfers p block ts (r, snd acc @ [((b - block) * 512, bs)]) s1
   }"

lemma read_sectors_plan: "read_sectors p block j n acc s = run_transfers p block (map (\<lambda>i. (block + i, 1)) [j..<j + n]) acc s"
proof (induction n arbitrary: j acc s)
  case (Suc n)
  have "map (\<lambda>i. (block + i, 1 :: nat)) [j..<j + Suc n] = (block + j, 1) # map (\<lambda>i. (block + i, 1)) [Suc j..<Suc j + n]"
    by (simp add: upt_conv_Cons del: upt_Suc)
  then show ?case using Suc.IH[of "Suc j"] by (cases "fdc_rw p (block + j) True None 1 s") (auto simp del: upt_Suc split: prod.splits)
qed simp

lemma concat_singles: "concat (map (\<lambda>(b, k). [b..<b + k]) (map (\<lambda>i. (block + i, 1)) [0..<n])) = [block..<block + n]"
  by (induction n) simp_all

lemma track_between: "track_of block = track_of (block + n) \<Longrightarrow> i \<le> n \<Longrightarrow> track_of (block + i) = track_of block"
proof -
  assume t: "track_of block = track_of (block + n)" and i: "i \<le> n"
  have "track_of block \<le> track_of (block + i)" "track_of (block + i) \<le> track_of (block + n)"
    using i by (simp_all add: block2hts_def div_le_mono)
  then show ?thesis using t by simp
qed

lemma end_track_small: "block + n < 2 ^ 31 \<Longrightarrow> end_track block n = int (track_of (block + n))"
  by (simp add: end_track_def)

text \<open>
  C26: a read of the disk is carried out as a sequence of transfers that cover exactly the blocks asked for, in their order, and none of
  which leaves its track; the bytes of each block go to its place in the buffer.
\<close>

theorem fdc_read_block_transfers:
  assumes "block + n < 2 ^ 31"
  shows "fdc_read_block p block n s = run_transfers p block (read_plan block n) (False, []) s \<and>
   concat (map (\<lambda>(b, k). [b..<b + k]) (read_plan block n)) = [block..<block + n] \<and>
   (\<forall>(b, k) \<in> set (read_plan block n). \<forall>i < k. track_of (b + i) = track_of b)"
proof (cases "track_of block = track_of (block + n)")
  case True
  have "run_transfers p block [(block, n)] (False, []) s = map_option (\<lambda>((r, bs), s1). ((r, [(0, bs)]), s1)) (fdc_rw p block True None n s)"
    by (cases "fdc_rw p block True None n s") (auto split: prod.splits)
  then show ?thesis using True track_between[OF True] end_track_small[OF assms] by (simp add: fdc_read_block_def read_plan_def)
next
  case False
  then show ?thesis using concat_singles[of block n] end_track_small[OF assms]
    by (auto simp: fdc_read_block_def read_plan_def read_sectors_plan)
qed

text \<open>A read from block 34 on that reaches the next track is done sector by sector.\<close>

definition idle_hw :: "unit fdc_hw" where
  "idle_hw = \<lparr>inb = (\<lambda>_ h. (0, h)), outb = (\<lambda>_ _ h. h), tbuf = (\<lambda>_ _. 0), set_tbuf = (\<lambda>_ h. h)\<rparr>"

theorem fdc_read_block_transfers_witness:
  "fdc_read_block idle_hw 34 3 (fdc_start, ()) = run_transfers idle_hw 34 [(34, 1), (35, 1), (36, 1)] (False, []) (fdc_start, ()) \<and> [34, 35, 36] = [34..<34 + 3 :: nat]"
proof -
  have "read_plan 34 3 = [(34, 1), (35, 1), (36, 1)]"
    by (simp add: read_plan_def block2hts_def DG144_SPT_def DG144_HEADS_def numeral_3_eq_3)
  then show ?thesis using fdc_read_block_transfers[of 34 3 idle_hw "(fdc_start, ())"] by simp
qed

text \<open>A write is not divided: a request for several sectors is one transfer, also when it reaches the next track.\<close>

lemma floppy_write_undivided:
  assumes "unat sector < FLOPPY_SECTOR_COUNT" "\<not> sector + cnt \<ge> word_of_nat FLOPPY_SECTOR_COUNT" "xfer_bytes (unat cnt) \<le> length buffer"
    and "fdc_rw p (unat sector) False (Some (take (xfer_bytes (unat cnt)) buffer)) (unat cnt) s = Some (r, s1)" "device_unlock q k = Some l1"
  shows "floppy_request p REQUEST_WRITE sector cnt buffer (q, k) s = Some ((sint cnt, []), l1, s1)"
  using assms by (simp add: floppy_request_def Let_def REQUEST_READ_def REQUEST_WRITE_def)

section \<open>Whatever the controller answers\<close>

text \<open>At most the seven bytes of the status array are written, and nothing clears \<^verbatim>\<open>done\<close>: the driver never waits for the interrupt.\<close>

definition fdc_inv :: "fdc \<Rightarrow> bool" where
  "fdc_inv f \<longleftrightarrow> length (f_status f) = 7 \<and> f_statsz f \<le> 7 \<and> f_done f"

lemma read_status_inv:
  "read_status p n f h = (f', h') \<Longrightarrow> length (f_status f) = 7 \<Longrightarrow> f_statsz f + n \<le> 7 \<Longrightarrow>
   length (f_status f') = 7 \<and> f_statsz f' \<le> 7 \<and> f_done f' = f_done f \<and> f_tmout f' = f_tmout f \<and> f_motor f' = f_motor f"
  by (induction p n f h rule: read_status.induct) (auto split: prod.splits if_splits simp: Let_def)

lemma waitfdc_ok:
  assumes "fdc_inv (fst s)"
  shows "\<exists>f' h'. waitfdc p sensei s = Some (True, f', h') \<and> fdc_inv f' \<and> f_motor f' = f_motor (fst s)"
proof -
  obtain f h where s: "s = (f, h)" by (cases s)
  obtain f2 h2 where r: "read_status p 7 (f\<lparr>f_tmout := 1000, f_statsz := 0\<rparr>) h = (f2, h2)" by (cases "read_status p 7 (f\<lparr>f_tmout := 1000, f_statsz := 0\<rparr>) h")
  have i: "length (f_status f2) = 7 \<and> f_statsz f2 \<le> 7 \<and> f_done f2 \<and> f_tmout f2 = 1000 \<and> f_motor f2 = f_motor f"
    using read_status_inv[OF r] assms s by (simp add: fdc_inv_def)
  show ?thesis using assms s r i by (auto simp: waitfdc_def fdc_inv_def Let_def split: prod.splits)
qed

lemma motoron_inv: "fdc_inv (fst s) \<Longrightarrow> fdc_inv (fst (motoron p s))"
  by (cases s) (simp add: motoron_def fdc_inv_def)

lemma motoroff_inv: "fdc_inv (fst s) \<Longrightarrow> fdc_inv (fst (motoroff s))"
  by (cases s) (simp add: motoroff_def fdc_inv_def)

lemma recalibrate_ok: "fdc_inv (fst s) \<Longrightarrow> \<exists>s'. recalibrate p s = Some s' \<and> fdc_inv (fst s')"
  using waitfdc_ok[of "(fst s, sendbytes p [CMD_RECAL, 0] (snd s))" p True] by (auto simp: recalibrate_def)

lemma flseek_ok:
  assumes "fdc_inv (fst s)" shows "\<exists>r s'. flseek p track s = Some (r, s') \<and> fdc_inv (fst s')"
proof (cases "unat (f_track (fst s)) = track")
  case True
  then have "flseek p track s = Some (True, s)" by (simp add: flseek_def)
  then show ?thesis using assms by blast
next
  case False
  let ?s = "if \<not> f_motor (fst s) then motoron p s else s"
  have "fdc_inv (fst ?s)" using assms motoron_inv[of s p] by simp
  then obtain f' h' where "waitfdc p True (fst ?s, sendbytes p [CMD_SEEK, 0, word_of_nat track] (snd ?s)) = Some (True, f', h')" "fdc_inv f'"
    using waitfdc_ok[of "(fst ?s, sendbytes p [CMD_SEEK, 0, word_of_nat track] (snd ?s))" p True] by auto
  then show ?thesis using False by (simp add: flseek_def Let_def)
qed

lemma reset_ok:
  assumes "length (f_status (fst s)) = 7" "f_statsz (fst s) \<le> 7" shows "\<exists>s'. reset p s = Some s' \<and> fdc_inv (fst s')"
proof -
  obtain f h where s: "s = (f, h)" by (cases s)
  let ?f = "f\<lparr>f_mtick := 0, f_motor := False, f_done := True\<rparr>"
  let ?h = "sendbytes p [CMD_SPECIFY, 0xDF, 0x02] (outb p FDC_DOR 0x0C (outb p FDC_DRS 0 (outb p FDC_DOR 0 h)))"
  have "fdc_inv (fst (?f, ?h))" using assms s by (simp add: fdc_inv_def)
  from flseek_ok[OF this] obtain r s2 where k: "flseek p 1 (?f, ?h) = Some (r, s2)" "fdc_inv (fst s2)" by blast
  from recalibrate_ok[OF k(2)] obtain f3 h3 where "recalibrate p s2 = Some (f3, h3)" "fdc_inv f3" by (metis fst_conv surj_pair)
  then show ?thesis using k(1) s by (simp add: reset_def fdc_inv_def)
qed

lemma rw_start_inv: "fdc_inv (fst s) \<Longrightarrow> fdc_inv (fst (rw_start p d s))"
  using motoron_inv[of s p] by (auto simp: rw_start_def split: prod.splits)

lemma rw_tries_ok:
  assumes "\<And>h. fst (inb p FDC_DIR h) AND 0x80 = 0" "fdc_inv (fst s)"
  shows "\<exists>r s'. rw_tries p block rd d n tries s = Some (r, s') \<and> fdc_inv (fst s')"
  using assms(2)
proof (induction "3 - tries" arbitrary: tries s)
  case 0
  then show ?case using motoroff_inv[of s] by (subst rw_tries.simps) auto
next
  case (Suc k)
  obtain v h1 where v: "inb p FDC_DIR (snd s) = (v, h1)" by (cases "inb p FDC_DIR (snd s)")
  have v0: "v AND 0x80 = 0" using assms(1)[of "snd s"] v by simp
  obtain ok s2 where sk: "flseek p (track_of block) (fst s, h1) = Some (ok, s2)" "fdc_inv (fst s2)"
    using flseek_ok[of "(fst s, h1)" p "track_of block"] Suc.prems by auto
  obtain f3 h3 where w: "waitfdc p True (fst s2, rw_command p block rd n (snd s2)) = Some (True, f3, h3)" "fdc_inv f3"
    using waitfdc_ok[of "(fst s2, rw_command p block rd n (snd s2))" p True] sk(2) by auto
  obtain s4 where rc: "recalibrate p (f3, h3) = Some s4" "fdc_inv (fst s4)" using recalibrate_ok[of "(f3, h3)" p] w(2) by auto
  have "k = 3 - Suc tries" using Suc.hyps(2) by linarith
  from Suc.hyps(1)[OF this rc(2)] obtain r s5 where IH: "rw_tries p block rd d n (Suc tries) s4 = Some (r, s5)" "fdc_inv (fst s5)" by blast
  have "\<not> tries \<ge> 3" using Suc.hyps(2) by simp
  then have step: "rw_tries p block rd d n tries s =
      (if \<not> ok then Some ((False, False), motoroff s2)
       else if f_status f3 ! 0 AND 0xC0 = 0 then Some ((True, True), motoroff (f3, h3)) else Some (r, s5))"
    using v v0 sk(1) w(1) rc(1) IH(1) by (subst rw_tries.simps) (simp add: Let_def)
  have m: "fdc_inv (fst (motoroff s2))" "fdc_inv (fst (motoroff (f3, h3)))"
    using motoroff_inv[of s2] motoroff_inv[of "(f3, h3)"] sk(2) w(2) by simp_all
  show ?case unfolding step using m IH(2) by (auto simp del: split_paired_Ex split_paired_All)
qed

text \<open>
  C27: once the controller has been reset, a transfer returns whatever the controller answers, as long as it does not report a
  changed disk; the status array is never overrun.
\<close>

theorem fdc_rw_returns:
  assumes "\<And>h. fst (inb p FDC_DIR h) AND 0x80 = 0" "fdc_inv (fst s)"
  shows "\<exists>r s'. fdc_rw p block rd data n s = Some (r, s') \<and> fdc_inv (fst s')"
proof -
  let ?d = "if rd then None else data"
  obtain c s1 where "rw_tries p block rd ?d n 0 (rw_start p ?d s) = Some (c, s1)" "fdc_inv (fst s1)"
    using rw_tries_ok[OF assms(1) rw_start_inv[OF assms(2)]] by blast
  then show ?thesis by (cases c) (simp add: fdc_rw_def)
qed

theorem fdc_rw_returns_witness:
  "\<exists>r s'. fdc_rw idle_hw 0 True None 1 (fdc_start\<lparr>f_done := True\<rparr>, ()) = Some (r, s')"
  (is "\<exists>r s'. fdc_rw _ _ _ _ _ ?s = _")
proof -
  have "\<And>h. fst (inb idle_hw FDC_DIR h) AND 0x80 = 0" by (simp add: idle_hw_def)
  moreover have "fdc_inv (fst ?s)" by (simp add: fdc_inv_def fdc_start_def)
  ultimately show ?thesis using fdc_rw_returns[of idle_hw ?s 0 True None 1] by blast
qed

text \<open>A controller that keeps reporting a changed disk, as an empty drive does: the transfer starts again and again.\<close>

lemma fdc_rw_no_disk:
  assumes "\<And>h. fst (inb p FDC_DIR h) AND 0x80 \<noteq> 0"
  shows "rw_tries p block rd d n 0 s = None"
proof -
  define P where "P q b r' d' m t s r \<longleftrightarrow> \<not> (t < 3 \<and> q = p)"
    for q :: "'a fdc_hw" and b :: nat and r' :: bool and d' :: "uchar list option" and m t :: nat and s :: "fdc \<times> 'a" and r :: "(bool \<times> bool) \<times> fdc \<times> 'a"
  have "P p block rd d n t s r" if "rw_tries p block rd d n t s = Some r" for t s r
  proof (rule rw_tries.raw_induct[where P = P, OF _ that])
    fix f :: "'a fdc_hw \<Rightarrow> nat \<Rightarrow> bool \<Rightarrow> uchar list option \<Rightarrow> nat \<Rightarrow> nat \<Rightarrow> fdc \<times> 'a \<Rightarrow> ((bool \<times> bool) \<times> fdc \<times> 'a) option"
      and q b r' d' m t s r
    assume IH: "\<And>q b r' d' m t s r. f q b r' d' m t s = Some r \<Longrightarrow> P q b r' d' m t s r"
      and body: "(if t \<ge> 3 then Some ((True, False), motoroff s)
     else
       let (v, h1) = inb q FDC_DIR (snd s); s1 = (fst s, h1) in
       if v AND 0x80 \<noteq> 0 then
         Option.bind (flseek q 1 ((fst s)\<lparr>f_dchange := True\<rparr>, h1)) (\<lambda>(r, s2).
         Option.bind (recalibrate q s2) (\<lambda>s3.
           f q b r' d' m 0 (rw_start q d' (motoroff s3))))
       else
         Option.bind (flseek q (fst (snd (block2hts b))) s1) (\<lambda>(ok, s2).
           if \<not> ok then Some ((False, False), motoroff s2)
           else
             Option.bind (waitfdc q True (fst s2, rw_command q b r' m (snd s2))) (\<lambda>(w, s3).
               if \<not> w then Option.bind (reset q s3) (\<lambda>s4. f q b r' d' m 0 (rw_start q d' s4))
               else if f_status (fst s3) ! 0 AND 0xC0 = 0 then Some ((True, True), motoroff s3)
               else Option.bind (recalibrate q s3) (\<lambda>s4. f q b r' d' m (Suc t) s4)))) = Some r"
    show "P q b r' d' m t s r"
    proof (cases "t < 3 \<and> q = p")
      case True
      obtain v h1 where v: "inb p FDC_DIR (snd s) = (v, h1)" by (cases "inb p FDC_DIR (snd s)")
      then have "v AND 0x80 \<noteq> 0" using assms[of "snd s"] by simp
      then obtain s3 where "f p b r' d' m 0 (rw_start p d' (motoroff s3)) = Some r" using body True v by (auto simp: bind_eq_Some_conv)
      from IH[OF this] show ?thesis by (simp add: P_def)
    qed (simp add: P_def)
  qed
  from this[of 0 s] show ?thesis by (cases "rw_tries p block rd d n 0 s") (simp_all add: P_def)
qed

end
