(* ===== verification/Acpi.thy ===== *)
theory Acpi
  imports Memory Ports
begin

text \<open>
  The power-off through ACPI, \<^verbatim>\<open>src/drivers/acpi.c\<close>: the tables of the firmware are found in physical memory and the values for the
  sleep state S5 are taken from them. It runs before paging is enabled, so memory is a function of physical addresses. \<open>None\<close> is
  a scan that does not end; the hardware behind the ports is a parameter, and delays are left out.
\<close>

definition TIME_TO_WAIT :: nat where "TIME_TO_WAIT = 300"

record acpi =
  SMI_CMD :: nat
  ACPI_ENABLE :: uchar
  ACPI_DISABLE :: uchar
  PM1a_CNT :: nat
  PM1b_CNT :: nat
  SLP_TYPa :: ushort
  SLP_TYPb :: ushort
  SLP_EN :: ushort
  SCI_EN :: ushort
  PM1_CNT_LEN :: uchar

text \<open>The globals before the set-up.\<close>

definition acpi_start :: acpi where
  "acpi_start = \<lparr>SMI_CMD = 0, ACPI_ENABLE = 0, ACPI_DISABLE = 0, PM1a_CNT = 0, PM1b_CNT = 0, SLP_TYPa = 0, SLP_TYPb = 0, SLP_EN = 0, SCI_EN = 0,
     PM1_CNT_LEN = 0\<rparr>"

section \<open>Tables\<close>

text \<open>\<^verbatim>\<open>memcmp\<close> is 0 exactly on equal bytes (lemma \<open>memcmp_zero_iff\<close> of theory \<open>CString\<close>).\<close>

definition sig_at :: "memory \<Rightarrow> nat \<Rightarrow> string \<Rightarrow> bool" where
  "sig_at m a sig \<longleftrightarrow> load_bytes m a (length sig) = bytes_of sig"

definition check_sum :: "memory \<Rightarrow> nat \<Rightarrow> nat \<Rightarrow> uchar" where
  "check_sum m a n = foldl (+) 0 (load_bytes m a n)"

text \<open>A null pointer is 0.\<close>

definition acpiCheckRSDPtr :: "memory \<Rightarrow> nat \<Rightarrow> nat" where
  "acpiCheckRSDPtr m ptr =
    (if \<not> sig_at m ptr ''RSD PTR '' then 0 else if check_sum m ptr 20 = 0 then load32 m (ptr + 16) else 0)"

fun rsdp_search :: "memory \<Rightarrow> nat \<Rightarrow> nat \<Rightarrow> nat" where
  "rsdp_search m addr 0 = 0"
| "rsdp_search m addr (Suc n) = (let r = acpiCheckRSDPtr m addr in if r \<noteq> 0 then r else rsdp_search m (addr + 16) n)"

definition acpiGetRSDPtr :: "memory \<Rightarrow> nat" where
  "acpiGetRSDPtr m =
    (let r = rsdp_search m 0xE0000 ((0x100000 - 0xE0000) div 16) in
     if r \<noteq> 0 then r else rsdp_search m (load16 m 0x40E * 16 mod 2 ^ 20) (1024 div 16))"

definition acpiCheckHeader :: "memory \<Rightarrow> nat \<Rightarrow> string \<Rightarrow> int" where
  "acpiCheckHeader m ptr sig = (if sig_at m ptr sig \<and> check_sum m ptr (load32 m (ptr + 4)) = 0 then 0 else - 1)"

text \<open>The search for the name \<^verbatim>\<open>_S5_\<close>: where it is and the value of \<^verbatim>\<open>dsdtLength\<close> then.\<close>

fun s5_search :: "memory \<Rightarrow> nat \<Rightarrow> nat \<Rightarrow> (nat \<times> nat) option" where
  "s5_search m a 0 = None"
| "s5_search m a (Suc n) = (if sig_at m a ''_S5_'' then Some (a, n) else s5_search m (a + 1) n)"

definition dsdt_s5 :: "memory \<Rightarrow> nat \<Rightarrow> nat option" where
  "dsdt_s5 m dsdt =
    (if acpiCheckHeader m dsdt ''DSDT'' \<noteq> 0 then None
     else case s5_search m (dsdt + 36) (sub32 (load32 m (dsdt + 4)) 36) of
       None \<Rightarrow> None
     | Some (a, n) \<Rightarrow>
         if 0 < n \<and> n < 2 ^ 31 \<and> (m (a - 1) = 0x08 \<or> m (a - 2) = 0x08 \<and> m (a - 1) = 0x5C) \<and> m (a + 4) = 0x12 then Some a else None)"

definition skip_prefix :: "memory \<Rightarrow> nat \<Rightarrow> nat" where
  "skip_prefix m a = (if m a = 0x0A then a + 1 else a)"

definition s5_types :: "memory \<Rightarrow> nat \<Rightarrow> ushort \<times> ushort" where
  "s5_types m s5 =
    (let a = s5 + 5;
         b = skip_prefix m (a + (unat (drop_bit 6 (m a AND 0xC0)) + 2));
         c = skip_prefix m (b + 1)
     in (push_bit 10 (ucast (m b)), push_bit 10 (ucast (m c))))"

text \<open>
  The entries of the table from \<open>ptr\<close> on. \<^verbatim>\<open>entrys\<close> is tested before it is decremented; at a FACP it is set to \<open>-2\<close>, from where the
  loop counts on.
\<close>

partial_function (option) acpi_scan :: "memory \<Rightarrow> nat \<Rightarrow> uint \<Rightarrow> (nat \<times> nat) option option" where
  "acpi_scan m ptr entrys =
    (if entrys = 0 then Some None
     else if acpiCheckHeader m (load32 m ptr) ''FACP'' = 0 then
       (case dsdt_s5 m (load32 m (load32 m ptr + 40)) of
          Some s5 \<Rightarrow> Some (Some (load32 m ptr, s5))
        | None \<Rightarrow> acpi_scan m (add32 ptr 4) (- 2))
     else acpi_scan m (add32 ptr 4) (entrys - 1))"

definition acpi_entries :: "nat \<Rightarrow> uint" where
  "acpi_entries len = (let d = sint (word_of_nat len - 36 :: uint) in word_of_int (if d < 0 then - (- d div 4) else d div 4))"

definition take_facp :: "memory \<Rightarrow> nat \<Rightarrow> nat \<Rightarrow> acpi" where
  "take_facp m facp s5 =
    \<lparr>SMI_CMD = load32 m (facp + 48), ACPI_ENABLE = m (facp + 52), ACPI_DISABLE = m (facp + 53), PM1a_CNT = load32 m (facp + 64),
     PM1b_CNT = load32 m (facp + 68), SLP_TYPa = fst (s5_types m s5), SLP_TYPb = snd (s5_types m s5), SLP_EN = push_bit 13 1, SCI_EN = 1,
     PM1_CNT_LEN = m (facp + 89)\<rparr>"

definition setup_ACPI :: "memory \<Rightarrow> acpi \<Rightarrow> (int \<times> acpi) option" where
  "setup_ACPI m s =
    (let ptr = acpiGetRSDPtr m in
     if ptr = 0 \<or> acpiCheckHeader m ptr ''RSDT'' \<noteq> 0 then Some (- 1, s)
     else map_option (\<lambda>r. case r of None \<Rightarrow> (- 1, s) | Some (facp, s5) \<Rightarrow> (0, take_facp m facp s5))
            (acpi_scan m (ptr + 36) (acpi_entries (load32 m (ptr + 4)))))"

section \<open>Power-off\<close>

text \<open>The polls from round \<open>TIME_TO_WAIT - n\<close> on; the result is the number of rounds left.\<close>

fun wait_sci :: "('h, 'z) ports16_scheme \<Rightarrow> nat \<Rightarrow> ushort \<Rightarrow> nat \<Rightarrow> 'h \<Rightarrow> nat \<times> 'h" where
  "wait_sci p port sci 0 h = (0, h)"
| "wait_sci p port sci (Suc n) h = (let (v, h1) = inw p port h in if v AND sci = 1 then (Suc n, h1) else wait_sci p port sci n h1)"

abbreviation io_port :: "nat \<Rightarrow> nat" where
  "io_port a \<equiv> a mod 2 ^ 16"

definition acpiEnable :: "('h, 'z) ports16_scheme \<Rightarrow> acpi \<Rightarrow> 'h \<Rightarrow> int \<times> 'h" where
  "acpiEnable p s h =
    (let (v, h1) = inw p (io_port (PM1a_CNT s)) h in
     if v AND SCI_EN s \<noteq> 0 then (0, h1)
     else if \<not> (SMI_CMD s \<noteq> 0 \<and> ACPI_ENABLE s \<noteq> 0) then (- 1, h1)
     else
       let (n, h2) = wait_sci p (io_port (PM1a_CNT s)) (SCI_EN s) TIME_TO_WAIT (outb p (io_port (SMI_CMD s)) (ACPI_ENABLE s) h1);
           (n', h3) = (if PM1b_CNT s \<noteq> 0 then wait_sci p (io_port (PM1b_CNT s)) (SCI_EN s) n h2 else (n, h2))
       in (if n' > 0 then 0 else - 1, h3))"

definition acpiPowerOff :: "('h, 'z) ports16_scheme \<Rightarrow> acpi \<Rightarrow> 'h \<Rightarrow> 'h" where
  "acpiPowerOff p s h =
    (if SCI_EN s = 0 then h
     else
       let h1 = outw p (io_port (PM1a_CNT s)) (SLP_TYPa s OR SLP_EN s) (snd (acpiEnable p s h)) in
       if PM1b_CNT s \<noteq> 0 then outw p (io_port (PM1b_CNT s)) (SLP_TYPb s OR SLP_EN s) h1 else h1)"

section \<open>Tables that name the sleep state\<close>

lemma acpi_scan_finds:
  assumes "i < n" "n < 2 ^ 32" "ptr + 4 * i < 2 ^ 32" "\<And>j. j < i \<Longrightarrow> acpiCheckHeader m (load32 m (ptr + 4 * j)) ''FACP'' \<noteq> 0"
    and "acpiCheckHeader m (load32 m (ptr + 4 * i)) ''FACP'' = 0" "dsdt_s5 m (load32 m (load32 m (ptr + 4 * i) + 40)) = Some s5"
  shows "acpi_scan m ptr (word_of_nat n) = Some (Some (load32 m (ptr + 4 * i), s5))"
  using assms
proof (induction i arbitrary: n ptr)
  case 0
  then have "(word_of_nat n :: uint) \<noteq> 0" using nat_dvd_not_less[of n "2 ^ 32"] by (auto simp: word_of_nat_eq_0_iff)
  then show ?case using 0 by (subst acpi_scan.simps) simp
next
  case (Suc i)
  then obtain n' where n: "n = Suc n'" by (cases n) auto
  have "(word_of_nat n :: uint) \<noteq> 0" using Suc.prems nat_dvd_not_less[of n "2 ^ 32"] by (auto simp: word_of_nat_eq_0_iff)
  moreover have "acpiCheckHeader m (load32 m ptr) ''FACP'' \<noteq> 0" using Suc.prems(4)[of 0] by simp
  moreover have "add32 ptr 4 = ptr + 4" using Suc.prems(3) by simp
  moreover have "acpi_scan m (ptr + 4) (word_of_nat n') = Some (Some (load32 m (ptr + 4 + 4 * i), s5))"
  proof (rule Suc.IH)
    show "acpiCheckHeader m (load32 m (ptr + 4 + 4 * j)) ''FACP'' \<noteq> 0" if "j < i" for j using Suc.prems(4)[of "Suc j"] that by (simp add: algebra_simps)
  qed (use Suc.prems n in \<open>simp_all add: algebra_simps\<close>)
  ultimately show ?case using n by (subst acpi_scan.simps) (simp add: algebra_simps)
qed

lemma s5_search_finds:
  "(\<And>j. j < k \<Longrightarrow> \<not> sig_at m (a + j) ''_S5_'') \<Longrightarrow> sig_at m (a + k) ''_S5_'' \<Longrightarrow> k < n \<Longrightarrow> s5_search m a n = Some (a + k, n - Suc k)"
proof (induction k arbitrary: a n)
  case 0
  then show ?case by (cases n) auto
next
  case (Suc k)
  then obtain n' where n: "n = Suc n'" by (cases n) auto
  have "s5_search m (Suc a) n' = Some (Suc a + k, n' - Suc k)"
  proof (rule Suc.IH)
    show "\<not> sig_at m (Suc a + j) ''_S5_''" if "j < k" for j using Suc.prems(1)[of "Suc j"] that by simp
  qed (use Suc.prems n in simp_all)
  then show ?case using Suc.prems(1)[of 0] n by simp
qed

text \<open>The byte code of a small integer: 0 and 1 are their own byte, others have a prefix. The package has a length of one byte.\<close>

definition aml_int :: "uchar \<Rightarrow> uchar list" where
  "aml_int v = (if v = 0 \<or> v = 1 then [v] else [0x0A, v])"

definition aml_s5 :: "uchar \<Rightarrow> uchar \<Rightarrow> uchar \<Rightarrow> uchar \<Rightarrow> uchar list" where
  "aml_s5 len cnt a b = bytes_of ''_S5_'' @ [0x12, len, cnt] @ aml_int a @ aml_int b"

lemma load_bytes_nth: "load_bytes m a n = xs \<Longrightarrow> i < n \<Longrightarrow> m (a + i) = xs ! i"
  by (auto simp: load_bytes_def)

lemma less_mask_bit: "(w :: uchar) < 0x40 \<Longrightarrow> bit w n \<Longrightarrow> n < 6"
proof (rule ccontr)
  assume w: "w < 0x40" and b: "bit w n" and n: "\<not> n < 6"
  have "take_bit 6 w = w" using w by (simp add: take_bit_eq_mod mod_word_less)
  then show False using b n by (metis bit_take_bit_iff)
qed

lemma pkg_len_bytes: "(len :: uchar) < 0x40 \<Longrightarrow> drop_bit 6 (len AND 0xC0) = 0"
  by (rule bit_word_eqI) (auto simp: bit_simps dest: less_mask_bit)

lemma s5_types_aml:
  assumes "load_bytes m s (length (aml_s5 len cnt a b)) = aml_s5 len cnt a b" "len < 0x40"
  shows "m (s + 4) = 0x12" "s5_types m s = (push_bit 10 (ucast a), push_bit 10 (ucast b))" "sig_at m s ''_S5_''"
proof -
  have n: "i < length (aml_s5 len cnt a b) \<Longrightarrow> m (s + i) = aml_s5 len cnt a b ! i" for i using load_bytes_nth[OF assms(1)] .
  then have n': "i < length (aml_s5 len cnt a b) \<Longrightarrow> m (i + s) = aml_s5 len cnt a b ! i" for i by (metis add.commute)
  show "m (s + 4) = 0x12" using n[of 4] by (simp add: aml_s5_def bytes_of_def)
  have l: "m (s + 5) = len" using n[of 5] by (simp add: aml_s5_def bytes_of_def)
  show "s5_types m s = (push_bit 10 (ucast a), push_bit 10 (ucast b))"
    using n[of 7] n[of 8] n[of 9] n[of 10] n'[of 7] n'[of 8] n'[of 9] n'[of 10] pkg_len_bytes[OF assms(2)] l
    by (cases "a = 0 \<or> a = 1"; cases "b = 0 \<or> b = 1") (auto simp: s5_types_def skip_prefix_def aml_s5_def aml_int_def bytes_of_def Let_def add.assoc)
  show "sig_at m s ''_S5_''"
    using n[of 0] n[of 1] n[of 2] n[of 3] by (simp add: sig_at_def load_bytes_def aml_s5_def bytes_of_def upt_rec numeral_3_eq_3)
qed

lemma acpi_entries_len: "36 + 4 * n < 2 ^ 31 \<Longrightarrow> acpi_entries (36 + 4 * n) = word_of_nat n"
proof -
  assume "36 + 4 * n < 2 ^ 31"
  then have "uint (word_of_nat (4 * n) :: uint) = int (4 * n)" by (subst unsigned_of_nat) (simp add: take_bit_nat_eq_self)
  then have "uint (4 * word_of_nat n :: uint) = 4 * int n" by simp
  then show ?thesis using \<open>36 + 4 * n < 2 ^ 31\<close> by (simp add: acpi_entries_def sint_uint32)
qed

lemma dsdt_s5_finds:
  assumes "acpiCheckHeader m d ''DSDT'' = 0" "load32 m (d + 4) = len" "len < 2 ^ 31" "36 \<le> k" "k + 1 < len"
    and "\<And>j. 36 \<le> j \<Longrightarrow> j < k \<Longrightarrow> \<not> sig_at m (d + j) ''_S5_''" "sig_at m (d + k) ''_S5_''" "m (d + k - 1) = 8" "m (d + k + 4) = 0x12"
  shows "dsdt_s5 m d = Some (d + k)"
proof -
  have "s5_search m (d + 36) (len - 36) = Some (d + 36 + (k - 36), len - 36 - Suc (k - 36))"
  proof (rule s5_search_finds)
    show "\<not> sig_at m (d + 36 + j) ''_S5_''" if "j < k - 36" for j using assms(6)[of "36 + j"] that by (simp add: add.assoc)
  qed (use assms in simp_all)
  moreover have "d + 36 + (k - 36) = d + k" "sub32 len 36 = len - 36" using assms(3-5) by simp_all
  ultimately show ?thesis using assms by (simp add: dsdt_s5_def)
qed

text \<open>
  C25: when the tables of the firmware are in order and describe the sleep state S5 by the values \<open>a\<close> and \<open>b\<close>, \<^verbatim>\<open>setup_ACPI\<close> succeeds,
  and the power-off writes \<open>a\<close> with the sleep bit to the first control register and \<open>b\<close> to the second one, if there is one.
\<close>

theorem acpi_power_off:
  assumes "acpiGetRSDPtr m = r" "r \<noteq> 0" "acpiCheckHeader m r ''RSDT'' = 0" "load32 m (r + 4) = 36 + 4 * n" "36 + 4 * n < 2 ^ 31" "r + 36 + 4 * n < 2 ^ 32"
    and "i < n" "\<And>j. j < i \<Longrightarrow> acpiCheckHeader m (load32 m (r + 36 + 4 * j)) ''FACP'' \<noteq> 0"
    and "load32 m (r + 36 + 4 * i) = f" "acpiCheckHeader m f ''FACP'' = 0" "load32 m (f + 40) = d"
    and "acpiCheckHeader m d ''DSDT'' = 0" "load32 m (d + 4) = len" "len < 2 ^ 31" "36 \<le> k" "k + 1 < len"
    and "\<And>j. 36 \<le> j \<Longrightarrow> j < k \<Longrightarrow> \<not> sig_at m (d + j) ''_S5_''"
    and "m (d + k - 1) = 8" "load_bytes m (d + k) (length (aml_s5 pkg cnt a b)) = aml_s5 pkg cnt a b" "pkg < 0x40"
  shows "\<exists>s'. setup_ACPI m s = Some (0, s') \<and>
    acpiPowerOff p s' h =
      (let h1 = outw p (load32 m (f + 64) mod 2 ^ 16) (push_bit 10 (ucast a) OR 0x2000) (snd (acpiEnable p s' h)) in
       if load32 m (f + 68) \<noteq> 0 then outw p (load32 m (f + 68) mod 2 ^ 16) (push_bit 10 (ucast b) OR 0x2000) h1 else h1)"
proof -
  note aml = s5_types_aml[OF assms(19,20)]
  have "dsdt_s5 m d = Some (d + k)" by (rule dsdt_s5_finds[OF assms(12-17) aml(3) assms(18) aml(1)])
  then have "acpi_scan m (r + 36) (word_of_nat n) = Some (Some (load32 m (r + 36 + 4 * i), d + k))"
    using assms by (intro acpi_scan_finds) simp_all
  then have "setup_ACPI m s = Some (0, take_facp m f (d + k))"
    using assms(1-4,9) acpi_entries_len[OF assms(5)] by (simp add: setup_ACPI_def)
  then show ?thesis by (simp add: acpiPowerOff_def take_facp_def aml(2) Let_def)
qed

section \<open>An example\<close>

text \<open>The four tables, one behind the other.\<close>

definition demo_rsdp :: "uchar list" where
  "demo_rsdp =
    [82, 83, 68, 32, 80, 84, 82, 32, 191, 0, 0, 0, 0, 0, 0, 0, 20, 0, 14, 0]"

definition demo_rsdt :: "uchar list" where
  "demo_rsdt =
    [82, 83, 68, 84, 40, 0, 0, 0, 0, 81, 0, 0, 0, 0, 0, 0, 0, 0, 0, 0, 0, 0, 0, 0, 0, 0, 0, 0, 0, 0, 0, 0, 0, 0, 0, 0, 60, 0, 14, 0]"

definition demo_facp :: "uchar list" where
  "demo_facp =
    [70, 65, 67, 80, 92, 0, 0, 0, 0, 37, 0, 0, 0, 0, 0, 0, 0, 0, 0, 0, 0, 0, 0, 0, 0, 0, 0, 0, 0, 0, 0, 0, 0, 0, 0, 0, 0, 0, 0, 0, 152,
     0, 14, 0, 0, 0, 0, 0, 178, 0, 0, 0, 1, 2, 0, 0, 0, 0, 0, 0, 0, 0, 0, 0, 4, 4, 0, 0, 0, 0, 0, 0, 0, 0, 0, 0, 0, 0, 0, 0, 0, 0, 0,
     0, 0, 0, 0, 0, 0, 2, 0, 0]"

definition demo_dsdt :: "uchar list" where
  "demo_dsdt =
    [68, 83, 68, 84, 49, 0, 0, 0, 0, 22, 0, 0, 0, 0, 0, 0, 0, 0, 0, 0, 0, 0, 0, 0, 0, 0, 0, 0, 0, 0, 0, 0, 0, 0, 0, 0, 8, 95, 83, 53,
     95, 18, 6, 4, 10, 5, 10, 7, 0]"

definition demo_acpi :: memory where
  "demo_acpi = store_bytes (\<lambda>_. 0) 0xE0000 (demo_rsdp @ demo_rsdt @ demo_facp @ demo_dsdt)"

lemmas demo_tables = demo_rsdp_def demo_rsdt_def demo_facp_def demo_dsdt_def

lemma load_stored: "k + n \<le> length bs \<Longrightarrow> load_bytes (store_bytes m a bs) (a + k) n = take n (drop k bs)"
  by (rule nth_equalityI) (simp_all add: load_bytes_def store_bytes_def add.assoc)

lemma load32_bytes:
  "load_bytes m a n = bs \<Longrightarrow> k + 3 < n \<Longrightarrow>
   load32 m (a + k) = unat (bs ! k) + 2 ^ 8 * unat (bs ! (k + 1)) + 2 ^ 16 * unat (bs ! (k + 2)) + 2 ^ 24 * unat (bs ! (k + 3))"
  using load_bytes_nth[of m a n bs k] load_bytes_nth[of m a n bs "k + 1"] load_bytes_nth[of m a n bs "k + 2"] load_bytes_nth[of m a n bs "k + 3"]
  by (simp add: load32_def add.assoc)

lemma take_load_bytes: "k \<le> n \<Longrightarrow> load_bytes m a k = take k (load_bytes m a n)"
  by (simp add: load_bytes_def take_map)

lemma header_ok:
  assumes "load_bytes m a len = bs" "4 \<le> len" "length sig = 4" "take 4 bs = bytes_of sig" "load32 m (a + 4) = len" "foldl (+) 0 bs = 0"
  shows "acpiCheckHeader m a sig = 0"
  using assms take_load_bytes[of 4 len m a] by (simp add: acpiCheckHeader_def sig_at_def check_sum_def)

lemma demo_bytes:
  "load_bytes demo_acpi 0xE0000 20 = demo_rsdp" "load_bytes demo_acpi 0xE0014 40 = demo_rsdt" "load_bytes demo_acpi 0xE003C 92 = demo_facp"
  "load_bytes demo_acpi 0xE0098 49 = demo_dsdt"
  using load_stored[of 0 20 "demo_rsdp @ demo_rsdt @ demo_facp @ demo_dsdt" "\<lambda>_. 0" "0xE0000"]
    load_stored[of 20 40 "demo_rsdp @ demo_rsdt @ demo_facp @ demo_dsdt" "\<lambda>_. 0" "0xE0000"]
    load_stored[of 60 92 "demo_rsdp @ demo_rsdt @ demo_facp @ demo_dsdt" "\<lambda>_. 0" "0xE0000"]
    load_stored[of 152 49 "demo_rsdp @ demo_rsdt @ demo_facp @ demo_dsdt" "\<lambda>_. 0" "0xE0000"]
  by (simp_all add: demo_acpi_def demo_tables)

lemma demo_words:
  "load32 demo_acpi 0xE0010 = 0xE0014" "load32 demo_acpi 0xE0018 = 40" "load32 demo_acpi 0xE0038 = 0xE003C" "load32 demo_acpi 0xE0040 = 92"
  "load32 demo_acpi 0xE0064 = 0xE0098" "load32 demo_acpi 0xE009C = 49" "load32 demo_acpi 0xE007C = 0x404" "load32 demo_acpi 0xE0080 = 0"
  using load32_bytes[OF demo_bytes(1), of 16] load32_bytes[OF demo_bytes(2), of 4] load32_bytes[OF demo_bytes(2), of 36] load32_bytes[OF demo_bytes(3), of 4]
    load32_bytes[OF demo_bytes(3), of 40] load32_bytes[OF demo_bytes(4), of 4] load32_bytes[OF demo_bytes(3), of 64] load32_bytes[OF demo_bytes(3), of 68]
  by (simp_all add: demo_tables)

lemma demo_headers:
  "acpiCheckHeader demo_acpi 0xE0014 ''RSDT'' = 0" "acpiCheckHeader demo_acpi 0xE003C ''FACP'' = 0" "acpiCheckHeader demo_acpi 0xE0098 ''DSDT'' = 0"
  by (rule header_ok[OF demo_bytes(2)] header_ok[OF demo_bytes(3)] header_ok[OF demo_bytes(4)]; simp add: demo_words demo_tables bytes_of_def)+

lemma demo_rsdp_found: "acpiGetRSDPtr demo_acpi = 0xE0014"
proof -
  have l: "length ''RSD PTR '' = 8" by simp
  have "sig_at demo_acpi 0xE0000 ''RSD PTR ''"
    unfolding sig_at_def l take_load_bytes[of 8 20, simplified] demo_bytes(1) by (simp add: demo_tables bytes_of_def)
  then have "acpiCheckRSDPtr demo_acpi 0xE0000 = 0xE0014"
    using demo_bytes(1) demo_words(1) by (simp add: acpiCheckRSDPtr_def check_sum_def demo_tables)
  then have "rsdp_search demo_acpi 0xE0000 (Suc 8191) = 0xE0014" unfolding rsdp_search.simps by simp
  then show ?thesis by (simp add: acpiGetRSDPtr_def)
qed

lemma sub_load: "load_bytes m a n = bs \<Longrightarrow> k + j \<le> n \<Longrightarrow> load_bytes m (a + k) j = take j (drop k bs)"
  by (rule nth_equalityI) (auto simp: load_bytes_def add.assoc)

text \<open>Hardware that records the words written and is in ACPI mode.\<close>

definition log_hw :: "(nat \<times> ushort) list ports16" where
  "log_hw = \<lparr>inb = (\<lambda>_ h. (0, h)), outb = (\<lambda>_ _ h. h), inw = (\<lambda>_ h. (1, h)), outw = (\<lambda>port v h. h @ [(port, v)])\<rparr>"

lemma log_enable: "snd (acpiEnable log_hw s h) = h"
proof -
  have "snd (wait_sci log_hw port sci n h) = h" for port sci n by (induction n) (simp_all add: log_hw_def)
  then show ?thesis by (auto simp: acpiEnable_def log_hw_def Let_def split: prod.splits) (metis snd_conv)+
qed

theorem acpi_power_off_witness:
  "\<exists>s'. setup_ACPI demo_acpi acpi_start = Some (0, s') \<and> acpiPowerOff log_hw s' [] = [(0x404, 0x3400)]"
proof -
  have l: "length (aml_s5 6 4 5 7) = 11" "length ''_S5_'' = 4" by (simp_all add: aml_s5_def aml_int_def bytes_of_def)
  have s5: "load_bytes demo_acpi (0xE0098 + 37) (length (aml_s5 6 4 5 7)) = aml_s5 6 4 5 7"
    unfolding l(1) using sub_load[OF demo_bytes(4), of 37 11] by (simp add: demo_tables aml_s5_def aml_int_def bytes_of_def)
  have "\<not> sig_at demo_acpi (0xE0098 + 36) ''_S5_''"
    unfolding sig_at_def l(2) using sub_load[OF demo_bytes(4), of 36 4] by (simp add: demo_tables bytes_of_def)
  then have no: "\<not> sig_at demo_acpi (0xE0098 + j) ''_S5_''" if "36 \<le> j" "j < 37" for j using that by (cases "j = 36") auto
  have e: "demo_acpi (0xE0098 + 37 - 1) = 8" using load_bytes_nth[OF demo_bytes(4), of 36] by (simp add: demo_tables)
  have "\<exists>s'. setup_ACPI demo_acpi acpi_start = Some (0, s') \<and>
    acpiPowerOff log_hw s' [] =
      (let h1 = outw log_hw (load32 demo_acpi (0xE003C + 64) mod 2 ^ 16) (push_bit 10 (ucast (5 :: uchar)) OR 0x2000) (snd (acpiEnable log_hw s' [])) in
       if load32 demo_acpi (0xE003C + 68) \<noteq> 0
       then outw log_hw (load32 demo_acpi (0xE003C + 68) mod 2 ^ 16) (push_bit 10 (ucast (7 :: uchar)) OR 0x2000) h1 else h1)"
    by (rule acpi_power_off[OF demo_rsdp_found, where n = 1 and i = 0 and f = "0xE003C" and d = "0xE0098" and k = 37 and len = 49 and pkg = 6 and cnt = 4,
          OF _ demo_headers(1) _ _ _ _ _ _ demo_headers(2) _ demo_headers(3) _ _ _ _ no e s5]) (simp_all add: demo_words)
  moreover have "outw log_hw port v h = h @ [(port, v)]" for port v h by (simp add: log_hw_def)
  ultimately show ?thesis by (simp add: demo_words log_enable Let_def)
qed

section \<open>Tables without the sleep state\<close>

lemma sub32_next:
  assumes "q < 2 ^ 32" "p < 2 ^ 32"
  shows "sub32 q (add32 p 4) = (if p = q then 2 ^ 32 - 4 else if sub32 q p < 4 then sub32 q p + (2 ^ 32 - 4) else sub32 q p - 4)"
    "sub32 q p = 0 \<longleftrightarrow> p = q" "sub32 q p < 2 ^ 32"
proof -
  have s: "sub32 q p = (if p \<le> q then q - p else q + 2 ^ 32 - p)" if "p < 2 ^ 32" for p
    using assms(1) that sub32_id[of p q] by (auto simp: sub32_def)
  have a: "add32 p 4 = (if p + 4 < 2 ^ 32 then p + 4 else p + 4 - 2 ^ 32)" using assms(2) by (auto simp: add32_def mod_if)
  then have l: "add32 p 4 < 2 ^ 32" using assms(2) by auto
  show "sub32 q (add32 p 4) = (if p = q then 2 ^ 32 - 4 else if sub32 q p < 4 then sub32 q p + (2 ^ 32 - 4) else sub32 q p - 4)"
    unfolding s[OF l] unfolding s[OF assms(2)] a using assms by (auto split: if_splits)
  show "sub32 q p = 0 \<longleftrightarrow> p = q" "sub32 q p < 2 ^ 32" unfolding s[OF assms(2)] using assms by auto
qed

text \<open>
  When no FACP in memory leads to the sleep state, but the table lists one at its entry \<open>i\<close>, the counter is set back whenever the
  pointer comes to that entry again: the scan does not end.
\<close>

lemma acpi_scan_endless:
  assumes "\<And>a. acpiCheckHeader m a ''FACP'' = 0 \<Longrightarrow> dsdt_s5 m (load32 m (a + 40)) = None"
    and "acpiCheckHeader m (load32 m q) ''FACP'' = 0" "q < 2 ^ 32"
    and "ptr < 2 ^ 32" "sub32 q ptr mod 4 = 0" "sub32 q ptr div 4 < unat entrys"
  shows "acpi_scan m ptr entrys = None"
proof -
  define P where "P m' ptr e r \<longleftrightarrow> \<not> (m' = m \<and> ptr < 2 ^ 32 \<and> sub32 q ptr mod 4 = 0 \<and> sub32 q ptr div 4 < unat e)"
    for m' :: memory and ptr :: nat and e :: uint and r :: "(nat \<times> nat) option"
  have "P m ptr entrys r" if "acpi_scan m ptr entrys = Some r" for r
  proof (rule acpi_scan.raw_induct[where P = P, OF _ that])
    fix f :: "memory \<Rightarrow> nat \<Rightarrow> uint \<Rightarrow> (nat \<times> nat) option option" and m' ptr e r
    assume IH: "\<And>m' ptr e r. f m' ptr e = Some r \<Longrightarrow> P m' ptr e r"
      and body: "(if e = 0 then Some None
     else if acpiCheckHeader m' (load32 m' ptr) ''FACP'' = 0 then
       (case dsdt_s5 m' (load32 m' (load32 m' ptr + 40)) of
          Some s5 \<Rightarrow> Some (Some (load32 m' ptr, s5))
        | None \<Rightarrow> f m' (add32 ptr 4) (- 2))
     else f m' (add32 ptr 4) (e - 1)) = Some r"
    show "P m' ptr e r"
    proof (rule ccontr)
      assume "\<not> P m' ptr e r"
      then have m: "m' = m" and p: "ptr < 2 ^ 32" "sub32 q ptr mod 4 = 0" "sub32 q ptr div 4 < unat e" by (simp_all add: P_def)
      have e: "e \<noteq> 0" using p(3) by auto
      have nx: "add32 ptr 4 < 2 ^ 32" by (simp add: add32_def)
      show False
      proof (cases "acpiCheckHeader m (load32 m ptr) ''FACP'' = 0")
        case True
        then have "f m (add32 ptr 4) (- 2) = Some r" using body e m assms(1) by simp
        moreover have "sub32 q (add32 ptr 4) mod 4 = 0" using sub32_next[OF assms(3) p(1)] p(2) by (auto split: if_splits)
        moreover have "unat (- 2 :: uint) = 2 ^ 32 - 2" by simp
        ultimately show False using IH[of m "add32 ptr 4" "- 2" r] nx sub32_next(3)[OF assms(3) nx] by (simp add: P_def)
      next
        case False
        then have "f m (add32 ptr 4) (e - 1) = Some r" using body e m by simp
        moreover have "sub32 q ptr \<noteq> 0" using False assms(2) sub32_next(2)[OF assms(3) p(1)] by auto
        moreover from this have "sub32 q (add32 ptr 4) = sub32 q ptr - 4" "sub32 q ptr \<ge> 4"
          using sub32_next[OF assms(3) p(1)] p(2) by (auto split: if_splits)
        moreover have "unat (e - 1) = unat e - 1" using unat_pred[OF e] by simp
        ultimately show False using IH[of m "add32 ptr 4" "e - 1" r] nx p(2,3) by (simp add: P_def mod_if)
      qed
    qed
  qed
  then show ?thesis using assms(4-6) by (cases "acpi_scan m ptr entrys") (auto simp: P_def)
qed

end
