(* ===== verification/Ata.thy ===== *)
theory Ata
  imports Ports
begin

text \<open>
  Transfers to ATA drives by programmed input and output, \<^verbatim>\<open>src/drivers/ata/ata.c\<close>, and the speaker, \<^verbatim>\<open>src/drivers/pc_speaker.c\<close>. The
  hardware is a parameter; \<open>pause\<close> is what happens to it while the process pauses. \<open>None\<close> is a wait that does not end, a read
  behind the end of the buffer or a division by 0.
\<close>

definition ATA_IDE_1 :: ushort where "ATA_IDE_1 = 0x1F0"
definition ATA_IDE_2 :: ushort where "ATA_IDE_2 = 0x170"
definition ATA_MASTER :: uchar where "ATA_MASTER = 0"
definition ATA_SLAVE :: uchar where "ATA_SLAVE = 1"
definition ATA_FEAT :: ushort where "ATA_FEAT = 1"
definition ATA_SECS :: ushort where "ATA_SECS = 2"
definition ATA_SNUM :: ushort where "ATA_SNUM = 3"
definition ATA_CLOW :: ushort where "ATA_CLOW = 4"
definition ATA_CHIH :: ushort where "ATA_CHIH = 5"
definition ATA_HDEV :: ushort where "ATA_HDEV = 6"
definition ATA_CMD :: ushort where "ATA_CMD = 7"
definition ATA_CHK2 :: ushort where "ATA_CHK2 = 0x206"
definition ATA_READ_CMD :: uchar where "ATA_READ_CMD = 0x20"
definition ATA_WRITE_CMD :: uchar where "ATA_WRITE_CMD = 0x30"

section \<open>Commands\<close>

text \<open>A poll until the masked status is 0, or until it is not.\<close>

partial_function (option) ata_wait :: "'h ports16 \<Rightarrow> ('h \<Rightarrow> 'h) \<Rightarrow> nat \<Rightarrow> uchar \<Rightarrow> bool \<Rightarrow> 'h \<Rightarrow> 'h option" where
  "ata_wait p pause port msk want h =
    (if (fst (inb p port h) AND msk \<noteq> 0) = want then Some (snd (inb p port h)) else ata_wait p pause port msk want (pause (snd (inb p port h))))"

definition lba28_registers :: "ushort \<Rightarrow> uchar \<Rightarrow> uint \<Rightarrow> uchar \<Rightarrow> (nat \<times> uchar) list" where
  "lba28_registers controller drive addr sectorcount =
    [(unat (controller OR ATA_FEAT), 0), (unat (controller OR ATA_SECS), sectorcount), (unat (controller OR ATA_SNUM), ucast addr),
     (unat (controller OR ATA_CLOW), ucast (drop_bit 8 addr)), (unat (controller OR ATA_CHIH), ucast (drop_bit 16 addr)),
     (unat (controller OR ATA_HDEV), 0xE0 OR push_bit 4 drive OR ucast (drop_bit 24 addr AND 0x0F))]"

definition lba28_init :: "'h ports16 \<Rightarrow> ('h \<Rightarrow> 'h) \<Rightarrow> ushort \<Rightarrow> uchar \<Rightarrow> uint \<Rightarrow> uchar \<Rightarrow> 'h \<Rightarrow> (int \<times> 'h) option" where
  "lba28_init p pause controller drive addr sectorcount h =
    map_option (\<lambda>h1. (1, outbs p (lba28_registers controller drive addr sectorcount) h1))
      (ata_wait p pause (unat controller + unat ATA_CHK2) 0x80 False h)"

text \<open>The controller and the drive are checked first.\<close>

definition ata_valid :: "ushort \<Rightarrow> uchar \<Rightarrow> bool" where
  "ata_valid controller drive \<longleftrightarrow> \<not> (controller \<noteq> ATA_IDE_1 \<and> controller \<noteq> ATA_IDE_2) \<and> \<not> (drive \<noteq> ATA_MASTER \<and> drive \<noteq> ATA_SLAVE)"

text \<open>The command and the wait for the data request.\<close>

definition ata_command :: "'h ports16 \<Rightarrow> ('h \<Rightarrow> 'h) \<Rightarrow> ushort \<Rightarrow> uchar \<Rightarrow> 'h \<Rightarrow> 'h option" where
  "ata_command p pause controller cmd h =
    ata_wait p pause (unat (controller OR ATA_CMD)) 0x08 True (outb p (unat (controller OR ATA_CMD)) cmd h)"

fun read_words :: "'h ports16 \<Rightarrow> ushort \<Rightarrow> nat \<Rightarrow> 'h \<Rightarrow> uchar list \<times> 'h" where
  "read_words p controller 0 h = ([], h)"
| "read_words p controller (Suc n) h =
    (let (v, h1) = inw p (unat controller) h; (bs, h2) = read_words p controller n h1
     in (ucast (v AND 0xFF) # ucast (drop_bit 8 (v AND 0xFF00)) # bs, h2))"

fun write_words :: "'h ports16 \<Rightarrow> ushort \<Rightarrow> nat \<Rightarrow> uchar list \<Rightarrow> 'h \<Rightarrow> 'h option" where
  "write_words p controller 0 buf h = Some h"
| "write_words p controller (Suc n) (a # b # buf) h = write_words p controller n buf (outw p (unat controller) (ucast a OR push_bit 8 (ucast b)) h)"
| "write_words p controller (Suc n) _ h = None"

definition lba28_read :: "'h ports16 \<Rightarrow> ('h \<Rightarrow> 'h) \<Rightarrow> ushort \<Rightarrow> uchar \<Rightarrow> uint \<Rightarrow> uchar \<Rightarrow> 'h \<Rightarrow> ((int \<times> uchar list) \<times> 'h) option" where
  "lba28_read p pause controller0 drive addr sectorcount h =
    (let controller = controller0 AND 0xFFF0 in
     if \<not> ata_valid controller drive then Some ((0, []), h)
     else do {
       (r, h1) \<leftarrow> lba28_init p pause controller drive addr sectorcount h;
       h2 \<leftarrow> ata_command p pause controller ATA_READ_CMD h1;
       let (bs, h3) = read_words p controller (256 * (unat sectorcount + 1)) h2;
       Some ((1, bs), h3)
     })"

definition lba28_write :: "'h ports16 \<Rightarrow> ('h \<Rightarrow> 'h) \<Rightarrow> uchar list \<Rightarrow> ushort \<Rightarrow> uchar \<Rightarrow> uint \<Rightarrow> uchar \<Rightarrow> 'h \<Rightarrow> (int \<times> 'h) option" where
  "lba28_write p pause buf controller0 drive addr sectorcount h =
    (let controller = controller0 AND 0xFFF0 in
     if \<not> ata_valid controller drive then Some (0, h)
     else do {
       (r, h1) \<leftarrow> lba28_init p pause controller drive addr sectorcount h;
       h2 \<leftarrow> ata_command p pause controller ATA_WRITE_CMD h1;
       h3 \<leftarrow> write_words p controller (256 * (unat sectorcount + 1)) buf h2;
       Some (1, h3)
     })"

section \<open>The speaker\<close>

definition init_pc_speaker :: "('h, 'z) ports_scheme \<Rightarrow> 'h \<Rightarrow> 'h" where
  "init_pc_speaker p h = (let (v, h1) = inb p 0x61 h in outb p 0x61 (v OR 0x03) h1)"

definition stop_pc_speaker :: "('h, 'z) ports_scheme \<Rightarrow> 'h \<Rightarrow> 'h" where
  "stop_pc_speaker p h = (let (v, h1) = inb p 0x61 h in outb p 0x61 (v AND 0xFC) h1)"

definition echo_pc_speaker :: "('h, 'z) ports_scheme \<Rightarrow> uint \<Rightarrow> 'h \<Rightarrow> 'h option" where
  "echo_pc_speaker p freq h =
    (if freq = 0 then None
     else let caller = 0x1234DD div freq in
       Some (init_pc_speaker p (outbs p [(0x43, 0xB6), (0x42, ucast (caller AND 0xFF)), (0x42, ucast (drop_bit 8 caller))] h)))"

section \<open>Addresses\<close>

text \<open>What the drive takes from the registers: the address and the number of the drive.\<close>

definition decode_lba28 :: "uchar list \<Rightarrow> uint \<times> bool" where
  "decode_lba28 rs = (ucast (rs ! 2) OR push_bit 8 (ucast (rs ! 3)) OR push_bit 16 (ucast (rs ! 4)) OR push_bit 24 (ucast (rs ! 5 AND 0x0F)), bit (rs ! 5) 4)"

lemma small_bit: "(w :: uint) < 2 ^ 28 \<Longrightarrow> bit w n \<Longrightarrow> n < 28"
proof (rule ccontr)
  assume w: "w < 2 ^ 28" and b: "bit w n" and n: "\<not> n < 28"
  have "take_bit 28 w = w" using w by (simp add: take_bit_eq_mod mod_word_less)
  then show False using b n by (metis bit_take_bit_iff)
qed

lemma low_nibble: "(0xE0 OR push_bit 4 d OR v) AND 0x0F = v AND 0x0F" for d v :: uchar
proof -
  have "(0x0F :: uchar) = mask 4" by (simp add: mask_numeral)
  then have n: "x AND 0x0F = take_bit 4 x" for x :: uchar by (simp add: take_bit_eq_mask)
  show ?thesis unfolding n take_bit_or take_bit_push_bit by simp
qed

lemma byte_of: "n < 8 \<Longrightarrow> bit (ucast (w :: uint) :: uchar) n = bit w n" "8 \<le> n \<Longrightarrow> \<not> bit (ucast w :: uchar) n"
  by (simp_all add: bit_simps)

lemma byte_iff: "bit (ucast (w :: uint) :: uchar) n \<longleftrightarrow> n < 8 \<and> bit w n"
  using byte_of[of n w] by (cases "n < 8") auto

lemma push_uint: "bit (push_bit k w) n \<longleftrightarrow> k \<le> n \<and> n < 32 \<and> bit w (n - k)" for w :: uint
  by (auto simp: bit_simps)

lemma uint_byte: "bit (ucast (b :: uchar) :: uint) n = bit b n"
  by (auto simp: bit_simps dest: bit_imp_le_length)

lemma high_nibble: "addr < 2 ^ 28 \<Longrightarrow> ucast ((ucast (drop_bit 24 addr AND 0x0F) :: uchar) AND 0x0F) = drop_bit 24 (addr :: uint)"
proof -
  assume a: "addr < 2 ^ 28"
  have "(0x0F :: uchar) = mask 4" "(0x0F :: uint) = mask 4" by (simp_all add: mask_numeral)
  then have m: "x AND 0x0F = take_bit 4 x" "y AND 0x0F = take_bit 4 y" for x :: uchar and y :: uint by (simp_all add: take_bit_eq_mask)
  show ?thesis unfolding m by (rule bit_word_eqI) (use small_bit[OF a] in \<open>fastforce simp: uint_byte bit_take_bit_iff bit_drop_bit_eq byte_of\<close>)
qed

lemma lba28_address:
  assumes "addr < 2 ^ 28" "drive = ATA_MASTER \<or> drive = ATA_SLAVE"
  shows "decode_lba28 (map snd (lba28_registers controller drive addr cnt)) = (addr, drive = ATA_SLAVE)"
proof -
  let ?h = "0xE0 OR push_bit 4 drive OR ucast (drop_bit 24 addr AND 0x0F) :: uchar"
  have "ucast (ucast addr :: uchar) OR push_bit 8 (ucast (ucast (drop_bit 8 addr) :: uchar)) OR push_bit 16 (ucast (ucast (drop_bit 16 addr) :: uchar)) OR
      push_bit 24 (drop_bit 24 addr) = addr"
    by (rule bit_word_eqI) (auto simp: bit_or_iff push_uint uint_byte byte_iff bit_drop_bit_eq le_add_diff_inverse split: nat_diff_split)
  moreover have "ucast (?h AND 0x0F) = drop_bit 24 addr" unfolding low_nibble by (rule high_nibble[OF assms(1)])
  moreover have "bit ?h 4 \<longleftrightarrow> drive = ATA_SLAVE"
    using assms(2) by (auto simp: bit_simps ATA_MASTER_def ATA_SLAVE_def)
  ultimately show ?thesis by (simp add: decode_lba28_def lba28_registers_def)
qed

section \<open>Data\<close>

fun words_of :: "nat \<Rightarrow> uchar list \<Rightarrow> ushort list" where
  "words_of (Suc n) (a # b # buf) = (ucast a OR push_bit 8 (ucast b)) # words_of n buf"
| "words_of _ _ = []"

lemma byte_masks: "(0xFF :: ushort) = mask 8" "(0xFF00 :: ushort) = push_bit 8 (mask 8)"
  by (simp_all add: mask_numeral)

lemma word_bytes:
  "ucast ((ucast (a :: uchar) OR push_bit 8 (ucast (b :: uchar)) :: ushort) AND 0xFF) = a"
  "ucast (drop_bit 8 ((ucast (a :: uchar) OR push_bit 8 (ucast (b :: uchar)) :: ushort) AND 0xFF00)) = b"
  by (rule bit_word_eqI; auto simp: byte_masks bit_simps dest: bit_imp_le_length)+

lemma two_more: "2 * Suc n \<le> length buf \<Longrightarrow> \<exists>a b rest. buf = a # b # rest \<and> 2 * n \<le> length rest"
  by (cases buf rule: remdups_adj.cases) auto

lemma write_words_sends:
  assumes "\<And>h v. q (outw p (unat c) v h) = q h @ [v]"
  shows "2 * n \<le> length buf \<Longrightarrow> \<exists>h'. write_words p c n buf h = Some h' \<and> q h' = q h @ words_of n buf"
proof (induction n arbitrary: buf h)
  case (Suc n)
  from two_more[OF Suc.prems] obtain a b rest where b: "buf = a # b # rest" "2 * n \<le> length rest" by blast
  from Suc.IH[OF b(2), of "outw p (unat c) (ucast a OR push_bit 8 (ucast b)) h"] show ?case using b(1) assms by auto
qed simp

lemma read_words_takes:
  assumes "\<And>h v vs. q h = v # vs \<Longrightarrow> fst (inw p (unat c) h) = v \<and> q (snd (inw p (unat c) h)) = vs"
  shows "2 * n \<le> length buf \<Longrightarrow> q h = words_of n buf @ rest \<Longrightarrow> \<exists>h'. read_words p c n h = (take (2 * n) buf, h') \<and> q h' = rest"
proof (induction n arbitrary: buf h)
  case (Suc n)
  from two_more[OF Suc.prems(1)] obtain a b bs where b: "buf = a # b # bs" "2 * n \<le> length bs" by blast
  obtain v h1 where v: "inw p (unat c) h = (v, h1)" by (cases "inw p (unat c) h")
  have "v = ucast a OR push_bit 8 (ucast b)" "q h1 = words_of n bs @ rest"
    using assms[of h] Suc.prems(2) b(1) v by auto
  then show ?case using Suc.IH[OF b(2), of h1] v b(1) word_bytes[of a b] by auto
qed simp

text \<open>
  A drive that is ready and gives back the words it was sent: the sectors read are those written. Both transfer one sector more than
  the drive is told to.
\<close>

lemma lba28_roundtrip:
  fixes p :: "'h ports16" and q :: "'h \<Rightarrow> ushort list"
  assumes "\<And>port h. fst (inb p port h) = 0x08" "\<And>port h. q (snd (inb p port h)) = q h" "\<And>port v h. q (outb p port v h) = q h"
    and "\<And>port h v. q (outw p port v h) = q h @ [v]"
    and "\<And>port h v vs. q h = v # vs \<Longrightarrow> fst (inw p port h) = v \<and> q (snd (inw p port h)) = vs"
    and "ata_valid c drive" "c AND 0xFFF0 = c" "length buf = 512 * (unat cnt + 1)" "q h = []"
  shows "\<exists>h1 h2. lba28_write p pause buf c drive addr cnt h = Some (1, h1) \<and> lba28_read p pause c drive addr cnt h1 = Some ((1, buf), h2)"
proof -
  have w: "ata_wait p pause port msk want h = Some (snd (inb p port h))" if "(0x08 AND msk \<noteq> 0) = want" for port msk want h
    by (subst ata_wait.simps) (use that assms(1) in auto)
  have o: "q (outbs p xs h) = q h" for xs h by (induction xs arbitrary: h) (auto simp: outbs_def assms(3))
  have start: "\<exists>h1 h2. lba28_init p pause c drive addr cnt h = Some (1, h1) \<and> ata_command p pause c cmd h1 = Some h2 \<and> q h2 = q h" for cmd h
    using o assms(2,3) by (simp add: lba28_init_def ata_command_def w)
  let ?n = "256 * (unat cnt + 1)"
  obtain h1 h2 where s: "lba28_init p pause c drive addr cnt h = Some (1, h1)" "ata_command p pause c ATA_WRITE_CMD h1 = Some h2" "q h2 = []"
    using start[of h ATA_WRITE_CMD] assms(9) by auto
  obtain h3 where wr: "write_words p c ?n buf h2 = Some h3" "q h3 = words_of ?n buf"
    using write_words_sends[of q p c ?n buf h2, OF assms(4)] assms(8) s(3) by auto
  obtain h4 h5 where r: "lba28_init p pause c drive addr cnt h3 = Some (1, h4)" "ata_command p pause c ATA_READ_CMD h4 = Some h5" "q h5 = q h3"
    using start[of h3 ATA_READ_CMD] by auto
  obtain h6 where "read_words p c ?n h5 = (take (2 * ?n) buf, h6)"
    using read_words_takes[of q p c ?n buf h5 "[]", OF assms(5)] assms(8) r(3) wr(2) by auto
  then show ?thesis using s wr(1) r(1,2) assms(6-8) by (simp add: lba28_write_def lba28_read_def)
qed

end
