(* ===== verification/Nish.thy ===== *)
theory Nish
  imports Tasks
begin

text \<open>
  The kernel's built-in shell: \<^verbatim>\<open>src/kernel/nish.c\<close>, in the configuration without \<^verbatim>\<open>DIRECT_NISH\<close>, where it is
  the device \<^verbatim>\<open>/dev/nish\<close>. Strings are the bytes before the terminator. \<open>None\<close> is an access outside one of
  the fixed buffers.
\<close>

definition MAX_ARGS :: nat where "MAX_ARGS = 16"
definition STRLEN :: nat where "STRLEN = 255"

section \<open>Splitting a command line\<close>

definition blank :: "char \<Rightarrow> bool" where
  "blank c \<longleftrightarrow> schar c > 0 \<and> schar c \<le> 32"

definition ltrim :: "string \<Rightarrow> string" where
  "ltrim cmd = dropWhile blank cmd"

definition rtrim :: "string \<Rightarrow> string" where
  "rtrim cmd = rev (dropWhile blank (rev cmd))"

text \<open>The command and its arguments; the buffer for the arguments is zero before the call.\<close>

definition nish_split_par :: "string \<Rightarrow> string \<times> string" where
  "nish_split_par cmd =
    (let c = ltrim cmd in
     case strchr c CHR '' '' of None \<Rightarrow> (c, []) | Some k \<Rightarrow> (take k c, rtrim (ltrim (drop (Suc k) c))))"

text \<open>The loop stores one argument and continues with the rest; the entry after the last one is set to null.\<close>

function split_loop :: "string \<Rightarrow> nat \<Rightarrow> string list option" where
  "split_loop cmd i =
     (if i \<ge> MAX_ARGS then None
      else let (a, args) = nish_split_par cmd in
        if args = [] then (if Suc i \<ge> MAX_ARGS then None else Some [a])
        else map_option (Cons a) (split_loop args (Suc i)))"
  by pat_completeness auto
termination by (relation "measure (\<lambda>(cmd, i). MAX_ARGS - i)") auto

declare split_loop.simps [simp del]

definition split_to_argv :: "string \<Rightarrow> string list option" where
  "split_to_argv str = (if str = [] then Some [] else if length str \<ge> STRLEN then None else split_loop str 0)"

section \<open>Formatting a mode\<close>

definition type_char :: "uint \<Rightarrow> char" where
  "type_char flags =
    (let t = flags AND 7 in
     if t = 2 then CHR ''d'' else if t = 3 then CHR ''c'' else if t = 4 then CHR ''b'' else if t = 5 then CHR ''p''
     else if t = 6 then CHR ''l'' else CHR ''-'')"

fun mode_loop :: "nat \<Rightarrow> uint \<Rightarrow> string \<Rightarrow> string" where
  "mode_loop 0 mode out = out"
| "mode_loop (Suc i) mode out =
     mode_loop i (drop_bit 3 mode)
       (out[(i + 1) * 3 := (if mode AND 1 \<noteq> 0 then CHR ''x'' else CHR ''-''), i * 3 + 2 := (if mode AND 2 \<noteq> 0 then CHR ''w'' else CHR ''-''),
            i * 3 + 1 := (if mode AND 4 \<noteq> 0 then CHR ''r'' else CHR ''-'')])"

definition format_mode :: "vnode option \<Rightarrow> string" where
  "format_mode node =
    (case node of
       None \<Rightarrow> ''??????????''
     | Some v \<Rightarrow> mode_loop 3 (v_mode v) (''??????????''[0 := type_char (v_flags v)]))"

section \<open>Commands\<close>

datatype nish_command = Test | Clear | Ls | Cat | Cd | Time | Halt | Reboot | Help | Exit | Exec | Not_found | Ignored

definition nish_dispatch :: "string list \<Rightarrow> nish_command" where
  "nish_dispatch argv =
    (let c = hd argv in
     if c = ''test'' then Test else if c = ''clear'' then Clear else if c = ''ls'' then Ls else if c = ''cat'' then Cat
     else if c = ''cd'' then Cd else if c = ''time'' then Time else if c = ''halt'' then Halt else if c = ''reboot'' then Reboot
     else if c = ''help'' then Help else if c = ''exit'' then Exit else if c = ''exec'' then Exec else Not_found)"

text \<open>A line that begins with a control character, or with a byte above 127, is ignored.\<close>

definition nish_interpret :: "string \<Rightarrow> (nish_command \<times> string list) option" where
  "nish_interpret str =
    (if str = [] \<or> schar (hd str) < 32 then Some (Ignored, [])
     else map_option (\<lambda>argv. (nish_dispatch argv, argv)) (split_to_argv str))"

definition nish_cd :: "lookup_op \<Rightarrow> string list \<Rightarrow> 'd kernel \<Rightarrow> (string option \<times> 'd kernel) option" where
  "nish_cd lk argv k =
    (if length argv = 1 then map_option (\<lambda>(r, k1). (None, k1)) (sys_chdir lk (Some ''/'') k)
     else map_option (\<lambda>(r, k1).
       (if r = err ENOENT then Some (''cd: '' @ argv ! 1 @ '': No such file or directory'' @ [CHR 0x0A])
        else if r = err ENOTDIR then Some (''cd: '' @ argv ! 1 @ '': Is no directory'' @ [CHR 0x0A]) else None, k1)) (sys_chdir lk (Some (argv ! 1)) k))"

text \<open>
  \<^verbatim>\<open>cat\<close> prints the whole buffer of the file's size, whatever the read returned; bytes the read did not
  store are whatever the allocated buffer holds (\<open>junk\<close>).
\<close>

definition nish_cat :: "lookup_op \<Rightarrow> (nat \<Rightarrow> 'd file_operations) \<Rightarrow> (nat \<Rightarrow> char) \<Rightarrow> string list \<Rightarrow> 'd kernel \<Rightarrow> (string \<times> 'd kernel) option" where
  "nish_cat lk fop junk argv k =
    (if length argv = 1 then Some ([], k)
     else do {
       (r, k1) \<leftarrow> k_namei lk (Some (argv ! 1)) k;
       case r of
         Inl e \<Rightarrow> Some (''Error: Cannot find file '' @ argv ! 1 @ ''.'' @ [CHR 0x0A], k1)
       | Inr n \<Rightarrow> do {
           v \<leftarrow> vnodes (kvfs k1) n;
           let d1 = snd (open_fs fop n (kdev k1));
           let ((res, bytes), d2) = read_fs fop n v 0 (v_size v) d1;
           let out = map (\<lambda>i. if i < length bytes then bytes ! i else junk i) [0..<unat (v_size v)];
           let d3 = snd (close_fs fop n d2);
           st \<leftarrow> iput (Some n) (kvfs k1);
           Some (out, k1\<lparr>kvfs := st, kdev := d3\<rparr>)
         }
     })"

section \<open>The device\<close>

text \<open>The buffered bytes and the command lines interpreted so far.\<close>

fun nish_feed :: "string \<Rightarrow> string \<Rightarrow> string list \<Rightarrow> string \<times> string list" where
  "nish_feed [] buf done = (buf, done)"
| "nish_feed (c # cs) buf done = (if c = NUL then nish_feed cs [] (done @ [buf]) else nish_feed cs (buf @ [c]) done)"

definition nish_write :: "string \<Rightarrow> string \<times> string list \<Rightarrow> nat \<times> string \<times> string list" where
  "nish_write buffer s =
    (let n = (if (length (fst s) + length buffer + 1) mod 2 ^ 32 > STRLEN then STRLEN - 1 - length (fst s) else length buffer)
     in (n, nish_feed (take n buffer) (fst s) (snd s)))"

section \<open>Words\<close>

text \<open>A word has no blank in it; the words of a line are separated by single spaces.\<close>

definition word :: "string \<Rightarrow> bool" where
  "word w \<longleftrightarrow> w \<noteq> [] \<and> (\<forall>c \<in> set w. \<not> blank c)"

fun unwords :: "string list \<Rightarrow> string" where
  "unwords [] = []"
| "unwords [w] = w"
| "unwords (w # ws) = w @ CHR '' '' # unwords ws"

lemma blank_space [simp]: "blank CHR '' ''"
  by (simp add: blank_def schar_def)

lemma unwords_hd: "list_all word ws \<Longrightarrow> ws \<noteq> [] \<Longrightarrow> unwords ws \<noteq> [] \<and> \<not> blank (hd (unwords ws)) \<and> \<not> blank (last (unwords ws))"
  by (induction ws rule: unwords.induct) (auto simp: word_def hd_append)

lemma ltrim_id: "s = [] \<or> \<not> blank (hd s) \<Longrightarrow> ltrim s = s"
  by (cases s) (auto simp: ltrim_def)

lemma rtrim_id: "s = [] \<or> \<not> blank (last s) \<Longrightarrow> rtrim s = s"
  by (cases s rule: rev_cases) (auto simp: rtrim_def)

lemma split_par_word:
  assumes "word w"
  shows "nish_split_par w = (w, [])"
proof -
  have "CHR '' '' \<notin> set w" using assms blank_space by (auto simp: word_def)
  then have "strchr w CHR '' '' = None" by (simp add: strchr_None)
  then show ?thesis using assms by (simp add: nish_split_par_def ltrim_id word_def)
qed

lemma split_par_words:
  assumes "word w" "list_all word ws" "ws \<noteq> []"
  shows "nish_split_par (w @ CHR '' '' # unwords ws) = (w, unwords ws)"
proof -
  have "ltrim (w @ CHR '' '' # unwords ws) = w @ CHR '' '' # unwords ws" by (rule ltrim_id) (use assms(1) in \<open>auto simp: word_def\<close>)
  moreover have "takeWhile (\<lambda>x. x \<noteq> CHR '' '') (w @ CHR '' '' # unwords ws) = w"
    using assms(1) by (auto simp: word_def takeWhile_tail takeWhile_eq_all_conv)
  then have "strchr (w @ CHR '' '' # unwords ws) CHR '' '' = Some (length w)" by (simp add: strchr_Some)
  moreover have "rtrim (ltrim (unwords ws)) = unwords ws" using unwords_hd[OF assms(2,3)] by (simp add: ltrim_id rtrim_id)
  ultimately show ?thesis by (simp add: nish_split_par_def Let_def)
qed

lemma split_loop_words:
  "list_all word ws \<Longrightarrow> ws \<noteq> [] \<Longrightarrow> i + length ws < MAX_ARGS \<Longrightarrow> split_loop (unwords ws) i = Some ws"
proof (induction ws arbitrary: i rule: unwords.induct)
  case (2 w)
  then show ?case by (subst split_loop.simps) (simp add: split_par_word)
next
  case (3 w v vs)
  then have "nish_split_par (unwords (w # v # vs)) = (w, unwords (v # vs))" "unwords (v # vs) \<noteq> []"
    using split_par_words[of w "v # vs"] unwords_hd[of "v # vs"] by simp_all
  moreover have "split_loop (unwords (v # vs)) (Suc i) = Some (v # vs)" using 3 by simp
  ultimately show ?case using 3(4) by (subst split_loop.simps) simp
qed simp



text \<open>With sixteen words or more the loop runs over the end of the argument vector.\<close>

lemma split_loop_overflow:
  "list_all word ws \<Longrightarrow> ws \<noteq> [] \<Longrightarrow> i + length ws \<ge> MAX_ARGS \<Longrightarrow> split_loop (unwords ws) i = None"
proof (induction ws arbitrary: i rule: unwords.induct)
  case (2 w)
  then show ?case by (subst split_loop.simps) (simp add: split_par_word)
next
  case (3 w v vs)
  then have "nish_split_par (unwords (w # v # vs)) = (w, unwords (v # vs))" "unwords (v # vs) \<noteq> []"
    using split_par_words[of w "v # vs"] unwords_hd[of "v # vs"] by simp_all
  moreover have "split_loop (unwords (v # vs)) (Suc i) = None" using 3 by simp
  ultimately show ?case by (subst split_loop.simps) simp
qed simp

section \<open>Modes\<close>

definition rwx :: "uint \<Rightarrow> string" where
  "rwx m = [if m AND 4 \<noteq> 0 then CHR ''r'' else CHR ''-'', if m AND 2 \<noteq> 0 then CHR ''w'' else CHR ''-'', if m AND 1 \<noteq> 0 then CHR ''x'' else CHR ''-'']"

lemma format_mode_rwx:
  "format_mode (Some v) = type_char (v_flags v) # rwx (drop_bit 6 (v_mode v)) @ rwx (drop_bit 3 (v_mode v)) @ rwx (v_mode v)"
proof -
  have "drop_bit (Suc (Suc (Suc (Suc (Suc (Suc 0)))))) m = drop_bit 6 m" for m :: uint by (simp add: eval_nat_numeral)
  then show ?thesis by (simp add: format_mode_def rwx_def numeral_3_eq_3)
qed

section \<open>The device buffer\<close>

lemma nish_feed_bound: "length (fst (nish_feed cs buf done)) \<le> length buf + length cs"
  by (induction cs buf "done" rule: nish_feed.induct) auto

text \<open>
  The device's line buffer never overflows, unless the size is so close to 2^32 that the sum wraps. But once it holds 254 bytes without a terminator, every
  further write stores nothing and returns 0: the shell accepts no command any more.
\<close>

lemma nish_write_bounded:
  assumes "length buf < STRLEN" "length buffer + STRLEN < 2 ^ 32"
  shows "length (fst (snd (nish_write buffer (buf, done)))) < STRLEN \<and>
    (length buf = STRLEN - 1 \<longrightarrow> nish_write buffer (buf, done) = (0, buf, done))"
proof -
  let ?n = "if length buf + length buffer + 1 > STRLEN then STRLEN - 1 - length buf else length buffer"
  have "(length buf + length buffer + 1) mod 2 ^ 32 = length buf + length buffer + 1" using assms by simp
  moreover have "length (take ?n buffer) + length buf < STRLEN" using assms by auto
  ultimately show ?thesis using nish_feed_bound[of "take ?n buffer" buf "done"] assms by (auto simp: nish_write_def Let_def)
qed

lemma nish_write_bounded_witness: "nish_write ''ls'' (replicate 254 CHR ''x'', []) = (0, replicate 254 CHR ''x'', [])"
  using nish_write_bounded[of "replicate 254 CHR ''x''" "''ls''" "[]"] by (simp add: STRLEN_def)

end
