(* ===== verification/Usr.thy ===== *)
theory Usr
  imports Nish
begin

text \<open>
  User programs: the shell \<^verbatim>\<open>src/usr/sh/\<close>, which sends the lines typed to the device of theory \<open>Nish\<close>, and the descriptors that
  \<^verbatim>\<open>src/usr/init/\<close> and \<^verbatim>\<open>src/usr/getty/\<close> set up. The characters a program reads are a list, what it prints is part of its result.
  \<open>None\<close> is an access outside a buffer or a read that waits for a character that does not come.
\<close>

definition SH_INPUT :: nat where "SH_INPUT = 255"

section \<open>The line editor of the shell\<close>

abbreviation BS :: char where "BS \<equiv> CHR 0x08"
abbreviation TAB :: char where "TAB \<equiv> CHR 0x09"
abbreviation LF :: char where "LF \<equiv> CHR 0x0A"
abbreviation ESC_CHR :: char where "ESC_CHR \<equiv> CHR 0x1B"

fun sh_loop :: "string \<Rightarrow> cstr \<Rightarrow> nat \<Rightarrow> string \<Rightarrow> (cstr \<times> string \<times> string) option" where
  "sh_loop [] buf i out = None"
| "sh_loop (c # cs) buf i out =
    (if i \<ge> length buf then None
     else if c = LF then Some (buf[i := NUL], out, cs)
     else if c = BS then sh_loop cs (buf[i := c]) (i - 1) (if i \<ge> 1 then out @ [BS] else out)
     else if c = TAB then sh_loop cs (buf[i := c]) (i + 1) out
     else sh_loop cs (buf[i := c]) (i + 1) (out @ [c]))"

definition sh_gets :: "string \<Rightarrow> cstr \<Rightarrow> (cstr \<times> string \<times> string) option" where
  "sh_gets input buf =
    map_option (\<lambda>(b, out, rest). (b, (ESC_CHR # ''[?25h'') @ out @ (LF # ESC_CHR # ''[?25l''), rest)) (sh_loop input buf 0 [])"

text \<open>One round of the main loop, with the state of the device the line is written to.\<close>

definition sh_turn :: "string \<Rightarrow> cstr \<Rightarrow> string \<times> string list \<Rightarrow> (string \<times> string \<times> cstr \<times> string \<times> string list) option" where
  "sh_turn input buf dev = do {
     (b, out, rest) \<leftarrow> sh_gets input buf;
     n \<leftarrow> strlen b;
     Some ((ESC_CHR # ''[97msh#'') @ (ESC_CHR # ''[m '') @ out, rest, b, snd (nish_write (take (n + 1) b) dev))
   }"

section \<open>Descriptors of init and getty\<close>

definition init_files :: "lookup_op \<Rightarrow> (nat \<Rightarrow> 'd file_operations) \<Rightarrow> 'd kernel \<Rightarrow> 'd kernel option" where
  "init_files lk fop k = do {
     (r, k1) \<leftarrow> sys_open lk fop (Some ''/dev/tty0'') O_RDWR k;
     (r, k2) \<leftarrow> sys_dup fop 0 k1;
     (r, k3) \<leftarrow> sys_dup fop 0 k2;
     Some k3
   }"

text \<open>The buffer for the name of the device has 15 characters.\<close>

definition getty_device :: "string \<Rightarrow> string option" where
  "getty_device arg = (if length (''/dev/tty'' @ arg) + 1 > 15 then None else Some (''/dev/tty'' @ arg))"

definition getty_files :: "lookup_op \<Rightarrow> (nat \<Rightarrow> 'd file_operations) \<Rightarrow> string list \<Rightarrow> 'd kernel \<Rightarrow> 'd kernel option" where
  "getty_files lk fop argv k =
    (if length argv < 2 then Some k
     else do {
       device \<leftarrow> getty_device (argv ! 1);
       (r, k1) \<leftarrow> sys_close fop 0 k;
       (r, k2) \<leftarrow> sys_open lk fop (Some device) O_RDWR k1;
       (r, k3) \<leftarrow> sys_dup2 fop 0 1 k2;
       (r, k4) \<leftarrow> sys_dup2 fop 0 2 k3;
       Some k4
     })"

section \<open>Lines\<close>

text \<open>What the characters typed make of a line: a backspace removes the last character.\<close>

fun edit :: "string \<Rightarrow> string \<Rightarrow> string" where
  "edit acc [] = acc"
| "edit acc (c # cs) = edit (if c = BS then butlast acc else acc @ [c]) cs"

lemma take_update: "take i buf = acc \<Longrightarrow> i < length buf \<Longrightarrow> take (Suc i) (buf[i := c]) = acc @ [c]"
  by (simp add: take_Suc_conv_app_nth)

lemma sh_loop_edits:
  assumes "LF \<notin> set line" "\<And>k. k \<le> length line \<Longrightarrow> length (edit acc (take k line)) < length buf" "take (length acc) buf = acc"
  shows "\<exists>b out'. sh_loop (line @ LF # rest) buf (length acc) out = Some (b, out', rest) \<and> length b = length buf \<and>
    take (Suc (length (edit acc line))) b = edit acc line @ [NUL]"
  using assms
proof (induction line arbitrary: acc buf out)
  case Nil
  then show ?case using Nil.prems(2)[of 0] by (simp add: take_update)
next
  case (Cons c cs)
  let ?a = "if c = BS then butlast acc else acc @ [c]"
  let ?b = "buf[length acc := c]"
  have l: "length acc < length buf" using Cons.prems(2)[of 0] by simp
  have f: "length (edit ?a (take k cs)) < length ?b" if "k \<le> length cs" for k using Cons.prems(2)[of "Suc k"] that by simp
  have t: "take (length ?a) ?b = ?a"
  proof (cases "c = BS")
    case True
    then have "take (length acc - 1) buf = butlast acc" using Cons.prems(3) by (metis butlast_take l less_imp_le_nat)
    then show ?thesis using True by simp
  next
    case False
    then show ?thesis using take_update[OF Cons.prems(3) l, of c] by simp
  qed
  have n: "LF \<notin> set cs" "c \<noteq> LF" using Cons.prems(1) by auto
  from Cons.IH[OF n(1) f t] show ?case using l n(2) by (auto split: if_splits)
qed

lemma nish_feed_line: "NUL \<notin> set cs \<Longrightarrow> nish_feed (cs @ [NUL]) buf done = ([], done @ [buf @ cs])"
  by (induction cs arbitrary: buf) auto

lemma nish_feed_part: "NUL \<notin> set cs \<Longrightarrow> nish_feed cs buf done = (buf @ cs, done)"
  by (induction cs arbitrary: buf) auto

lemma edit_set: "set (edit acc cs) \<subseteq> set acc \<union> set cs"
proof (induction cs arbitrary: acc)
  case (Cons c cs)
  then show ?case using Cons.IH[of "butlast acc"] Cons.IH[of "acc @ [c]"] by (auto dest: in_set_butlastD)
qed simp

lemma sh_turn_sends:
  assumes "LF \<notin> set line" "NUL \<notin> set line" "\<And>k. k \<le> length line \<Longrightarrow> length (edit [] (take k line)) < length buf"
  shows "\<exists>out b. sh_turn (line @ LF # rest) buf dev = Some (out, rest, b, snd (nish_write (edit [] line @ [NUL]) dev)) \<and> length b = length buf"
proof -
  let ?e = "edit [] line"
  obtain b out where s: "sh_loop (line @ LF # rest) buf 0 [] = Some (b, out, rest)" "length b = length buf" "take (Suc (length ?e)) b = ?e @ [NUL]"
    using sh_loop_edits[of line "[]" buf rest "[]"] assms by auto
  have b: "b = ?e @ NUL # drop (Suc (length ?e)) b" using append_take_drop_id[of "Suc (length ?e)" b] s(3) by simp
  have nn: "NUL \<notin> set ?e" using edit_set[of "[]" line] assms(2) by auto
  have "content b = ?e" by (subst b, rule content_append_NUL[OF nn])
  moreover have "terminated b" by (subst b) (simp add: terminated_def)
  ultimately have "strlen b = Some (length ?e)" by (simp add: strlen_eq)
  then show ?thesis using s by (simp add: sh_turn_def sh_gets_def)
qed

text \<open>
  C24: a line typed into the shell, with its backspaces, reaches the built-in shell of the kernel: exactly the edited line is
  interpreted, as one command, and both are ready for the next line. The line may have at most 253 characters; the buffers of both sides
  are not left.
\<close>

theorem shell_line_interpreted:
  assumes "LF \<notin> set line" "NUL \<notin> set line" "length buf = SH_INPUT" "\<And>k. k \<le> length line \<Longrightarrow> length (edit [] (take k line)) < SH_INPUT"
    and "length (edit [] line) < STRLEN - 1"
  shows "\<exists>out b. sh_turn (line @ LF # rest) buf ([], done) = Some (out, rest, b, [], done @ [edit [] line]) \<and> length b = SH_INPUT"
proof -
  have "NUL \<notin> set (edit [] line)" using edit_set[of "[]" line] assms(2) by auto
  then have "nish_write (edit [] line @ [NUL]) ([], done) = (length (edit [] line @ [NUL]), [], done @ [edit [] line])"
    using assms(5) nish_feed_line[of "edit [] line" "[]" "done"] by (simp add: nish_write_def STRLEN_def)
  then show ?thesis using sh_turn_sends[of line buf rest "([], done)"] assms by auto
qed

theorem shell_line_interpreted_witness:
  "\<exists>out b. sh_turn (''la'' @ [BS] @ ''s'' @ LF # ''cd'') (replicate 255 NUL) ([], []) = Some (out, ''cd'', b, [], [''ls'']) \<and> length b = 255"
proof -
  have "length (edit [] (take k (''la'' @ [BS] @ ''s''))) < SH_INPUT" if "k \<le> length (''la'' @ [BS] @ ''s'')" for k
    using that by (auto simp: SH_INPUT_def le_Suc_eq)
  then show ?thesis using shell_line_interpreted[of "''la'' @ [BS] @ ''s''" "replicate 255 NUL" "''cd''" "[]"] by (simp add: SH_INPUT_def STRLEN_def)
qed

text \<open>
  A line of 254 characters fits the buffer of the shell, but not the one of the device together with its terminator: the device keeps
  the line without interpreting it, and no command reaches it any more.
\<close>

lemma shell_line_blocks:
  assumes "LF \<notin> set line" "NUL \<notin> set line" "length buf = SH_INPUT" "\<And>k. k \<le> length line \<Longrightarrow> length (edit [] (take k line)) < SH_INPUT"
    and "length (edit [] line) = STRLEN - 1"
  shows "\<exists>out b. sh_turn (line @ LF # rest) buf ([], done) = Some (out, rest, b, edit [] line, done)"
proof -
  have "NUL \<notin> set (edit [] line)" using edit_set[of "[]" line] assms(2) by auto
  then have "snd (nish_write (edit [] line @ [NUL]) ([], done)) = (edit [] line, done)"
    using assms(5) nish_feed_part[of "edit [] line" "[]" "done"] by (simp add: nish_write_def STRLEN_def)
  then show ?thesis using sh_turn_sends[of line buf rest "([], done)"] assms by auto
qed

section \<open>The terminal of getty\<close>

text \<open>What the steps below leave as it is.\<close>

definition same_env :: "'d kernel \<Rightarrow> 'd kernel \<Rightarrow> bool" where
  "same_env k k1 \<longleftrightarrow> kvfs k1 = kvfs k \<and> next_file k1 = next_file k \<and> root_vnode k1 = root_vnode k \<and> t_cred (cur k1) = t_cred (cur k)"

lemma close_shared:
  assumes ok: "tables_ok k" and fd: "fd < NR_OPEN" and "t_files (cur k) ! fd = Some g" "fstore k g = Some y" "1 < unat (f_count y)"
  shows "\<exists>k1. sys_close fop (int fd) k = Some (0, k1) \<and> tables_ok k1 \<and> t_files (cur k1) = (t_files (cur k))[fd := None] \<and>
    fstore k1 = (fstore k)(g \<mapsto> y\<lparr>f_count := f_count y - 1\<rparr>) \<and> same_env k k1"
proof -
  let ?u = "\<lambda>t. t\<lparr>t_close_on_exec := clear_cloexec fd (t_close_on_exec t), t_files := (t_files t)[fd := None]\<rparr>"
  have s: "tables_ok (set_cur ?u k)" "cur (set_cur ?u k) = ?u (cur k)" "fstore (set_cur ?u k) = fstore k" "next_file (set_cur ?u k) = next_file k"
    "kvfs (set_cur ?u k) = kvfs k"
    by (rule set_cur_slot[OF ok fd, of ?u None]; simp)+
  have c: "f_count y \<noteq> 0" "f_count y - 1 \<noteq> 0" using assms(5) by auto
  let ?k1 = "set_file g (y\<lparr>f_count := f_count y - 1\<rparr>) (set_cur ?u k)"
  have "sys_close fop (int fd) k = Some (0, ?k1)" using assms fd s(3) c by (simp add: sys_close_def put_file_def)
  moreover have "cur ?k1 = ?u (cur k)" using s(2) by (simp add: set_file_def cur_def)
  moreover have "tables_ok ?k1" using s(1) by (simp add: set_file_def tables_ok_def)
  ultimately show ?thesis using s by (auto simp: set_file_def same_env_def) (simp add: set_cur_def)
qed

lemma open_found:
  assumes ok: "tables_ok k" and fd: "t_files (cur k) ! 0 = None"
    and "namei lk (root_vnode k) (t_cred (cur k)) (Some name) (kvfs k) = Some (Inr n, st)" "vnodes st n = Some v"
  shows "\<exists>k1 x. sys_open lk fop (Some name) O_RDWR k = Some (0, k1) \<and> tables_ok k1 \<and> t_files (cur k1) = (t_files (cur k))[0 := Some (next_file k)] \<and>
    fstore k1 = (fstore k)(next_file k \<mapsto> x) \<and> f_node x = n \<and> f_count x = 1 \<and> f_flags x = FMODE_READ OR FMODE_WRITE"
proof -
  have "t_files (cur k) \<noteq> []" using ok cur_in[OF ok] by (auto simp: tables_ok_def NR_OPEN_def)
  then have z: "free_fd (t_files (cur k)) = 0" using fd by (cases "t_files (cur k)") (auto simp: free_fd_def take_Cons' split: nat.splits)
  let ?x = "\<lparr>f_fd = 0, f_flags = open_flags O_RDWR, f_node = n, f_offset = 0, f_count = 1\<rparr>"
  let ?k = "set_file (next_file k) ?x (k\<lparr>kvfs := st, next_file := Suc (next_file k), kdev := snd (open_fs fop n (kdev k))\<rparr>)"
  let ?u = "\<lambda>t. t\<lparr>t_close_on_exec := clear_cloexec 0 (t_close_on_exec t), t_files := (t_files t)[0 := Some (next_file k)]\<rparr>"
  have "tables_ok ?k" "cur ?k = cur k" using ok by (simp_all add: set_file_def tables_ok_def cur_def)
  note s = set_cur_slot[OF this(1), of 0 ?u "Some (next_file k)"] this(2)
  have "sys_open lk fop (Some name) O_RDWR k = Some (0, set_cur ?u ?k)"
    using assms z by (simp add: sys_open_def k_namei_def NR_OPEN_def O_RDWR_def O_APPEND_def Let_def)
  moreover have "open_flags O_RDWR = FMODE_READ OR FMODE_WRITE" by (simp add: open_flags_def O_RDWR_def FMODE_READ_def FMODE_WRITE_def)
  ultimately show ?thesis using s by (intro exI[of _ "set_cur ?u ?k"] exI[of _ ?x]) (simp add: NR_OPEN_def set_file_def)
qed

lemma dup2_shared:
  assumes ok: "tables_ok k" and fd: "fd < NR_OPEN" "0 < fd" and "t_files (cur k) ! fd = Some g" "fstore k g = Some y" "1 < unat (f_count y)"
    and "t_files (cur k) ! 0 = Some f" "fstore k f = Some x" "f \<noteq> g"
  shows "\<exists>k1. sys_dup2 fop 0 (int fd) k = Some (int fd, k1) \<and> tables_ok k1 \<and> t_files (cur k1) = (t_files (cur k))[fd := Some f] \<and>
    fstore k1 = (fstore k)(g \<mapsto> y\<lparr>f_count := f_count y - 1\<rparr>, f \<mapsto> x\<lparr>f_count := f_count x + 1\<rparr>)"
proof -
  obtain k1 where c: "sys_close fop (int fd) k = Some (0, k1)" "tables_ok k1" "t_files (cur k1) = (t_files (cur k))[fd := None]"
      "fstore k1 = (fstore k)(g \<mapsto> y\<lparr>f_count := f_count y - 1\<rparr>)" using close_shared[OF ok fd(1) assms(4-6)] by blast
  let ?u = "\<lambda>t. t\<lparr>t_close_on_exec := clear_cloexec fd (t_close_on_exec t), t_files := (t_files t)[fd := Some f]\<rparr>"
  note s = set_cur_slot[OF c(2) fd(1), of ?u "Some f"]
  have "sys_dup2 fop 0 (int fd) k = Some (int fd, set_file f (x\<lparr>f_count := f_count x + 1\<rparr>) (set_cur ?u k1))"
    using assms c(1,3,4) fd by (simp add: sys_dup2_def NR_OPEN_def)
  moreover have "cur (set_file f (x\<lparr>f_count := f_count x + 1\<rparr>) (set_cur ?u k1)) = ?u (cur k1)" using s(2) by (simp add: set_file_def cur_def)
  moreover have "tables_ok (set_file f (x\<lparr>f_count := f_count x + 1\<rparr>) (set_cur ?u k1))" using s(1) by (simp add: set_file_def tables_ok_def)
  ultimately show ?thesis using s(3) c(3,4) by (simp add: set_file_def)
qed

text \<open>
  C23: \<^verbatim>\<open>getty\<close>, started with the three descriptors of its parent, leaves all of them on the terminal it was given: they share one new
  file, open for reading and writing and counted three times, and the parent's file loses exactly the three references. The other
  descriptors stay as they are.
\<close>

theorem getty_std_files:
  assumes "files_inv k" "t_files (cur k) ! 0 = Some g" "t_files (cur k) ! 1 = Some g" "t_files (cur k) ! 2 = Some g"
    and "fstore k g = Some y" "3 < unat (f_count y)" "length arg \<le> 6"
    and "namei lk (root_vnode k) (t_cred (cur k)) (Some (''/dev/tty'' @ arg)) (kvfs k) = Some (Inr n, st)" "vnodes st n = Some v"
  shows "\<exists>k' f x y'. getty_files lk fop [''getty'', arg] k = Some k' \<and>
    t_files (cur k') = (t_files (cur k))[0 := Some f, 1 := Some f, 2 := Some f] \<and>
    fstore k' = (fstore k)(g \<mapsto> y', f \<mapsto> x) \<and> fstore k f = None \<and> f_node x = n \<and> f_flags x = FMODE_READ OR FMODE_WRITE \<and> f_count x = 3 \<and>
    unat (f_count y') + 3 = unat (f_count y)"
proof -
  have t0: "tables_ok k" using assms(1) by (simp add: files_inv_def)
  have len: "length (t_files (cur k)) = 32" using t0 cur_in[OF t0] by (simp add: tables_ok_def NR_OPEN_def)
  let ?f = "next_file k" and ?c = "f_count y"
  have fg: "?f \<noteq> g" "fstore k ?f = None" using assms(1,5) by (auto simp: files_inv_def counts_ok_def split: option.splits)
  have c1: "unat (?c - 1) = unat ?c - 1" using assms(6) by (intro unat_minus_one) auto
  have c2: "unat (?c - 1 - 1) = unat ?c - 2" using assms(6) c1 by (subst unat_minus_one) auto
  have c3: "unat (?c - 1 - 1 - 1) = unat ?c - 3" using assms(6) c2 by (subst unat_minus_one) auto
  obtain k1 where k1: "sys_close fop (int 0) k = Some (0, k1)" "tables_ok k1" "t_files (cur k1) = (t_files (cur k))[0 := None]"
      "fstore k1 = (fstore k)(g \<mapsto> y\<lparr>f_count := ?c - 1\<rparr>)" "same_env k k1"
    using close_shared[OF t0 _ assms(2,5), of fop] assms(6) by (auto simp: NR_OPEN_def)
  have e: "next_file k1 = ?f" "namei lk (root_vnode k1) (t_cred (cur k1)) (Some (''/dev/tty'' @ arg)) (kvfs k1) = Some (Inr n, st)"
    using k1(5) assms(8) by (simp_all add: same_env_def)
  have n1: "t_files (cur k1) ! 0 = None" using k1(3) len by simp
  obtain k2 x where k2: "sys_open lk fop (Some (''/dev/tty'' @ arg)) O_RDWR k1 = Some (0, k2)" "tables_ok k2"
      "t_files (cur k2) = (t_files (cur k1))[0 := Some ?f]" "fstore k2 = (fstore k1)(?f \<mapsto> x)"
      "f_node x = n" "f_count x = 1" "f_flags x = FMODE_READ OR FMODE_WRITE"
    using open_found[OF k1(2) n1 e(2) assms(9), of fop] unfolding e(1) by blast
  have g2: "fstore k2 g = Some (y\<lparr>f_count := ?c - 1\<rparr>)" "fstore k2 ?f = Some x" "t_files (cur k2) ! 0 = Some ?f" "t_files (cur k2) ! 1 = Some g"
    using k1(3,4) k2(3,4) fg assms(3) len by simp_all
  have l: "1 < unat (f_count (y\<lparr>f_count := ?c - 1\<rparr>))" "1 < unat (f_count (y\<lparr>f_count := ?c - 1 - 1\<rparr>))"
    using c1 c2 assms(6) by simp_all
  obtain k3 where k3: "sys_dup2 fop 0 (int 1) k2 = Some (int 1, k3)" "tables_ok k3" "t_files (cur k3) = (t_files (cur k2))[1 := Some ?f]"
      "fstore k3 = (fstore k2)(g \<mapsto> y\<lparr>f_count := ?c - 1 - 1\<rparr>, ?f \<mapsto> x\<lparr>f_count := 2\<rparr>)"
    using dup2_shared[OF k2(2) _ _ g2(4,1) l(1) g2(3,2) fg(1), of fop] k2(6) by (auto simp: NR_OPEN_def)
  have g3: "fstore k3 g = Some (y\<lparr>f_count := ?c - 1 - 1\<rparr>)" "fstore k3 ?f = Some (x\<lparr>f_count := 2\<rparr>)" "t_files (cur k3) ! 0 = Some ?f" "t_files (cur k3) ! 2 = Some g"
    using k1(3) k2(3) k3(3,4) fg assms(4) len by simp_all
  obtain k4 where k4: "sys_dup2 fop 0 (int 2) k3 = Some (int 2, k4)" "t_files (cur k4) = (t_files (cur k3))[2 := Some ?f]"
      "fstore k4 = (fstore k3)(g \<mapsto> y\<lparr>f_count := ?c - 1 - 1 - 1\<rparr>, ?f \<mapsto> x\<lparr>f_count := 3\<rparr>)"
    using dup2_shared[OF k3(2) _ _ g3(4,1) l(2) g3(3,2) fg(1), of fop] by (auto simp: NR_OPEN_def)
  have "getty_files lk fop [''getty'', arg] k = Some k4" using k1(1) k2(1) k3(1) k4(1) assms(7) by (simp add: getty_files_def getty_device_def)
  moreover have "t_files (cur k4) = (t_files (cur k))[0 := Some ?f, 1 := Some ?f, 2 := Some ?f]" using k1(3) k2(3) k3(3) k4(2) by simp
  moreover have "fstore k4 = (fstore k)(g \<mapsto> y\<lparr>f_count := ?c - 1 - 1 - 1\<rparr>, ?f \<mapsto> x\<lparr>f_count := 3\<rparr>)"
    using k1(4) k2(4) k3(4) k4(3) fg(1) by (simp add: fun_upd_twist)
  ultimately show ?thesis using fg(2) k2(5,7) c3 assms(6)
    by (intro exI[of _ k4] exI[of _ ?f] exI[of _ "x\<lparr>f_count := 3\<rparr>"] exI[of _ "y\<lparr>f_count := ?c - 1 - 1 - 1\<rparr>"]) simp
qed

text \<open>Two tasks, as after a fork, that share a file by their first three descriptors.\<close>

definition demo_shared :: "unit kernel" where
  "demo_shared = demo_kernel\<lparr>tasks := replicate 2 (demo_task (replicate 3 (Some 0) @ replicate 29 None)) @ replicate 62 (demo_task (replicate 32 None)),
     kvfs := demo_tree, fstore := [0 \<mapsto> demo_file\<lparr>f_count := 6\<rparr>]\<rparr>"

lemma demo_shared_inv: "files_inv demo_shared"
proof -
  have c: "count_list (replicate m (None :: nat option)) (Some f) = 0" for m f by (simp add: count_list_0_iff)
  have t3: "count_list (replicate 3 (Some (0 :: nat))) (Some f) = (if f = 0 then 3 else 0)" for f by (simp add: numeral_3_eq_3)
  have tf: "t_files (demo_task fs) = fs" for fs by (simp add: demo_task_def)
  have d: "count_list (t_files (demo_task (replicate 3 (Some 0) @ replicate 29 None))) (Some f) = (if f = 0 then 3 else 0)" for f
    unfolding tf count_list_append c t3 by simp
  have two: "replicate 2 t @ ts = t # t # ts" for t :: task and ts by (simp add: numeral_2_eq_2)
  have r: "refs (tasks demo_shared) f = (if f = 0 then 6 else 0)" for f
    unfolding demo_shared_def by (simp add: two d)
  have "tables_ok demo_shared"
    by (auto simp: tables_ok_def demo_shared_def demo_kernel_def NR_TASKS_def NR_OPEN_def tf)
  moreover have "counts_ok demo_shared"
  proof (rule counts_okI)
    have s: "fstore demo_shared = [0 \<mapsto> demo_file\<lparr>f_count := 6\<rparr>]" "next_file demo_shared = 1" by (simp_all add: demo_shared_def demo_kernel_def)
    show "refs (tasks demo_shared) f = 0" if "fstore demo_shared f = None" for f using that unfolding s r by (auto split: if_splits)
    show "f < next_file demo_shared \<and> refs (tasks demo_shared) f \<noteq> 0 \<and> unat (f_count x) = refs (tasks demo_shared) f"
      if "fstore demo_shared f = Some x" for f x using that unfolding s r by (auto split: if_splits)
  qed
  ultimately show ?thesis by (simp add: files_inv_def)
qed

theorem getty_std_files_witness:
  "\<exists>k' f. getty_files demo_lk demo_fops [''getty'', ''0''] demo_shared = Some k' \<and>
    t_files (cur k') = [Some f, Some f, Some f] @ replicate 29 None"
proof -
  have c: "t_files (cur demo_shared) = [Some 0, Some 0, Some 0] @ replicate 29 None" "t_cred (cur demo_shared) = demo_cred" "kvfs demo_shared = demo_tree"
      "root_vnode demo_shared = 3" "fstore demo_shared 0 = Some (demo_file\<lparr>f_count := 6\<rparr>)"
    by (simp_all add: demo_shared_def demo_kernel_def cur_def demo_task_def numeral_2_eq_2 numeral_3_eq_3)
  have "namei demo_lk 3 demo_cred (Some (''/dev/tty'' @ ''0'')) demo_tree = Some (Inr 5, inc_all (set [4] \<union> {5}) demo_tree)"
    by (rule namei_walk[OF demo_walk[of "''dev''"] demo_plain(1) demo_searchable _ _ _ demo_plain(3), where f = "''tty0''"])
      (auto simp: demo_cred_def name_ok_def lk_finds_def demo_lk_def)
  then have n: "namei demo_lk (root_vnode demo_shared) (t_cred (cur demo_shared)) (Some (''/dev/tty'' @ ''0'')) (kvfs demo_shared) =
      Some (Inr 5, inc_all (set [4] \<union> {5}) demo_tree)" unfolding c .
  obtain v where v: "vnodes (inc_all (set [4] \<union> {5}) demo_tree) 5 = Some v" by (simp add: inc_all_def demo_tree_def)
  show ?thesis
    using getty_std_files[OF demo_shared_inv _ _ _ c(5) _ _ n v, of demo_fops] by (force simp: c(1) nth_Cons')
qed

text \<open>The first process opens the first terminal by its three descriptors.\<close>

lemma dup_free:
  assumes ok: "tables_ok k" and z: "free_fd (t_files (cur k)) = fd" "fd < NR_OPEN" "t_files (cur k) ! fd = None"
    and "t_files (cur k) ! 0 = Some f" "fstore k f = Some x"
  shows "\<exists>k1. sys_dup fop 0 k = Some (int fd, k1) \<and> tables_ok k1 \<and> t_files (cur k1) = (t_files (cur k))[fd := Some f] \<and>
    fstore k1 = (fstore k)(f \<mapsto> x\<lparr>f_count := f_count x + 1\<rparr>)"
proof -
  let ?u = "\<lambda>t. t\<lparr>t_close_on_exec := clear_cloexec fd (t_close_on_exec t), t_files := (t_files t)[fd := Some f]\<rparr>"
  note s = set_cur_slot[OF ok z(2), of ?u "Some f"]
  have "sys_close fop (int fd) k = Some (err EBADF, k)" using z by (simp add: sys_close_def)
  then have "sys_dup fop 0 k = Some (int fd, set_file f (x\<lparr>f_count := f_count x + 1\<rparr>) (set_cur ?u k))"
    using assms by (simp add: sys_dup_def sys_dup2_def)
  moreover have "cur (set_file f (x\<lparr>f_count := f_count x + 1\<rparr>) (set_cur ?u k)) = ?u (cur k)" using s(2) by (simp add: set_file_def cur_def)
  moreover have "tables_ok (set_file f (x\<lparr>f_count := f_count x + 1\<rparr>) (set_cur ?u k))" using s(1) by (simp add: set_file_def tables_ok_def)
  ultimately show ?thesis using s(3) by (simp add: set_file_def)
qed

lemma init_std_files:
  assumes ok: "tables_ok k" and z: "t_files (cur k) = replicate NR_OPEN None"
    and "namei lk (root_vnode k) (t_cred (cur k)) (Some ''/dev/tty0'') (kvfs k) = Some (Inr n, st)" "vnodes st n = Some v"
  shows "\<exists>k' f x. init_files lk fop k = Some k' \<and> t_files (cur k') = replicate 3 (Some f) @ replicate 29 None \<and> fstore k' f = Some x \<and> f_node x = n \<and> f_count x = 3"
proof -
  let ?f = "next_file k"
  have n0: "t_files (cur k) ! 0 = None" using z by (simp add: NR_OPEN_def)
  obtain k1 x where k1: "sys_open lk fop (Some ''/dev/tty0'') O_RDWR k = Some (0, k1)" "tables_ok k1" "t_files (cur k1) = (t_files (cur k))[0 := Some ?f]"
      "fstore k1 = (fstore k)(?f \<mapsto> x)" "f_node x = n" "f_count x = 1" using open_found[OF ok n0 assms(3,4), of fop] by blast
  have f1: "t_files (cur k1) = Some ?f # replicate 31 None" using k1(3) z by (simp add: NR_OPEN_def numeral_eq_Suc)
  obtain k2 where k2: "sys_dup fop 0 k1 = Some (int 1, k2)" "tables_ok k2" "t_files (cur k2) = (t_files (cur k1))[1 := Some ?f]"
      "fstore k2 = (fstore k1)(?f \<mapsto> x\<lparr>f_count := 2\<rparr>)"
    using dup_free[OF k1(2), of 1 ?f x fop] f1 k1(4,6) by (auto simp: free_fd_def NR_OPEN_def)
  have f2: "t_files (cur k2) = Some ?f # Some ?f # replicate 30 None" using k2(3) f1 by (simp add: numeral_eq_Suc)
  obtain k3 where k3: "sys_dup fop 0 k2 = Some (int 2, k3)" "t_files (cur k3) = (t_files (cur k2))[2 := Some ?f]"
      "fstore k3 = (fstore k2)(?f \<mapsto> x\<lparr>f_count := 3\<rparr>)"
    using dup_free[OF k2(2), of 2 ?f "x\<lparr>f_count := 2\<rparr>" fop] f2 k2(4) by (auto simp: free_fd_def NR_OPEN_def)
  have "init_files lk fop k = Some k3" using k1(1) k2(1) k3(1) by (simp add: init_files_def)
  moreover have "t_files (cur k3) = replicate 3 (Some ?f) @ replicate 29 None" using k3(2) f2 by (simp add: numeral_eq_Suc)
  ultimately show ?thesis using k3(3) k1(5) by (intro exI[of _ k3] exI[of _ ?f] exI[of _ "x\<lparr>f_count := 3\<rparr>"]) simp
qed

end
