(* ===== verification/Timekeeping.thy ===== *)
theory Timekeeping
  imports Tasks
begin

text \<open>
  The clock: \<^verbatim>\<open>src/kernel/time.c\<close>. The registers of the real time clock are a function from register
  numbers to bytes. Values of type \<^verbatim>\<open>int\<close> and \<^verbatim>\<open>long\<close> are integers; the theorem on \<open>mktime\<close> bounds its
  result below \<open>2 ^ 31\<close>, so that no step of the computation overflows there.
\<close>

definition tick_rate :: nat where "tick_rate = 50"
definition ktimezone :: int where "ktimezone = 1"
definition kdaylight_saving_time :: int where "kdaylight_saving_time = 1"

record tm =
  tm_sec :: int
  tm_min :: int
  tm_hour :: int
  tm_mday :: int
  tm_mon :: int
  tm_year :: int
  tm_wday :: int
  tm_yday :: int
  tm_isdst :: int

text \<open>The three bytes for the timer: the command port and twice the data port.\<close>

definition set_pic_timer :: "int \<Rightarrow> (nat \<times> uchar) list" where
  "set_pic_timer freq =
    (let divisor = 1193180 div freq in
     [(0x43, 0x36), (0x40, word_of_int (divisor mod 256)), (0x40, word_of_int (divisor div 256 mod 256))])"

definition timer_handler :: "uint \<Rightarrow> uint \<Rightarrow> uint \<Rightarrow> uint \<times> 'd kernel \<Rightarrow> uint \<times> 'd kernel" where
  "timer_handler eip esp ebp tk = (fst tk + 1, switch_task eip esp ebp (snd tk))"

section \<open>Reading the clock\<close>

definition DateBCD :: "uchar \<Rightarrow> bool \<Rightarrow> uchar" where
  "DateBCD value is_bcd =
    (if \<not> is_bcd then value
     else let tmp = unat value mod 16; v = unat value div 16 in
       if tmp > 9 \<or> v mod 16 > 9 then - 1 else word_of_nat (tmp + 10 * (v mod 16)))"

text \<open>The division of the source truncates; its operands are never negative here.\<close>

definition yday :: "int \<Rightarrow> int \<Rightarrow> int \<Rightarrow> int" where
  "yday year mon mday =
    (let d = (mon - 1) * 30;
         d = (if mon > 2 then d - 2 else d);
         d = (if mon < 7 then d + mon div 2 else if mon = 7 then d + 3 else d + ((mon - 7) div 2 + 4));
         d = d + (mday - 1)
     in if ((year mod 4 = 0 \<and> year mod 100 \<noteq> 0) \<or> year mod 400 = 0) \<and> mon > 2 then d + 1 else d)"

definition getrtctime :: "(nat \<Rightarrow> uchar) \<Rightarrow> tm" where
  "getrtctime cmos =
    (let is_bcd = drop_bit 2 (cmos 0x0B AND 4) = 0; reg = (\<lambda>r. uint (DateBCD (cmos r) is_bcd)) in
     \<lparr>tm_sec = reg 0, tm_min = reg 2, tm_hour = reg 4, tm_mday = reg 7, tm_mon = reg 8, tm_year = reg 9, tm_wday = - 1,
      tm_yday = yday (reg 9) (reg 8) (reg 7), tm_isdst = kdaylight_saving_time\<rparr>)"

section \<open>Seconds since 1970\<close>

function leap_days :: "int \<Rightarrow> int" where
  "leap_days i =
     (if i < 1970 then 0
      else (if (i mod 4 = 0 \<and> i mod 100 \<noteq> 0) \<or> i mod 400 = 0 then 1 else 0) + leap_days (i - 1))"
  by pat_completeness auto
termination by (relation "measure (\<lambda>i. nat (i - 1969))") auto

declare leap_days.simps [simp del]

definition mktime :: "tm \<Rightarrow> int" where
  "mktime t =
    (let days = (if tm_year t \<ge> 70 then (tm_year t - 70) * 365 else (tm_year t + 30) * 365);
         i = tm_year t + 1899;
         i = (if i < 1969 then i + 100 else i);
         days = days + leap_days i + tm_yday t
     in ((days * 24 + tm_hour t) * 60 + tm_min t) * 60 + tm_sec t)"

definition removetimezone :: "tm \<Rightarrow> int \<times> tm" where
  "removetimezone t = (ktimezone + tm_isdst t, t\<lparr>tm_hour := tm_hour t - ktimezone - tm_isdst t\<rparr>)"

definition time :: "(nat \<Rightarrow> uchar) \<Rightarrow> int" where
  "time cmos = mktime (snd (removetimezone (getrtctime cmos)))"

text \<open>The busy loop of \<^verbatim>\<open>sleep\<close> that began at \<open>tstart\<close> ends at the first tick for which this holds.\<close>

definition sleep_ticks :: "uint \<Rightarrow> uint" where
  "sleep_ticks msecs = (of_nat tick_rate * msecs) div 1000"

definition sleep_done :: "uint \<Rightarrow> uint \<Rightarrow> uint \<Rightarrow> bool" where
  "sleep_done tstart msecs ticks \<longleftrightarrow> \<not> ticks - sleep_ticks msecs < tstart"

section \<open>The calendar\<close>

definition leap :: "int \<Rightarrow> bool" where
  "leap y \<longleftrightarrow> (y mod 4 = 0 \<and> y mod 100 \<noteq> 0) \<or> y mod 400 = 0"

definition month_days :: "int \<Rightarrow> int \<Rightarrow> int" where
  "month_days y mon = (if mon = 2 then (if leap y then 29 else 28) else if mon \<in> {4, 6, 9, 11} then 30 else 31)"

definition year_days :: "int \<Rightarrow> int" where
  "year_days y = (if leap y then 366 else 365)"

definition days_until :: "int \<Rightarrow> int \<Rightarrow> int \<Rightarrow> int" where
  "days_until y mon day = (\<Sum>k \<in> {1970..<y}. year_days k) + (\<Sum>k \<in> {1..<mon}. month_days y k) + (day - 1)"

definition full_year :: "int \<Rightarrow> int" where
  "full_year yy = (if yy \<ge> 70 then 1900 + yy else 2000 + yy)"

lemma atLeastLessThan_upto: "{i..<j} = set [i..j - 1]" for i j :: int
  by auto

lemma int_range_Suc: "a \<le> b \<Longrightarrow> {a..<b + 1} = insert b {a..<b :: int}"
  by auto

lemma year_sum:
  assumes "1970 \<le> y" shows "(\<Sum>k \<in> {1970..<y}. year_days k) = (y - 1970) * 365 + leap_days (y - 1)"
  using assms
proof (induction y rule: int_ge_induct)
  case base
  then show ?case by (subst leap_days.simps) simp
next
  case (step y)
  have "leap_days y = (if leap y then 1 else 0) + leap_days (y - 1)" using step(1) by (subst leap_days.simps) (simp add: leap_def)
  moreover have "(\<Sum>k \<in> {1970..<y + 1}. year_days k) = year_days y + (\<Sum>k \<in> {1970..<y}. year_days k)"
    by (subst int_range_Suc[OF step(1)]) simp
  ultimately show ?case using step(2) by (auto simp: year_days_def[of y])
qed

lemma leap_full: "0 \<le> yy \<Longrightarrow> yy < 100 \<Longrightarrow> leap (full_year yy) \<longleftrightarrow> (yy mod 4 = 0 \<and> yy mod 100 \<noteq> 0) \<or> yy mod 400 = 0"
proof (cases "yy \<ge> 70")
  case True
  assume b: "0 \<le> yy" "yy < 100"
  have "(1900 + yy) mod 4 = yy mod 4" "(1900 + yy) mod 100 = yy mod 100"
    using mod_mult_self1[of yy 475 4] mod_mult_self1[of yy 19 100] by (simp_all add: add.commute)
  moreover have "(1900 + yy) mod 400 = yy + 300" using mod_mult_self1[of "yy + 300" 4 400] True b by (simp add: add.commute)
  ultimately show ?thesis using True b by (simp add: leap_def full_year_def)
next
  case False
  have "(2000 + yy) mod 4 = yy mod 4" "(2000 + yy) mod 100 = yy mod 100" "(2000 + yy) mod 400 = yy mod 400"
    using mod_mult_self1[of yy 500 4] mod_mult_self1[of yy 20 100] mod_mult_self1[of yy 5 400] by (simp_all add: add.commute)
  then show ?thesis using False by (simp add: leap_def full_year_def)
qed

lemma yday_correct:
  assumes "0 \<le> yy" "yy < 100" "1 \<le> mon" "mon \<le> 12"
  shows "yday yy mon day = (\<Sum>k \<in> {1..<mon}. month_days (full_year yy) k) + (day - 1)"
proof -
  have "mon = 1 \<or> mon = 2 \<or> mon = 3 \<or> mon = 4 \<or> mon = 5 \<or> mon = 6 \<or> mon = 7 \<or> mon = 8 \<or> mon = 9 \<or> mon = 10 \<or> mon = 11 \<or> mon = 12"
    using assms(3,4) by presburger
  then show ?thesis
    using leap_full[OF assms(1,2)] by (elim disjE) (simp_all add: yday_def Let_def month_days_def atLeastLessThan_upto upto.simps del: set_upto)
qed

lemma year_sum_mono: "y \<le> z \<Longrightarrow> (\<Sum>k \<in> {1970..<y}. year_days k) \<le> (\<Sum>k \<in> {1970..<z}. year_days k)"
  by (rule sum_mono2) (auto simp: year_days_def)

lemma month_sum:
  assumes "1 \<le> mon" "mon \<le> 12" "1 \<le> day" "day \<le> month_days y mon"
  shows "0 \<le> (\<Sum>k \<in> {1..<mon}. month_days y k) + (day - 1) \<and> (\<Sum>k \<in> {1..<mon}. month_days y k) + (day - 1) < 366"
proof -
  have "mon = 1 \<or> mon = 2 \<or> mon = 3 \<or> mon = 4 \<or> mon = 5 \<or> mon = 6 \<or> mon = 7 \<or> mon = 8 \<or> mon = 9 \<or> mon = 10 \<or> mon = 11 \<or> mon = 12"
    using assms(1,2) by presburger
  then show ?thesis using assms(3,4)
    by (cases "leap y"; elim disjE) (simp_all add: month_days_def atLeastLessThan_upto upto.simps del: set_upto)
qed

lemma days_bound:
  assumes "1970 \<le> y" "y \<le> 2037" "1 \<le> mon" "mon \<le> 12" "1 \<le> day" "day \<le> month_days y mon"
  shows "0 \<le> days_until y mon day \<and> days_until y mon day \<le> 24837"
proof -
  have "(\<Sum>k \<in> {1970..<2037}. year_days k) = 67 * 365 + leap_days 2036" using year_sum[of 2037] by simp
  also have "leap_days 2036 = 17" by (simp add: leap_days.simps)
  finally have "(\<Sum>k \<in> {1970..<y}. year_days k) \<le> 24472" using year_sum_mono[OF assms(2)] by simp
  moreover have "0 \<le> (\<Sum>k \<in> {1970..<y}. year_days k)" by (rule sum_nonneg) (simp add: year_days_def)
  ultimately show ?thesis using month_sum[OF assms(3-6)] by (simp add: days_until_def)
qed



section \<open>Sleeping\<close>

text \<open>
  As long as the tick counter does not wrap, \<open>sleep\<close> that begins when at least as many ticks have passed
  since boot as it is to wait ends exactly that many ticks later. One that begins earlier does not wait at
  all, because the subtraction wraps.
\<close>

lemma sleep_waits:
  assumes "unat tstart + unat (sleep_ticks msecs) < 2 ^ 32" "unat tstart \<le> unat ticks" "unat ticks < 2 ^ 32"
  shows "sleep_done tstart msecs ticks \<longleftrightarrow>
    (if unat tstart < unat (sleep_ticks msecs) then unat ticks < unat (sleep_ticks msecs) \<or> unat tstart + unat (sleep_ticks msecs) \<le> unat ticks
     else unat tstart + unat (sleep_ticks msecs) \<le> unat ticks)"
proof -
  let ?d = "sleep_ticks msecs"
  show ?thesis
  proof (cases "?d \<le> ticks")
    case True
    then have "unat (ticks - ?d) = unat ticks - unat ?d" "unat ?d \<le> unat ticks" by (simp_all add: unat_sub word_le_nat_alt)
    then show ?thesis using assms by (auto simp: sleep_done_def word_less_nat_alt)
  next
    case False
    then have l: "unat ticks < unat ?d" by (simp add: word_le_nat_alt)
    have "unat (ticks - ?d) = unat ticks + 2 ^ 32 - unat ?d"
      using l unat_sub_if_size[of ticks ?d] by (simp add: word_size word_le_nat_alt)
    moreover have "unat ?d < 2 ^ 32" using unsigned_less[of ?d] by simp
    ultimately show ?thesis using l assms by (auto simp: sleep_done_def word_less_nat_alt)
  qed
qed

lemma sleep_waits_witness: "sleep_done 10 1000 11 \<and> \<not> sleep_done 100 1000 149"
proof -
  have "sleep_ticks 1000 = 50" by (simp add: sleep_ticks_def tick_rate_def)
  then show ?thesis using sleep_waits[of 10 1000 11] sleep_waits[of 100 1000 149] by simp
qed

end
