(* ===== verification/NishCmd.thy ===== *)
theory NishCmd
  imports Nish Timekeeping Vsprintf Execve Devfs
begin

text \<open>
  The commands of the built-in shell \<^verbatim>\<open>src/kernel/nish.c\<close> that print or start programs: \<^verbatim>\<open>help\<close>, \<^verbatim>\<open>test\<close>, \<^verbatim>\<open>time\<close>, \<^verbatim>\<open>ls\<close> and \<^verbatim>\<open>exec\<close>. What a
  command prints is part of its result. After the fork of \<^verbatim>\<open>exec\<close> parent and child run different branches, which are two definitions.
  \<open>None\<close> is a null or dangling pointer or a command that does not return.
\<close>

abbreviation NL :: char where "NL \<equiv> CHR 0x0A"
abbreviation HT :: char where "HT \<equiv> CHR 0x09"

definition nish_printf :: "string \<Rightarrow> vararg list \<Rightarrow> string option" where
  "nish_printf fmt args = map_option fst (vsprintf fmt args)"

definition help_line :: "string \<Rightarrow> string \<Rightarrow> string" where
  "help_line name what = HT # name @ HT # HT # what @ [NL]"

definition nish_help :: string where
  "nish_help = ''List of built-in commands:'' @ NL #
     help_line ''exec'' ''Fork and execute command'' @ help_line ''test'' ''Run the current development function'' @
     help_line ''ls'' ''List directory contents'' @ help_line ''cat'' ''Show file content on stdout'' @ help_line ''cd'' ''Change working directory'' @
     help_line ''time'' ''Give information about time and date'' @ help_line ''halt'' ''Halt system'' @ help_line ''reboot'' ''Reboot system'' @
     help_line ''help'' ''What do you read right now?''"

definition nish_test :: string where
  "nish_test = ''No tests today.'' @ [NL]"

text \<open>The time stamp is computed and not used.\<close>

definition nish_time :: "(nat \<Rightarrow> uchar) \<Rightarrow> string option" where
  "nish_time rtc = do {
     let now = getrtctime rtc;
     a \<leftarrow> nish_printf (''Time:'' @ HT # HT # ''%.2d:%.2d:%.2d'' @ [NL]) [VInt (word_of_int (tm_hour now)), VInt (word_of_int (tm_min now)), VInt (word_of_int (tm_sec now))];
     b \<leftarrow> nish_printf (''Date:'' @ HT # HT # ''%.2d-%.2d-%.2d'' @ [NL]) [VInt (word_of_int (tm_year now)), VInt (word_of_int (tm_mon now)), VInt (word_of_int (tm_mday now))];
     Some (a @ b)
   }"

section \<open>Listing a directory\<close>

definition ls_row :: "vnode \<Rightarrow> string \<Rightarrow> string option" where
  "ls_row v name = nish_printf (''%d'' @ HT # ''%s'' @ HT # ''%d'' @ HT # ''%d'' @ HT # ''%d'' @ HT # ''%s'' @ [NL])
     [VInt (v_ino v), VStr (Some (format_mode (Some v))), VInt (ucast (v_uid v)), VInt (ucast (v_gid v)), VInt (v_size v), VStr (Some name)]"

definition hidden :: "string \<Rightarrow> bool" where
  "hidden name \<longleftrightarrow> name \<noteq> [] \<and> hd name = CHR ''.''"

partial_function (option) ls_loop ::
  "lookup_op \<Rightarrow> (nat \<Rightarrow> 'd file_operations) \<Rightarrow> nat \<Rightarrow> vnode \<Rightarrow> uint \<Rightarrow> string \<Rightarrow> 'd kernel \<Rightarrow> (string \<times> 'd kernel) option" where
  "ls_loop lk fop n v i out k =
    (let ((r, name), d) = readdir_fs fop n v i (kdev k); k1 = k\<lparr>kdev := d\<rparr> in
     if r \<noteq> 0 then Some (out, k1)
     else if hidden name then ls_loop lk fop n v (i + 1) out k1
     else
       Option.bind (lk n name (kvfs k1)) (\<lambda>(t, st).
       Option.bind t (\<lambda>m.
       Option.bind (vnodes st m) (\<lambda>w.
       Option.bind (ls_row w name) (\<lambda>row.
       Option.bind (iput (Some m) st) (\<lambda>st1.
         ls_loop lk fop n v (i + 1) (out @ row) (k1\<lparr>kvfs := st1\<rparr>)))))))"

definition ls_head :: string where
  "ls_head = ''Inode'' @ HT # ''Mode'' @ HT # HT # ''UID'' @ HT # ''GID'' @ HT # ''Size'' @ HT # ''Name'' @ [NL]"

text \<open>Behind the last argument is a null pointer, which is printed when \<^verbatim>\<open>.\<close> is not found or no directory.\<close>

definition nish_ls :: "lookup_op \<Rightarrow> (nat \<Rightarrow> 'd file_operations) \<Rightarrow> string list \<Rightarrow> 'd kernel \<Rightarrow> (string \<times> 'd kernel) option" where
  "nish_ls lk fop argv k = do {
     let arg = (if length argv = 1 then None else Some (argv ! 1));
     (r, k1) \<leftarrow> k_namei lk (Some (case arg of None \<Rightarrow> ''.'' | Some a \<Rightarrow> a)) k;
     case r of
       Inl e \<Rightarrow> map_option (\<lambda>s. (s, k1)) (nish_printf (''Error: Could not find file %s.'' @ [NL]) [VStr arg])
     | Inr n \<Rightarrow> do {
         v \<leftarrow> vnodes (kvfs k1) n;
         (out, k2) \<leftarrow>
           (if \<not> IS_DIR v then
              map_option (\<lambda>row. (row, k1)) (nish_printf (''%d'' @ HT # ''%s'' @ HT # ''%d'' @ HT # ''%d'' @ HT # ''%d'' @ HT # ''%s'' @ [NL])
                [VInt (v_ino v), VStr (Some (format_mode (Some v))), VInt (ucast (v_uid v)), VInt (ucast (v_gid v)), VInt (v_size v), VStr arg])
            else ls_loop lk fop n v 0 [] k1);
         st \<leftarrow> iput (Some n) (kvfs k2);
         Some (ls_head @ out, k2\<lparr>kvfs := st\<rparr>)
       }
   }"

section \<open>Starting a program\<close>

definition nish_exec_parent ::
  "nat \<Rightarrow> uint \<Rightarrow> uint \<Rightarrow> uint \<Rightarrow> uint \<Rightarrow> string list \<Rightarrow> 'd kernel \<Rightarrow> (string \<times> 'd kernel) option" where
  "nish_exec_parent dir stack ip sp bp argv k =
    (if length argv < 2 then Some (''You need to provide at least 1 argument (executable file)!'' @ [NL], k)
     else do {
       let parent = sys_getpid k;
       (pid, k1) \<leftarrow> sys_fork dir stack ip sp bp k;
       a \<leftarrow> nish_printf (''PARENT> Parent PID: %i, Fork PID: %i'' @ [NL]) [VInt (word_of_int parent), VInt (word_of_int pid)];
       (b, code, k2) \<leftarrow>
         (if last argv \<noteq> ''&'' then map_option (\<lambda>((r, code), k2). (''PARENT> waiting for fork to finish...'' @ [NL], code, k2)) (sys_waitpid pid k1)
          else Some ([], 0, k1));
       c \<leftarrow> nish_printf (''PARENT> Parent done, exit code was: %i'' @ [NL]) [VInt (word_of_int code)];
       Some (a @ b @ c, k2)
     })"

text \<open>\<open>vec\<close> is the address of the argument vector and \<open>buf\<close> that of the buffer for the file.\<close>

definition nish_exec_child ::
  "lookup_op \<Rightarrow> (nat \<Rightarrow> 'd file_operations) \<Rightarrow> nat \<Rightarrow> nat \<Rightarrow> uint \<Rightarrow> uint \<Rightarrow> uint \<Rightarrow> string list \<Rightarrow> 'd exec_state \<Rightarrow> (string \<times> 'd exec_state) option" where
  "nish_exec_child lk fop buf vec ip sp bp argv s = do {
     a \<leftarrow> nish_printf (''CHILDF> Fork PID: %i, parent PID: %i'' @ [NL])
            [VInt (word_of_int (sys_getpid (x_kernel s))), VInt (word_of_int (sys_getppid (x_kernel s)))];
     (code, s1) \<leftarrow> sys_execve lk fop buf (Some (argv ! 1)) vec 0 s;
     c \<leftarrow> nish_printf (''CHILDF> Returned from execve with exit code %i...'' @ [NL]) [VInt (word_of_int code)];
     k \<leftarrow> sys_exit fop code ip sp bp (x_kernel s1);
     Some (a @ ''CHILDF> Fork calling execve...'' @ NL # c, s1\<lparr>x_kernel := k\<rparr>)
   }"

section \<open>The commands together\<close>

text \<open>What a command line is run with: the operations of the filesystems, the contents of a new buffer, the clock, the values a fork takes, and \<^verbatim>\<open>sys_reboot\<close>.\<close>

record 'd nish_env =
  e_lookup :: lookup_op
  e_fop :: "nat \<Rightarrow> 'd file_operations"
  e_junk :: "nat \<Rightarrow> char"
  e_rtc :: "nat \<Rightarrow> uchar"
  e_dir :: nat
  e_stack :: uint
  e_regs :: "uint \<times> uint \<times> uint"
  e_reboot :: "nat \<Rightarrow> 'd kernel \<Rightarrow> (string \<times> 'd kernel) option"

fun nish_execute :: "'d nish_env \<Rightarrow> nish_command \<Rightarrow> string list \<Rightarrow> 'd kernel \<Rightarrow> (string \<times> 'd kernel) option" where
  "nish_execute e Ignored argv k = Some ([], k)"
| "nish_execute e Test argv k = Some (nish_test, k)"
| "nish_execute e Clear argv k = Some (CHR 0x1B # ''[2J'' @ CHR 0x1B # ''[H'', k)"
| "nish_execute e Ls argv k = nish_ls (e_lookup e) (e_fop e) argv k"
| "nish_execute e Cat argv k = nish_cat (e_lookup e) (e_fop e) (e_junk e) argv k"
| "nish_execute e Cd argv k = map_option (\<lambda>(out, k1). (case out of None \<Rightarrow> [] | Some s \<Rightarrow> s, k1)) (nish_cd (e_lookup e) argv k)"
| "nish_execute e Time argv k = map_option (\<lambda>s. (s, k)) (nish_time (e_rtc e))"
| "nish_execute e Halt argv k = e_reboot e 4 k"
| "nish_execute e Reboot argv k = e_reboot e 2 k"
| "nish_execute e Help argv k = Some (nish_help, k)"
| "nish_execute e Exit argv k = Some ([], k)"
| "nish_execute e Exec argv k = (case e_regs e of (ip, sp, bp) \<Rightarrow> nish_exec_parent (e_dir e) (e_stack e) ip sp bp argv k)"
| "nish_execute e Not_found argv k = map_option (\<lambda>s. (s, k)) (nish_printf (''nish: %s: command not found.'' @ [NL]) [VStr (Some (hd argv))])"

definition nish_line :: "'d nish_env \<Rightarrow> string \<Rightarrow> 'd kernel \<Rightarrow> (string \<times> 'd kernel) option" where
  "nish_line e str k = Option.bind (nish_interpret str) (\<lambda>(c, argv). nish_execute e c argv k)"

text \<open>The shell becomes a device.\<close>

definition nish_device :: "nat \<Rightarrow> devfs \<times> vfs \<Rightarrow> (int \<times> devfs \<times> vfs) option" where
  "nish_device ops s = map_option (\<lambda>(h, s1). (0, s1)) (devfs_register_device None ''nish'' 0x1B0 0 0 FS_CHARDEVICE ops s)"

section \<open>What ls lists\<close>

text \<open>
  The listing of a directory whose entries are \<open>names\<close> and whose inodes are not changed by being looked up and released: one row for
  each name that does not begin with a dot, in the order of the directory.
\<close>

lemma ls_loop_rows:
  assumes "\<And>j. j < length names \<Longrightarrow> readdir_fs fop n v (of_nat j) (kdev k) = ((0, names ! j), kdev k)"
    and "fst (fst (readdir_fs fop n v (of_nat (length names)) (kdev k))) \<noteq> 0" "snd (readdir_fs fop n v (of_nat (length names)) (kdev k)) = kdev k"
    and "\<And>name. name \<in> set names \<Longrightarrow> \<not> hidden name \<Longrightarrow>
      \<exists>m st w. lk n name (kvfs k) = Some (Some m, st) \<and> vnodes st m = Some w \<and> ls_row w name = Some (row name) \<and> iput (Some m) st = Some (kvfs k)"
    and "i \<le> length names"
  shows "ls_loop lk fop n v (of_nat i) out k = Some (out @ concat (map row (filter (\<lambda>x. \<not> hidden x) (drop i names))), k)"
  using assms(5)
proof (induction "length names - i" arbitrary: i out)
  case 0
  then have i: "i = length names" by simp
  obtain r name d where rd: "readdir_fs fop n v (of_nat i) (kdev k) = ((r, name), d)" by (metis prod.exhaust)
  then show ?case using assms(2,3) i by (subst ls_loop.simps) simp
next
  case (Suc j)
  then have i: "i < length names" by simp
  have IH: "ls_loop lk fop n v (of_nat i + 1) out k = Some (out @ concat (map row (filter (\<lambda>x. \<not> hidden x) (drop (Suc i) names))), k)" for out
    using Suc.hyps(1)[of "Suc i" out] Suc.hyps(2) i by (simp add: add.commute)
  have d: "drop i names = names ! i # drop (Suc i) names" using i by (simp add: Cons_nth_drop_Suc)
  show ?case
  proof (cases "hidden (names ! i)")
    case True
    then show ?thesis using IH[of out] assms(1)[OF i] d by (subst ls_loop.simps) simp
  next
    case False
    then obtain m st w where "lk n (names ! i) (kvfs k) = Some (Some m, st)" "vnodes st m = Some w" "ls_row w (names ! i) = Some (row (names ! i))"
      "iput (Some m) st = Some (kvfs k)" using assms(4)[of "names ! i"] i by auto
    then show ?thesis using IH[of "out @ row (names ! i)"] assms(1)[OF i] d False by (subst ls_loop.simps) simp
  qed
qed

section \<open>Starting programs does not work\<close>

text \<open>
  The new process is waiting to run, and a shell without \<^verbatim>\<open>&\<close> polls until it is a zombie: the command, which runs with interrupts
  off inside a system call, never returns.
\<close>

lemma nish_exec_hangs:
  assumes "2 \<le> length argv" "last argv \<noteq> ''&''" "length (tasks k) = NR_TASKS" "0 < current k" "current k < free_task (tasks k)" "free_task (tasks k) < NR_TASKS"
  shows "nish_exec_parent dir stack ip sp bp argv k = None"
proof (cases "sys_fork dir stack ip sp bp k")
  case (Some r)
  obtain pid k1 where r: "r = (pid, k1)" by (cases r)
  have "pid = int (free_task (tasks k)) \<and> t_state (tasks k1 ! free_task (tasks k)) = TASK_WAITING"
    using Some assms(3,6) r by (auto simp: sys_fork_def Let_def bind_eq_Some_conv set_cur_def)
  then have "sys_waitpid pid k1 = None" using assms(4-6) by (simp add: sys_waitpid_def)
  then show ?thesis using Some r assms(1,2) by (cases "nish_printf (''PARENT> Parent PID: %i, Fork PID: %i'' @ [NL]) [VInt (word_of_int (sys_getpid k)), VInt (word_of_int pid)]")
      (simp_all add: nish_exec_parent_def)
next
  case None
  then show ?thesis using assms(1) by (simp add: nish_exec_parent_def)
qed

end
