(* ===== verification/Heap.thy ===== *)
theory Heap
  imports Memory "HOL-Library.Multiset"
begin

text \<open>
  The kernel heap \<^verbatim>\<open>src/mm/mm.c\<close>: blocks and holes with a header and a footer in a byte memory, and the
  index of holes sorted by size.

  Addresses and sizes are natural numbers below \<open>2 ^ 32\<close>; the additions and subtractions of the C code
  are \<open>add32\<close> and \<open>sub32\<close>, which wrap. The index array is the list \<open>entries\<close>, whose length is
  \<^verbatim>\<open>entrycount\<close>. The pages that \<^verbatim>\<open>expand_heap\<close> maps and \<^verbatim>\<open>contract_heap\<close> frees are those of the
  theory \<open>Paging\<close>; here the two move the end of the heap. \<^verbatim>\<open>heap_malloc\<close> calls itself after it has grown
  the heap, with no bound: \<open>None\<close> is a call that never returns.
\<close>

definition int32 :: "nat \<Rightarrow> int" where
  "int32 n = (if n < 2 ^ 31 then int n else int n - 2 ^ 32)"

section \<open>Headers and footers\<close>

definition MM_MAGIC :: nat where "MM_MAGIC = 0x68747552"
definition MM_KHEAP_MIN :: nat where "MM_KHEAP_MIN = 0x100000"
definition MM_INDEX_COUNT :: nat where "MM_INDEX_COUNT = 0x800"
definition MM_FLAG_BLOCK :: nat where "MM_FLAG_BLOCK = 0"
definition MM_FLAG_HOLE :: nat where "MM_FLAG_HOLE = 1"
definition HDR :: nat where "HDR = 8"
definition PAGE :: nat where "PAGE = 0x1000"

text \<open>\<^verbatim>\<open>struct _mm_header\<close>: the magic number, then 31 bits of size and the flag; \<^verbatim>\<open>struct _mm_footer\<close>.\<close>

definition magic :: "memory \<Rightarrow> nat \<Rightarrow> nat" where "magic m p = load32 m p"
definition hsize :: "memory \<Rightarrow> nat \<Rightarrow> nat" where "hsize m p = load32 m (p + 4) mod 2 ^ 31"
definition hflag :: "memory \<Rightarrow> nat \<Rightarrow> nat" where "hflag m p = load32 m (p + 4) div 2 ^ 31"
definition fheader :: "memory \<Rightarrow> nat \<Rightarrow> nat" where "fheader m p = load32 m (p + 4)"

definition set_magic :: "nat \<Rightarrow> memory \<Rightarrow> memory" where
  "set_magic p m = store32 m p MM_MAGIC"
definition set_size :: "nat \<Rightarrow> nat \<Rightarrow> memory \<Rightarrow> memory" where
  "set_size p s m = store32 m (p + 4) (s mod 2 ^ 31 + 2 ^ 31 * hflag m p)"
definition set_flag :: "nat \<Rightarrow> nat \<Rightarrow> memory \<Rightarrow> memory" where
  "set_flag p f m = store32 m (p + 4) (hsize m p + 2 ^ 31 * (f mod 2))"
definition set_fheader :: "nat \<Rightarrow> nat \<Rightarrow> memory \<Rightarrow> memory" where
  "set_fheader p h m = store32 m (p + 4) h"

record heap =
  hmem :: memory
  entries :: "nat list"
  hstart :: nat
  hend :: nat
  memend :: nat

definition ASSERT_ALIGN :: "nat \<Rightarrow> nat" where
  "ASSERT_ALIGN v = (if v mod PAGE \<noteq> 0 then add32 (v - v mod PAGE) PAGE else v)"

section \<open>The heap and its index\<close>

definition create_heap :: "nat \<Rightarrow> nat \<Rightarrow> nat \<Rightarrow> memory \<Rightarrow> heap" where
  "create_heap start0 end0 memend0 m =
    (let e = ASSERT_ALIGN end0;
         start1 = ASSERT_ALIGN (add32 (ASSERT_ALIGN start0) (MM_INDEX_COUNT * 4));
         m1 = set_flag start1 MM_FLAG_HOLE (set_size start1 (sub32 e start1) (set_magic start1 m));
         foot = sub32 e HDR;
         m2 = set_fheader foot start1 (set_magic foot m1)
     in \<lparr>hmem = m2, entries = [start1], hstart = start1, hend = e, memend = ASSERT_ALIGN memend0\<rparr>)"

definition expand_heap :: "nat \<Rightarrow> heap \<Rightarrow> heap" where
  "expand_heap new_size h =
    (if new_size \<le> sub32 (hend h) (hstart h) then h
     else
       let n = ASSERT_ALIGN new_size in
       if add32 (hstart h) n > memend h then h else h\<lparr>hend := add32 (hstart h) n\<rparr>)"

definition contract_heap :: "nat \<Rightarrow> heap \<Rightarrow> nat \<times> heap" where
  "contract_heap new_size h =
    (let old = sub32 (hend h) (hstart h) in
     if new_size \<ge> old then (old, h)
     else
       let n = ASSERT_ALIGN new_size; n' = (if n < MM_KHEAP_MIN then MM_KHEAP_MIN else n)
       in (n', h\<lparr>hend := add32 (hstart h) n'\<rparr>))"

fun add_entry :: "memory \<Rightarrow> nat \<Rightarrow> nat list \<Rightarrow> nat list" where
  "add_entry m entry [] = [entry]"
| "add_entry m entry (e # es) =
     (if hsize m e < hsize m entry then e # add_entry m entry es else entry # e # es)"

definition heap_add_entry :: "nat \<Rightarrow> heap \<Rightarrow> heap" where
  "heap_add_entry entry h = h\<lparr>entries := add_entry (hmem h) entry (entries h)\<rparr>"

text \<open>\<open>None\<close> is the index \<^verbatim>\<open>MM_NO_HOLE\<close>.\<close>

definition heap_del_entry :: "nat option \<Rightarrow> heap \<Rightarrow> heap" where
  "heap_del_entry i h =
     (case i of None \<Rightarrow> h | Some k \<Rightarrow> h\<lparr>entries := take k (entries h) @ drop (Suc k) (entries h)\<rparr>)"

fun find_index :: "(nat \<Rightarrow> bool) \<Rightarrow> nat list \<Rightarrow> nat option" where
  "find_index P [] = None"
| "find_index P (e # es) = (if P e then Some 0 else map_option Suc (find_index P es))"

definition heap_find_entry :: "nat \<Rightarrow> heap \<Rightarrow> nat option" where
  "heap_find_entry entry h = find_index (\<lambda>e. e = entry) (entries h)"

definition fits :: "memory \<Rightarrow> nat \<Rightarrow> bool \<Rightarrow> nat \<Rightarrow> bool" where
  "fits m sz page_align entry =
    (if page_align then
       let loc = add32 entry HDR; offset = (if loc mod PAGE \<noteq> 0 then PAGE - loc mod PAGE else 0)
       in int (hsize m entry) - int offset \<ge> int32 sz
     else hsize m entry \<ge> sz)"

definition find_smallest_hole :: "nat \<Rightarrow> bool \<Rightarrow> heap \<Rightarrow> nat option" where
  "find_smallest_hole sz page_align h = find_index (fits (hmem h) sz page_align) (entries h)"

section \<open>Allocation\<close>

text \<open>The hole with the highest address, among those the loop of \<^verbatim>\<open>heap_malloc\<close> visits.\<close>

fun last_hole :: "nat list \<Rightarrow> nat \<Rightarrow> nat option \<Rightarrow> nat option" where
  "last_hole [] value idx = idx"
| "last_hole (e # es) value idx = (if e > value then last_hole es e (Some e) else last_hole es value idx)"

definition heap_grow :: "nat \<Rightarrow> heap \<Rightarrow> heap" where
  "heap_grow newsize h =
    (let oldsize = sub32 (hend h) (hstart h); oldend = hend h;
         h1 = expand_heap (add32 oldsize newsize) h;
         size1 = sub32 (hend h1) (hstart h1)
     in case last_hole (entries h1) 0 None of
          None \<Rightarrow>
            let m1 = set_flag oldend MM_FLAG_HOLE (set_size oldend (sub32 size1 oldsize) (hmem h1));
                foot = sub32 (add32 oldend (hsize m1 oldend)) HDR;
                m2 = set_fheader foot oldend (set_magic oldend (set_magic foot m1))
            in heap_add_entry oldend (h1\<lparr>hmem := m2\<rparr>)
        | Some hdr \<Rightarrow>
            let m1 = set_size hdr (add32 (hsize (hmem h1) hdr) (sub32 size1 oldsize)) (hmem h1);
                foot = sub32 (add32 hdr (hsize m1 hdr)) HDR
            in h1\<lparr>hmem := set_magic foot (set_fheader foot hdr m1)\<rparr>)"

definition heap_carve :: "nat \<Rightarrow> bool \<Rightarrow> nat \<Rightarrow> heap \<Rightarrow> nat \<times> heap" where
  "heap_carve size0 page_align i h =
    (let header = entries h ! i; m = hmem h; newsize0 = add32 size0 16;
         (sz, newsize) =
           (if sub32 (hsize m header) 16 < newsize0
            then (add32 size0 (sub32 (hsize m header) newsize0), hsize m header)
            else (size0, newsize0));
         (pos, oldsize, h1) =
           (if page_align \<and> header div PAGE \<noteq> 0 then
              let newpos = sub32 (sub32 (add32 header PAGE) (header mod PAGE)) HDR;
                  foot = sub32 newpos HDR;
                  m1 = set_flag header MM_FLAG_HOLE (set_size header (sub32 newpos header) m);
                  m2 = set_fheader foot header (set_magic header (set_magic foot m1))
              in (newpos, sub32 (hsize m header) (hsize m2 header), h\<lparr>hmem := m2\<rparr>)
            else (header, hsize m header, heap_del_entry (Some i) h));
         foot = add32 (add32 pos HDR) sz;
         m3 = set_fheader foot pos (set_magic pos (set_magic foot (set_size pos newsize (set_flag pos MM_FLAG_BLOCK (hmem h1)))));
         h2 = h1\<lparr>hmem := m3\<rparr>;
         h3 =
           (if sub32 oldsize newsize > 0 then
              let newheader = add32 pos newsize;
                  m4 = set_size newheader (sub32 oldsize newsize) (set_flag newheader MM_FLAG_HOLE (set_magic newheader m3));
                  nfoot = sub32 (add32 newheader (hsize m4 newheader)) HDR;
                  m5 = (if nfoot < hend h2 then set_fheader nfoot newheader (set_magic nfoot m4) else m4)
              in heap_add_entry newheader (h2\<lparr>hmem := m5\<rparr>)
            else h2)
     in (add32 pos HDR, h3))"

partial_function (option) heap_malloc :: "nat \<Rightarrow> bool \<Rightarrow> heap \<Rightarrow> (nat \<times> heap) option" where
  "heap_malloc sz page_align h =
    (let newsize = add32 sz 16 in
     if sz = 0 then Some (0, h)
     else case find_smallest_hole newsize page_align h of
       None \<Rightarrow> heap_malloc sz page_align (heap_grow newsize h)
     | Some i \<Rightarrow> Some (heap_carve sz page_align i h))"

section \<open>Release\<close>

definition heap_free :: "nat \<Rightarrow> heap \<Rightarrow> heap" where
  "heap_free ptr h =
    (if ptr = 0 then h
     else
       let header = sub32 ptr HDR; m = hmem h; oldsize = hsize m header;
           footer = sub32 (add32 header oldsize) HDR
       in if magic m header \<noteq> MM_MAGIC \<or> magic m footer \<noteq> MM_MAGIC then h
       else
         let m1 = set_flag header MM_FLAG_HOLE m;
             tmpfooter = sub32 header HDR; left = fheader m1 tmpfooter;
             merge = (magic m1 tmpfooter = MM_MAGIC \<and> magic m1 left = MM_MAGIC \<and> hflag m1 left = MM_FLAG_HOLE);
             header1 = (if merge then left else header);
             m2 = (if merge
               then (let m' = set_fheader footer left m1 in set_size left (add32 (hsize m' left) oldsize) m')
               else m1);
             tmpheader = add32 footer HDR;
             (footer2, h2) =
               (if magic m2 tmpheader = MM_MAGIC \<and> hflag m2 tmpheader = MM_FLAG_HOLE then
                  let m3 = set_size header1 (add32 (hsize m2 header1) (hsize m2 tmpheader)) m2;
                      foot = sub32 (add32 tmpheader (hsize m3 tmpheader)) HDR;
                      h3 = h\<lparr>hmem := m3\<rparr>
                  in (foot, heap_del_entry (heap_find_entry tmpheader h3) h3)
                else (footer, h\<lparr>hmem := m2\<rparr>));
             h4 =
               (if add32 footer2 HDR = hend h2 then
                  let oldsize' = sub32 (hend h2) (hstart h2);
                      (newsize, h3) = contract_heap (sub32 header1 (hstart h2)) h2
                  in if add32 newsize (hsize (hmem h3) header1) > oldsize' then
                       let m3 = set_size header1 (sub32 (hsize (hmem h3) header1) (sub32 oldsize' newsize)) (hmem h3);
                           foot = sub32 (add32 header1 (hsize m3 header1)) HDR
                       in h3\<lparr>hmem := set_fheader foot header1 (set_magic foot m3)\<rparr>
                     else heap_del_entry (heap_find_entry header1 h3) h3
                else h2)
         in if merge then h4 else heap_add_entry header1 h4)"

text \<open>\<^verbatim>\<open>heap_realloc\<close>; the test against zero of an unsigned difference in its shrinking branch never holds.\<close>

fun copy_bytes :: "nat \<Rightarrow> nat \<Rightarrow> nat \<Rightarrow> memory \<Rightarrow> memory" where
  "copy_bytes dst src 0 m = m"
| "copy_bytes dst src (Suc n) m = copy_bytes (dst + 1) (src + 1) n (m(dst := m src))"

definition heap_realloc :: "nat \<Rightarrow> nat \<Rightarrow> heap \<Rightarrow> (nat \<times> heap) option" where
  "heap_realloc ptr sz h =
    (if ptr = 0 then Some (0, h)
     else if sz = 0 then Some (0, heap_free ptr h)
     else
       let header = sub32 ptr HDR; m = hmem h; footer = sub32 (add32 header (hsize m header)) HDR;
           room = sub32 (hsize m header) 16
       in if magic m header \<noteq> MM_MAGIC \<or> magic m footer \<noteq> MM_MAGIC then Some (0, h)
       else if sz = room then Some (ptr, h)
       else if sz < room then
         let tmpheader = add32 (add32 ptr sz) HDR; tmpfooter = add32 ptr sz;
             m1 = set_fheader tmpfooter header (set_fheader footer tmpheader m);
             m2 = set_magic tmpheader (set_magic tmpfooter m1);
             m3 = set_size tmpheader (add32 (sub32 footer tmpheader) HDR) (set_flag tmpheader MM_FLAG_BLOCK m2);
             m4 = set_size header (add32 (add32 HDR sz) HDR) m3
         in Some (ptr, heap_free (add32 tmpheader HDR) (h\<lparr>hmem := m4\<rparr>))
       else do {
         (res, h1) \<leftarrow> heap_malloc sz False h;
         if res = 0 then Some (0, h1)
         else Some (res, heap_free ptr (h1\<lparr>hmem := copy_bytes res ptr sz (hmem h1)\<rparr>))
       })"

definition calloc :: "nat \<Rightarrow> nat \<Rightarrow> heap \<Rightarrow> (nat \<times> heap) option" where
  "calloc num sz h = do {
     (res, h1) \<leftarrow> heap_malloc ((num * sz) mod 2 ^ 32) False h;
     if res = 0 then Some (0, h1)
     else Some (res, h1\<lparr>hmem := (\<lambda>a. if res \<le> a \<and> a < res + (num * sz) mod 2 ^ 32 then 0 else hmem h1 a)\<rparr>)
   }"

section \<open>Sizes and flags\<close>

lemma hsize_less: "hsize m p < 2 ^ 31"
  by (simp add: hsize_def)

lemma hflag_le: "hflag m p < 2"
  using load32_less[of m "p + 4"] by (simp add: hflag_def)

section \<open>Chunks\<close>

text \<open>
  A chunk has its size and flag in its header and points to the header from its footer. A heap is a
  gapless sequence of chunks, given as sizes with a mark for holes.
\<close>

definition chunk :: "memory \<Rightarrow> nat \<Rightarrow> nat \<Rightarrow> bool \<Rightarrow> bool" where
  "chunk m p s hole \<longleftrightarrow> 16 \<le> s \<and> s < 2 ^ 31 \<and> magic m p = MM_MAGIC \<and> hsize m p = s \<and>
     hflag m p = (if hole then MM_FLAG_HOLE else MM_FLAG_BLOCK) \<and>
     magic m (p + s - 8) = MM_MAGIC \<and> fheader m (p + s - 8) = p"

fun chunks :: "memory \<Rightarrow> nat \<Rightarrow> (nat \<times> bool) list \<Rightarrow> nat \<Rightarrow> bool" where
  "chunks m a [] e \<longleftrightarrow> a = e"
| "chunks m a ((s, hole) # cs) e \<longleftrightarrow> chunk m a s hole \<and> chunks m (a + s) cs e"

fun total :: "(nat \<times> bool) list \<Rightarrow> nat" where
  "total [] = 0"
| "total ((s, hole) # cs) = s + total cs"

fun hole_addrs :: "nat \<Rightarrow> (nat \<times> bool) list \<Rightarrow> nat list" where
  "hole_addrs a [] = []"
| "hole_addrs a ((s, hole) # cs) = (if hole then [a] else []) @ hole_addrs (a + s) cs"

definition heap_inv :: "heap \<Rightarrow> (nat \<times> bool) list \<Rightarrow> bool" where
  "heap_inv h cs \<longleftrightarrow> chunks (hmem h) (hstart h) cs (hend h) \<and> hend h < 2 ^ 32 \<and>
     mset (entries h) = mset (hole_addrs (hstart h) cs)"

definition sorted_index :: "heap \<Rightarrow> bool" where
  "sorted_index h \<longleftrightarrow> sorted (map (hsize (hmem h)) (entries h))"

lemma total_append [simp]: "total (xs @ ys) = total xs + total ys"
  by (induction xs rule: total.induct) auto

lemma hole_addrs_append [simp]: "hole_addrs a (xs @ ys) = hole_addrs a xs @ hole_addrs (a + total xs) ys"
  by (induction a xs rule: hole_addrs.induct) (auto simp: add.assoc)

lemma chunks_end: "chunks m a cs e \<Longrightarrow> e = a + total cs"
  by (induction m a cs e rule: chunks.induct) auto

lemma chunks_append [simp]:
  "chunks m a (xs @ ys) e \<longleftrightarrow> chunks m a xs (a + total xs) \<and> chunks m (a + total xs) ys e"
  by (induction xs arbitrary: a) (auto simp: add.assoc)

lemma chunk_same:
  assumes "same_outside lo hi m m'" "p + s \<le> lo \<or> hi \<le> p"
  shows "chunk m' p s hole = chunk m p s hole"
proof (cases "16 \<le> s")
  case True
  have "load32 m' a = load32 m a" if "p \<le> a" "a + 4 \<le> p + s" for a
    using that assms(2) by (intro same_outside_load[OF assms(1)]) auto
  from this[of p] this[of "p + 4"] this[of "p + s - 8"] this[of "p + s - 8 + 4"] True show ?thesis
    by (simp add: chunk_def magic_def hsize_def hflag_def fheader_def)
qed (simp add: chunk_def)

lemma chunks_same:
  assumes "same_outside lo hi m m'" "a + total cs \<le> lo \<or> hi \<le> a"
  shows "chunks m' a cs e = chunks m a cs e"
  using assms
proof (induction cs arbitrary: a)
  case (Cons c cs)
  obtain s hole where c: "c = (s, hole)" by (cases c)
  have "chunk m' a s hole = chunk m a s hole" using Cons.prems c by (intro chunk_same) auto
  moreover have "chunks m' (a + s) cs e = chunks m (a + s) cs e" using Cons.prems c by (intro Cons.IH) auto
  ultimately show ?case by (simp add: c)
qed simp

lemma hole_addrs_range:
  "x \<in> set (hole_addrs a cs) \<Longrightarrow> chunks m a cs e \<Longrightarrow> a \<le> x \<and> x + 16 \<le> e"
  using chunks_end by (induction a cs rule: hole_addrs.induct) (fastforce simp: chunk_def split: if_splits)+

text \<open>A hole's address splits the sequence.\<close>

lemma hole_split:
  "x \<in> set (hole_addrs a cs) \<Longrightarrow> \<exists>xs s ys. cs = xs @ (s, True) # ys \<and> x = a + total xs"
proof (induction a cs rule: hole_addrs.induct)
  case (2 a s hole cs)
  show ?case
  proof (cases "hole \<and> x = a")
    case True
    then show ?thesis by (intro exI[of _ "[]"]) auto
  next
    case False
    then have "x \<in> set (hole_addrs (a + s) cs)" using 2(2) by (auto split: if_splits)
    from 2(1)[OF this] obtain xs s' ys where "cs = xs @ (s', True) # ys" "x = a + s + total xs" by auto
    then show ?thesis by (intro exI[of _ "(s, hole) # xs"]) auto
  qed
qed simp

lemma heap_inv_hole:
  assumes "heap_inv h cs" "x \<in> set (entries h)"
  obtains xs s ys where "cs = xs @ (s, True) # ys" "x = hstart h + total xs" "hsize (hmem h) x = s"
    "16 \<le> s" "s < 2 ^ 31" "x + s \<le> hend h"
proof -
  have "x \<in> set (hole_addrs (hstart h) cs)" using assms by (metis heap_inv_def set_mset_mset)
  then obtain xs s ys where c: "cs = xs @ (s, True) # ys" "x = hstart h + total xs" using hole_split by blast
  have "chunk (hmem h) x s True" "chunks (hmem h) (x + s) ys (hend h)" using assms(1) c by (auto simp: heap_inv_def)
  then have "x + s \<le> hend h" using chunks_end by fastforce
  then show ?thesis using that c \<open>chunk (hmem h) x s True\<close> by (auto simp: chunk_def)
qed

section \<open>The index\<close>

lemma mset_add_entry [simp]: "mset (add_entry m e es) = add_mset e (mset es)"
  by (induction es) auto

lemma set_add_entry [simp]: "set (add_entry m e es) = insert e (set es)"
  by (metis mset_add_entry set_mset_add_mset_insert set_mset_mset)

lemma sorted_add_entry: "sorted (map (hsize m) es) \<Longrightarrow> sorted (map (hsize m) (add_entry m e es))"
  by (induction es) fastforce+

lemma find_index_Some:
  "find_index P es = Some i \<Longrightarrow> i < length es \<and> P (es ! i) \<and> (\<forall>j < i. \<not> P (es ! j))"
proof (induction es arbitrary: i)
  case (Cons e es)
  show ?case
  proof (cases "P e")
    case False
    then obtain j where j: "find_index P es = Some j" "i = Suc j" using Cons.prems by auto
    then show ?thesis using Cons.IH[OF j(1)] False by (auto simp: nth_Cons split: nat.splits)
  qed (use Cons.prems in simp)
qed simp

lemma find_index_None: "find_index P es = None \<longleftrightarrow> (\<forall>e \<in> set es. \<not> P e)"
  by (induction es) auto

text \<open>The first entry that fits in a sorted index is a smallest one.\<close>

lemma find_smallest:
  assumes "find_smallest_hole n False h = Some i" "sorted_index h" "e \<in> set (entries h)" "n \<le> hsize (hmem h) e"
  shows "hsize (hmem h) (entries h ! i) \<le> hsize (hmem h) e"
proof -
  obtain j where j: "j < length (entries h)" "entries h ! j = e" using assms(3) by (metis in_set_conv_nth)
  have i: "i < length (entries h)" "\<forall>k < i. \<not> n \<le> hsize (hmem h) (entries h ! k)"
    using find_index_Some[OF assms(1)[unfolded find_smallest_hole_def]] by (auto simp: fits_def)
  have "i \<le> j" using i(2) j(2) assms(4) by (meson not_le)
  then show ?thesis using assms(2) i(1) j sorted_nth_mono[of "map (hsize (hmem h)) (entries h)" i j]
    by (simp add: sorted_index_def)
qed

section \<open>Carving a block out of a hole\<close>

text \<open>The stores of \<^verbatim>\<open>heap_malloc\<close> for a block without page alignment, in an interval that holds the hole.\<close>

lemmas mem_ops = set_magic_def set_size_def set_flag_def set_fheader_def magic_def hsize_def hflag_def fheader_def

definition put_chunk :: "nat \<Rightarrow> nat \<Rightarrow> nat \<Rightarrow> memory \<Rightarrow> memory" where
  "put_chunk p s f m = set_fheader (p + s - 8) p (set_magic p (set_magic (p + s - 8) (set_size p s (set_flag p f m))))"

definition put_hole :: "nat \<Rightarrow> nat \<Rightarrow> memory \<Rightarrow> memory" where
  "put_hole p s m = set_fheader (p + s - 8) p (set_magic (p + s - 8)
     (set_size p s (set_flag p MM_FLAG_HOLE (set_magic p m))))"

lemma size_word:
  "s < 2 ^ 31 \<Longrightarrow> f < 2 \<Longrightarrow> (s + 2 ^ 31 * f) mod 2 ^ 32 mod 2 ^ 31 = s" for s f :: nat
  by (cases "f = 0") auto

lemma flag_word:
  assumes "s < 2 ^ 31" "f < 2" shows "(s + 2 ^ 31 * f) mod 2 ^ 32 div 2 ^ 31 = (f :: nat)"
proof -
  have "s + 2 ^ 31 * f < 2 ^ 32" using assms by (cases "f = 0") auto
  then show ?thesis using assms(1) by simp
qed

lemma set_size_flag:
  assumes "s < 2 ^ 31" "f < 2"
  shows "hsize (set_size p s (set_flag p f m)) p = s" "hflag (set_size p s (set_flag p f m)) p = f"
proof -
  have "hsize m p < 2 ^ 31" by (rule hsize_less)
  then have f: "hflag (set_flag p f m) p = f"
    using flag_word[of "hsize m p" f] assms(2) by (simp add: set_flag_def hflag_def)
  show "hsize (set_size p s (set_flag p f m)) p = s" "hflag (set_size p s (set_flag p f m)) p = f"
    using assms size_word[of s f] flag_word[of s f] unfolding set_size_def f by (simp_all add: hsize_def hflag_def)
qed

lemma hsize_hflag_store:
  "a + 4 \<le> p + 4 \<or> p + 8 \<le> a \<Longrightarrow> hsize (store32 m a v) p = hsize m p"
  "a + 4 \<le> p + 4 \<or> p + 8 \<le> a \<Longrightarrow> hflag (store32 m a v) p = hflag m p"
  by (auto simp: hsize_def hflag_def load_store_other)

lemma MM_MAGIC_mod: "MM_MAGIC mod 2 ^ 32 = MM_MAGIC"
  by (simp add: MM_MAGIC_def)

lemma foot_magic_header:
  assumes "16 \<le> s" "p + s < 2 ^ 32"
  defines "f \<equiv> p + s - 8"
  shows "magic (set_fheader f p (set_magic f m)) f = MM_MAGIC" "fheader (set_fheader f p (set_magic f m)) f = p"
    "magic (set_fheader f p (set_magic p (set_magic f m))) f = MM_MAGIC"
    "magic (set_fheader f p (set_magic p (set_magic f m))) p = MM_MAGIC"
    "fheader (set_fheader f p (set_magic p (set_magic f m))) f = p"
proof -
  obtain t where t: "s = 16 + t" using assms(1) le_Suc_ex by blast
  then have f: "f = p + 8 + t" by (simp add: f_def)
  show "magic (set_fheader f p (set_magic f m)) f = MM_MAGIC" "fheader (set_fheader f p (set_magic f m)) f = p"
    "magic (set_fheader f p (set_magic p (set_magic f m))) f = MM_MAGIC"
    "magic (set_fheader f p (set_magic p (set_magic f m))) p = MM_MAGIC"
    "fheader (set_fheader f p (set_magic p (set_magic f m))) f = p"
    using assms(2) MM_MAGIC_mod by (simp_all add: f t mem_ops load_store_other)
qed

lemma chunk_put_chunk:
  assumes "16 \<le> s" "s < 2 ^ 31" "p + s < 2 ^ 32" "f < 2"
  shows "chunk (put_chunk p s f m) p s (f = 1)"
proof -
  have a: "p + s - 8 + 4 + 4 \<le> p + 4 \<or> p + 8 \<le> p + s - 8 + 4" "p + s - 8 + 4 \<le> p + 4 \<or> p + 8 \<le> p + s - 8"
    using assms(1) by auto
  have "hsize (put_chunk p s f m) p = s" "hflag (put_chunk p s f m) p = f"
    unfolding put_chunk_def using set_size_flag[OF assms(2,4), of p m] a
    by (simp_all add: set_fheader_def set_magic_def hsize_hflag_store)
  then show ?thesis
    using foot_magic_header[OF assms(1,3)] assms by (auto simp: chunk_def put_chunk_def MM_FLAG_HOLE_def MM_FLAG_BLOCK_def)
qed

lemma chunk_set_footer:
  assumes "16 \<le> s" "s < 2 ^ 31" "p + s < 2 ^ 32" "magic m p = MM_MAGIC" "hsize m p = s"
    "hflag m p = (if hole then MM_FLAG_HOLE else MM_FLAG_BLOCK)"
  shows "chunk (set_fheader (p + s - 8) p (set_magic (p + s - 8) m)) p s hole"
proof -
  obtain t where t: "s = 16 + t" using assms(1) le_Suc_ex by blast
  let ?f = "p + s - 8"
  have f: "?f = p + 8 + t" using t by simp
  have a: "?f + 4 + 4 \<le> p + 4 \<or> p + 8 \<le> ?f + 4" "?f + 4 \<le> p + 4 \<or> p + 8 \<le> ?f" using f by auto
  have "hsize (set_fheader ?f p (set_magic ?f m)) p = s"
    "hflag (set_fheader ?f p (set_magic ?f m)) p = (if hole then MM_FLAG_HOLE else MM_FLAG_BLOCK)"
    using assms(5,6) a unfolding set_fheader_def set_magic_def by (simp_all only: hsize_hflag_store)
  moreover have "magic (set_fheader ?f p (set_magic ?f m)) p = MM_MAGIC"
    using assms(4) unfolding f by (simp add: set_fheader_def set_magic_def magic_def load_store_other)
  ultimately show ?thesis using foot_magic_header(1,2)[OF assms(1,3), of m] assms(1,2) by (simp add: chunk_def)
qed

lemma chunk_put_hole:
  assumes "16 \<le> s" "s < 2 ^ 31" "p + s < 2 ^ 32"
  shows "chunk (put_hole p s m) p s True"
  unfolding put_hole_def
proof (rule chunk_set_footer[OF assms])
  let ?m = "set_size p s (set_flag p MM_FLAG_HOLE (set_magic p m))"
  show "hsize ?m p = s" "hflag ?m p = (if True then MM_FLAG_HOLE else MM_FLAG_BLOCK)"
    using set_size_flag[OF assms(2), of MM_FLAG_HOLE p "set_magic p m"] by (simp_all add: MM_FLAG_HOLE_def)
  show "magic ?m p = MM_MAGIC" using MM_MAGIC_mod by (simp add: mem_ops load_store_other)
qed

lemma same_outside_put_chunk:
  "16 \<le> s \<Longrightarrow> same_outside p (p + s) m (put_chunk p s f m)" "16 \<le> s \<Longrightarrow> same_outside p (p + s) m (put_hole p s m)"
  unfolding put_chunk_def put_hole_def set_magic_def set_size_def set_flag_def set_fheader_def
  by (intro same_outside_store same_outside_refl; simp)+

lemma heap_carve_whole:
  assumes "entries h ! i = p" "hsize (hmem h) p = s" "n + 16 \<le> s" "s < n + 32" "s < 2 ^ 31" "p + s < 2 ^ 32"
  shows "heap_carve n False i h = (p + 8, (heap_del_entry (Some i) h)\<lparr>hmem := put_chunk p s MM_FLAG_BLOCK (hmem h)\<rparr>)"
proof -
  have "add32 (add32 p HDR) (n + (s - (n + 16))) = p + s - 8" using assms by (simp add: HDR_def)
  then show ?thesis
    using assms by (simp add: heap_carve_def Let_def heap_del_entry_def put_chunk_def HDR_def)
qed

lemma heap_carve_split:
  assumes "entries h ! i = p" "hsize (hmem h) p = s" "n + 32 \<le> s" "s < 2 ^ 31" "p + s < 2 ^ 32" "p + s \<le> hend h"
  shows "heap_carve n False i h = (p + 8, heap_add_entry (p + (n + 16)) ((heap_del_entry (Some i) h)\<lparr>hmem :=
     put_hole (p + (n + 16)) (s - (n + 16)) (put_chunk p (n + 16) MM_FLAG_BLOCK (hmem h))\<rparr>))"
proof -
  let ?q = "p + (n + 16)" and ?r = "s - (n + 16)"
  have r: "?r < 2 ^ 31" using assms by simp
  have q: "hsize (set_size ?q ?r (set_flag ?q MM_FLAG_HOLE m)) ?q = ?r" for m
    using set_size_flag(1)[OF r, of MM_FLAG_HOLE] by (simp add: MM_FLAG_HOLE_def)
  have "p + (n + 16) - 8 = p + 8 + n" by simp
  then have pc: "put_chunk p (n + 16) f m =
      set_fheader (p + 8 + n) p (set_magic p (set_magic (p + 8 + n) (set_size p (n + 16) (set_flag p f m))))" for f m
    by (simp only: put_chunk_def)
  have nf: "?q + ?r - 8 < hend h" using assms by simp
  show ?thesis
    unfolding pc using assms nf q
    by (simp add: heap_carve_def Let_def heap_del_entry_def put_hole_def HDR_def)
qed

text \<open>Replacing the chunk at \<open>p\<close> by chunks that fill the same interval.\<close>

lemma heap_inv_replace:
  assumes inv: "heap_inv h (xs @ (s, b) # ys)" and p: "p = hstart h + total xs"
    and m: "same_outside p (p + s) (hmem h) m'" and mid: "chunks m' p mid (p + s)"
    and es: "mset es + mset (hole_addrs p [(s, b)]) = mset (entries h) + mset (hole_addrs p mid)"
  shows "heap_inv (h\<lparr>entries := es, hmem := m'\<rparr>) (xs @ mid @ ys)"
proof -
  have c: "chunks (hmem h) (hstart h) xs p" "chunks (hmem h) (p + s) ys (hend h)" using inv p by (auto simp: heap_inv_def)
  have "chunks m' (hstart h) xs p" using c(1) chunks_same[OF m, of "hstart h" xs p] p by simp
  moreover have "chunks m' (p + s) ys (hend h)" using c(2) chunks_same[OF m, of "p + s" ys "hend h"] by simp
  moreover have t: "p + total mid = p + s" using chunks_end[OF mid] by simp
  moreover have "mset es = mset (hole_addrs (hstart h) (xs @ mid @ ys))"
  proof -
    have "mset (entries h) = mset (hole_addrs (hstart h) xs) + mset (hole_addrs p [(s, b)]) + mset (hole_addrs (p + s) ys)"
      using inv p by (simp add: heap_inv_def)
    then have "mset es + mset (hole_addrs p [(s, b)]) =
        mset (hole_addrs (hstart h) xs) + mset (hole_addrs p mid) + mset (hole_addrs (p + s) ys) + mset (hole_addrs p [(s, b)])"
      using es by (simp add: ac_simps)
    then have "mset es = mset (hole_addrs (hstart h) xs) + mset (hole_addrs p mid) + mset (hole_addrs (p + s) ys)"
      by (rule add_right_imp_eq)
    then show ?thesis using p t by (simp add: add.assoc[symmetric])
  qed
  ultimately show ?thesis using inv p mid by (simp add: heap_inv_def)
qed

lemma entry_outside:
  assumes inv: "heap_inv h (xs @ (s, b) # ys)" and p: "p = hstart h + total xs"
    and e: "e \<in> set (hole_addrs (hstart h) xs) \<or> e \<in> set (hole_addrs (p + s) ys)"
  shows "e + 16 \<le> p \<or> p + s \<le> e"
proof -
  have c: "chunks (hmem h) (hstart h) xs p" "chunks (hmem h) (p + s) ys (hend h)" using inv p by (auto simp: heap_inv_def)
  show ?thesis using e hole_addrs_range[OF _ c(1)] hole_addrs_range[OF _ c(2)] by blast
qed

lemma hsize_outside: "same_outside lo hi m m' \<Longrightarrow> e + 8 \<le> lo \<or> hi \<le> e \<Longrightarrow> hsize m' e = hsize m e"
  using same_outside_load[of lo hi m m' "e + 4"] by (auto simp: hsize_def)

lemma sorted_rest:
  assumes "sorted (map f es)" shows "sorted (map f (take i es @ drop (Suc i) es))"
proof -
  have a: "sorted (map f (take i es) @ map f (drop i es))" using assms by (metis append_take_drop_id map_append)
  have "sorted (map f (drop (Suc i) es))" using assms by (simp add: drop_map[symmetric] sorted_wrt_drop)
  then show ?thesis using a set_drop_subset_set_drop[of i "Suc i" es] by (auto simp: sorted_append)
qed

lemma mset_rest: "i < length es \<Longrightarrow> add_mset (es ! i) (mset (take i es @ drop (Suc i) es)) = mset es"
  by (metis id_take_nth_drop mset.simps(2) mset_append union_mset_add_mset_right)

text \<open>The result of a carve, in both cases: the chunks that take the hole's place.\<close>

lemma heap_carve_ok:
  assumes inv: "heap_inv h cs" and srt: "sorted_index h" and i: "i < length (entries h)"
    and n: "0 < n" "n + 16 \<le> hsize (hmem h) (entries h ! i)"
  shows "\<exists>xs s ys h'. cs = xs @ (s, True) # ys \<and> entries h ! i = hstart h + total xs \<and> s = hsize (hmem h) (entries h ! i) \<and>
    heap_carve n False i h = (entries h ! i + 8, h') \<and>
    heap_inv h' (xs @ (if s < n + 32 then [(s, False)] else [(n + 16, False), (s - (n + 16), True)]) @ ys) \<and>
    sorted_index h' \<and> same_outside (entries h ! i) (entries h ! i + s) (hmem h) (hmem h') \<and> hstart h' = hstart h \<and> hend h' = hend h"
proof -
  define p where "p = entries h ! i"
  have "p \<in> set (entries h)" using i by (simp add: p_def)
  then obtain xs s ys where c: "cs = xs @ (s, True) # ys" "p = hstart h + total xs" "hsize (hmem h) p = s"
      "16 \<le> s" "s < 2 ^ 31" "p + s \<le> hend h"
    using heap_inv_hole[OF inv] by blast
  have lim: "p + s < 2 ^ 32" using c(6) inv by (simp add: heap_inv_def)
  let ?es = "take i (entries h) @ drop (Suc i) (entries h)"
  have mes: "add_mset p (mset ?es) = mset (entries h)" using mset_rest[OF i] by (simp add: p_def)
  have out: "hsize m' e = hsize (hmem h) e" if "e \<in> set ?es" "same_outside p (p + s) (hmem h) m'" for e m'
  proof -
    have "add_mset p (mset ?es) = add_mset p (mset (hole_addrs (hstart h) xs) + mset (hole_addrs (p + s) ys))"
      using mes inv c(1,2) by (simp add: heap_inv_def)
    then have "mset ?es = mset (hole_addrs (hstart h) xs) + mset (hole_addrs (p + s) ys)" by simp
    then have "e \<in> set (hole_addrs (hstart h) xs) \<or> e \<in> set (hole_addrs (p + s) ys)"
      using that(1) by (metis set_mset_mset set_mset_union Un_iff)
    then have "e + 16 \<le> p \<or> p + s \<le> e" using entry_outside inv c(1,2) by blast
    then show ?thesis using hsize_outside[OF that(2)] by auto
  qed
  have srt': "sorted (map (hsize m') ?es)" if "same_outside p (p + s) (hmem h) m'" for m'
  proof -
    have "map (hsize m') ?es = map (hsize (hmem h)) ?es" using out[OF _ that] by (intro map_cong) auto
    then show ?thesis using sorted_rest[OF srt[unfolded sorted_index_def], of i] by (simp only:)
  qed
  show ?thesis
  proof (cases "s < n + 32")
    case True
    let ?m = "put_chunk p s MM_FLAG_BLOCK (hmem h)"
    have so: "same_outside p (p + s) (hmem h) ?m" using same_outside_put_chunk(1)[OF c(4)] .
    have ch: "chunks ?m p [(s, False)] (p + s)"
      using chunk_put_chunk[of s p MM_FLAG_BLOCK "hmem h"] c(4,5) lim by (simp add: MM_FLAG_BLOCK_def)
    have "heap_inv (h\<lparr>entries := ?es, hmem := ?m\<rparr>) (xs @ [(s, False)] @ ys)"
      by (rule heap_inv_replace[OF inv[unfolded c(1)] c(2) so ch]) (use mes in simp)
    moreover have "heap_carve n False i h = (p + 8, h\<lparr>entries := ?es, hmem := ?m\<rparr>)"
      using heap_carve_whole[of h i p s n] c n(2) True lim by (simp add: p_def[symmetric] heap_del_entry_def)
    ultimately show ?thesis
      using True so srt'[OF so] c by (intro exI[of _ xs] exI[of _ s] exI[of _ ys]) (simp add: p_def[symmetric] sorted_index_def)
  next
    case False
    let ?q = "p + (n + 16)" and ?r = "s - (n + 16)"
    let ?m = "put_hole ?q ?r (put_chunk p (n + 16) MM_FLAG_BLOCK (hmem h))"
    have so1: "same_outside ?q (p + s) (put_chunk p (n + 16) MM_FLAG_BLOCK (hmem h)) ?m"
      using same_outside_put_chunk(2)[of ?r ?q] False by simp
    have so: "same_outside p (p + s) (hmem h) ?m"
      using same_outside_trans[OF same_outside_put_chunk(1)[of "n + 16" p "hmem h" MM_FLAG_BLOCK] so1, of p "p + s"] False by simp
    have c1: "chunk ?m p (n + 16) False"
      using chunk_put_chunk[of "n + 16" p MM_FLAG_BLOCK "hmem h"] chunk_same[OF so1, of p "n + 16"] False c(5) lim
      by (simp add: MM_FLAG_BLOCK_def)
    have c2: "chunk ?m ?q ?r True" using False c(5) lim by (intro chunk_put_hole) auto
    have ch: "chunks ?m p [(n + 16, False), (?r, True)] (p + s)" using c1 c2 False by simp
    have "heap_inv (h\<lparr>entries := add_entry ?m ?q ?es, hmem := ?m\<rparr>) (xs @ [(n + 16, False), (?r, True)] @ ys)"
      by (rule heap_inv_replace[OF inv[unfolded c(1)] c(2) so ch]) (use mes in simp)
    moreover have "heap_carve n False i h = (p + 8, h\<lparr>entries := add_entry ?m ?q ?es, hmem := ?m\<rparr>)"
      using heap_carve_split[of h i p s n] c False lim by (simp add: p_def[symmetric] heap_del_entry_def heap_add_entry_def)
    moreover have "sorted (map (hsize ?m) (add_entry ?m ?q ?es))" by (rule sorted_add_entry[OF srt'[OF so]])
    ultimately show ?thesis
      using False so c by (intro exI[of _ xs] exI[of _ s] exI[of _ ys]) (simp add: p_def[symmetric] sorted_index_def)
  qed
qed

section \<open>Properties of allocation\<close>


text \<open>A fresh heap is one hole.\<close>

definition demo_heap :: heap where
  "demo_heap = create_heap 0x10000 0x20000 0x30000 (\<lambda>_. 0)"

lemma create_heap_inv:
  assumes "start < 2 ^ 30" "end0 < 2 ^ 31" "start mod PAGE = 0" "end0 mod PAGE = 0" "start + 0x2000 < end0"
  shows "heap_inv (create_heap start end0 me m) [(end0 - (start + 0x2000), True)]"
    "sorted_index (create_heap start end0 me m)" "entries (create_heap start end0 me m) = [start + 0x2000]"
    "hsize (hmem (create_heap start end0 me m)) (start + 0x2000) = end0 - (start + 0x2000)"
proof -
  let ?p = "start + 0x2000" and ?s = "end0 - (start + 0x2000)"
  have "(start + 0x2000) mod PAGE = 0" using assms(3) by (simp add: PAGE_def mod_add_eq[symmetric])
  then have a: "ASSERT_ALIGN start = start" "ASSERT_ALIGN end0 = end0" "ASSERT_ALIGN ?p = ?p"
    using assms by (simp_all add: ASSERT_ALIGN_def)
  have "PAGE dvd end0 - ?p" using assms(3,4) \<open>(start + 0x2000) mod PAGE = 0\<close> by (simp add: dvd_diff_nat mod_eq_0_iff_dvd)
  then have s16: "16 \<le> ?s" using assms(5) by (auto simp: PAGE_def elim!: dvdE)
  let ?m1 = "set_flag ?p MM_FLAG_HOLE (set_size ?p ?s (set_magic ?p m))"
  have h: "create_heap start end0 me m =
      \<lparr>hmem = set_fheader (end0 - 8) ?p (set_magic (end0 - 8) ?m1), entries = [?p], hstart = ?p, hend = end0, memend = ASSERT_ALIGN me\<rparr>"
    using assms s16 a by (simp add: create_heap_def MM_INDEX_COUNT_def HDR_def Let_def)
  have f: "end0 - 8 = ?p + ?s - 8" using assms(5) by simp
  have hs: "hsize (set_size ?p ?s x) ?p = ?s" for x
    using size_word[of ?s "hflag x ?p"] hflag_le[of x ?p] assms(2) by (simp add: set_size_def hsize_def)
  have "hsize ?m1 ?p = ?s" "hflag ?m1 ?p = MM_FLAG_HOLE"
    using size_word[of ?s MM_FLAG_HOLE] flag_word[of ?s MM_FLAG_HOLE] assms(2) hs
    unfolding set_flag_def by (simp_all add: hsize_def[of "store32 _ _ _"] hflag_def[of "store32 _ _ _"] MM_FLAG_HOLE_def)
  moreover have "magic ?m1 ?p = MM_MAGIC" using MM_MAGIC_mod by (simp add: mem_ops load_store_other)
  ultimately have "chunk (set_fheader (?p + ?s - 8) ?p (set_magic (?p + ?s - 8) ?m1)) ?p ?s True"
    using assms s16 by (intro chunk_set_footer) simp_all
  then have c: "chunk (hmem (create_heap start end0 me m)) ?p ?s True" unfolding h f[symmetric] by simp
  moreover have "?p + ?s = end0" using assms(5) by simp
  ultimately show "heap_inv (create_heap start end0 me m) [(?s, True)]"
    using assms(2) by (simp add: heap_inv_def) (simp add: h)
  show "hsize (hmem (create_heap start end0 me m)) ?p = ?s" using c by (simp add: chunk_def)
  show "sorted_index (create_heap start end0 me m)" "entries (create_heap start end0 me m) = [?p]"
    by (simp_all add: h sorted_index_def)
qed


section \<open>Exhaustion\<close>

lemma word_of_nat_byte: "v mod 2 ^ 8 = unat w \<Longrightarrow> word_of_nat v = (w :: uchar)"
  using unat_byte[of v] by (metis unsigned_word_eqI)

lemma store_load [simp]: "store32 m a (load32 m a) = m"
proof -
  have u: "unat w < 256" for w :: uchar using unsigned_less[of w] by simp
  let ?b0 = "unat (m a)" and ?b1 = "unat (m (a + 1))" and ?b2 = "unat (m (a + 2))" and ?b3 = "unat (m (a + 3))"
  have l: "load32 m a = ?b0 + 2 ^ 8 * (?b1 + 2 ^ 8 * (?b2 + 2 ^ 8 * ?b3))" by (simp add: load32_def)
  have b0: "?b0 < 2 ^ 8" "?b1 < 2 ^ 8" "?b2 < 2 ^ 8" using u by auto
  have d1: "load32 m a div 2 ^ 8 = ?b1 + 2 ^ 8 * (?b2 + 2 ^ 8 * ?b3)" unfolding l using b0 by simp
  have d2: "load32 m a div 2 ^ 16 = ?b2 + 2 ^ 8 * ?b3"
    using div_mult2_eq[of "load32 m a" "2 ^ 8" "2 ^ 8"] b0 unfolding d1 by simp
  have d3: "load32 m a div 2 ^ 24 = ?b3"
    using div_mult2_eq[of "load32 m a" "2 ^ 16" "2 ^ 8"] b0 unfolding d2 by simp
  have q: "(x + 2 ^ 8 * r) mod 2 ^ 8 = x" if "x < 2 ^ 8" for x r :: nat using that by simp
  have "word_of_nat (load32 m a) = m a" by (rule word_of_nat_byte) (simp only: l q[OF b0(1)])
  moreover have "word_of_nat (load32 m a div 2 ^ 8) = m (a + 1)" by (rule word_of_nat_byte) (simp only: d1 q[OF b0(2)])
  moreover have "word_of_nat (load32 m a div 2 ^ 16) = m (a + 2)" by (rule word_of_nat_byte) (simp only: d2 q[OF b0(3)])
  moreover have "word_of_nat (load32 m a div 2 ^ 24) = m (a + 3)"
    by (rule word_of_nat_byte) (use d3 u[of "m (a + 3)"] in simp)
  ultimately show ?thesis by (simp add: store32_def)
qed

lemma set_size_same: "set_size p (hsize m p) m = m"
proof -
  have "hsize m p mod 2 ^ 31 + 2 ^ 31 * hflag m p = load32 m (p + 4)" by (simp add: hsize_def hflag_def)
  then show ?thesis by (simp only: set_size_def store_load)
qed

lemma last_hole_in: "last_hole es v idx = Some e \<Longrightarrow> e \<in> set es \<or> idx = Some e"
  by (induction es arbitrary: v idx) (fastforce split: if_splits)+

lemma last_hole_Some: "\<exists>e \<in> set es. v < e \<Longrightarrow> \<exists>e. last_hole es v idx = Some e"
proof (induction es arbitrary: v idx)
  case (Cons x es)
  have st: "\<exists>e. last_hole es v (Some y) = Some e" for es v y by (induction es arbitrary: v y) auto
  show ?case using Cons st by auto
qed simp

definition heap_full :: "nat \<Rightarrow> heap \<Rightarrow> bool" where
  "heap_full n h \<longleftrightarrow> (\<forall>e \<in> set (entries h). hsize (hmem h) e < n + 16) \<and>
     hstart h + ASSERT_ALIGN (hend h - hstart h + n + 16) > memend h \<and>
     hstart h + ASSERT_ALIGN (hend h - hstart h + n + 16) < 2 ^ 32 \<and> hend h - hstart h + n + 16 < 2 ^ 32"

lemma heap_grow_full:
  assumes inv: "heap_inv h cs" and full: "heap_full n h" and ne: "entries h \<noteq> []" and st: "0 < hstart h"
  shows "heap_grow (n + 16) h = h"
proof -
  have le: "hstart h \<le> hend h" "hend h < 2 ^ 32" using inv chunks_end by (fastforce simp: heap_inv_def)+
  have pos: "0 < e" if "e \<in> set (entries h)" for e
    using heap_inv_hole[OF inv that] st by (metis add_gr_0)
  then obtain e where e: "last_hole (entries h) 0 None = Some e"
    using last_hole_Some[of "entries h" 0 None] ne by (metis list.set_intros(1) neq_Nil_conv)
  then have "e \<in> set (entries h)" using last_hole_in by fastforce
  then obtain xs s ys where c: "cs = xs @ (s, True) # ys" "e = hstart h + total xs" "hsize (hmem h) e = s"
      "16 \<le> s" "s < 2 ^ 31" "e + s \<le> hend h" using heap_inv_hole[OF inv] by blast
  have "chunk (hmem h) e s True" using inv c(1,2) by (simp add: heap_inv_def)
  then have f: "fheader (hmem h) (e + s - 8) = e" "magic (hmem h) (e + s - 8) = MM_MAGIC" by (simp_all add: chunk_def)
  have s1: "set_fheader (e + s - 8) e (hmem h) = hmem h" "set_magic (e + s - 8) (hmem h) = hmem h"
    using f store_load[of "hmem h" "e + s - 8 + 4"] store_load[of "hmem h" "e + s - 8"]
    by (simp_all add: set_fheader_def set_magic_def fheader_def magic_def)
  have ex: "expand_heap (add32 (sub32 (hend h) (hstart h)) (n + 16)) h = h"
    using full le by (simp add: expand_heap_def heap_full_def add.assoc Let_def)
  show ?thesis
    using e ex c(3,4,5,6) le set_size_same[of e "hmem h"] s1
    by (simp add: heap_grow_def Let_def HDR_def)
qed

text \<open>
  Exhaustion. When no hole has room and the heap has reached its memory limit, \<open>heap_malloc\<close> does
  not report failure: growing the heap changes nothing and the function calls itself on the same heap,
  so that the call never returns.
\<close>

lemma heap_malloc_exhausted:
  assumes inv: "heap_inv h cs" and full: "heap_full n h" and ne: "entries h \<noteq> []" and st: "0 < hstart h"
    and n: "0 < n" "n + 16 < 2 ^ 32"
  shows "heap_malloc n False h = None"
proof -
  have none: "find_smallest_hole (n + 16) False h = None"
    using full by (auto simp: find_smallest_hole_def find_index_None fits_def heap_full_def)
  define P where "P n' al h' r \<longleftrightarrow> (n', al, h') \<noteq> (n, False, h)" for n' h' and al :: bool and r :: "nat \<times> heap"
  have "P n' al h' r" if "heap_malloc n' al h' = Some r" for n' al h' r
  proof (rule heap_malloc.raw_induct[OF _ that, of P])
    fix f :: "nat \<Rightarrow> bool \<Rightarrow> heap \<Rightarrow> (nat \<times> heap) option" and n' al h' r
    assume IH: "\<And>n' al h' r. f n' al h' = Some r \<Longrightarrow> P n' al h' r"
      and b: "(let newsize = add32 n' 16 in if n' = 0 then Some (0, h')
        else case find_smallest_hole newsize al h' of None \<Rightarrow> f n' al (heap_grow newsize h')
          | Some i \<Rightarrow> Some (heap_carve n' al i h')) = Some r"
    show "P n' al h' r"
    proof (cases "(n', al, h') = (n, False, h)")
      case True
      with b none n heap_grow_full[OF inv full ne st] have "f n False h = Some r" by (simp add: Let_def)
      then show ?thesis using IH True by simp
    qed (simp add: P_def)
  qed
  then have "P n False h r" if "heap_malloc n False h = Some r" for r using that by blast
  then show ?thesis by (cases "heap_malloc n False h") (simp_all add: P_def)
qed

lemma heap_malloc_exhausted_witness:
  "heap_malloc 0x1F000 False demo_heap = None"
proof -
  let ?h = "demo_heap"
  have i: "heap_inv ?h [(0xE000, True)]" "entries ?h = [0x12000]" "hsize (hmem ?h) 0x12000 = 0xE000"
    using create_heap_inv[of "0x10000" "0x20000" "0x30000" "\<lambda>_. 0"] by (simp_all add: demo_heap_def PAGE_def)
  have st: "hstart ?h = 0x12000" "hend ?h = 0x20000" "memend ?h = 0x30000"
    by (simp_all add: demo_heap_def create_heap_def Let_def ASSERT_ALIGN_def PAGE_def MM_INDEX_COUNT_def)
  have "heap_full 0x1F000 ?h" using i(2,3) st by (simp add: heap_full_def ASSERT_ALIGN_def PAGE_def)
  then show ?thesis by (rule heap_malloc_exhausted[OF i(1)]) (use i(2) st in simp_all)
qed

section \<open>Release\<close>

text \<open>The stores of \<^verbatim>\<open>heap_free\<close> for a block between two allocated ones: only its flag changes.\<close>

lemma set_flag_chunk:
  assumes "chunk m p s b" "f < 2"
  shows "chunk (set_flag p f m) p s (f = 1)" "same_outside p (p + s) m (set_flag p f m)"
proof -
  obtain t where t: "s = 16 + t" using assms(1) le_Suc_ex by (auto simp: chunk_def)
  have s: "hsize m p = s" "s < 2 ^ 31" using assms(1) by (auto simp: chunk_def)
  have "hsize (set_flag p f m) p = s" "hflag (set_flag p f m) p = f"
    using size_word[OF s(2) assms(2)] flag_word[OF s(2) assms(2)] s assms(2)
    by (simp_all add: set_flag_def hsize_def[of "store32 _ _ _"] hflag_def[of "store32 _ _ _"])
  moreover have "load32 (set_flag p f m) p = load32 m p" "load32 (set_flag p f m) (p + s - 8) = load32 m (p + s - 8)"
    "load32 (set_flag p f m) (p + s - 8 + 4) = load32 m (p + s - 8 + 4)"
    using t by (simp_all add: set_flag_def load_store_other)
  ultimately show "chunk (set_flag p f m) p s (f = 1)"
    using assms by (auto simp: chunk_def magic_def fheader_def MM_FLAG_HOLE_def MM_FLAG_BLOCK_def)
  show "same_outside p (p + s) m (set_flag p f m)"
    unfolding set_flag_def using t by (intro same_outside_store same_outside_refl) auto
qed

lemma heap_free_plain:
  assumes inv: "heap_inv h (xs @ (sl, False) # (s, False) # (sr, False) # ys)" and p: "p = hstart h + total xs + sl"
  shows "heap_free (p + 8) h = heap_add_entry p (h\<lparr>hmem := set_flag p MM_FLAG_HOLE (hmem h)\<rparr>)"
proof -
  let ?m = "hmem h" and ?m1 = "set_flag p MM_FLAG_HOLE (hmem h)"
  have c: "chunk ?m (p - sl) sl False" "chunk ?m p s False" "chunk ?m (p + s) sr False" "chunks ?m (p + s + sr) ys (hend h)"
    using inv p by (auto simp: heap_inv_def add.assoc)
  have e: "p + s + sr \<le> hend h" "hend h < 2 ^ 32" using chunks_end[OF c(4)] inv by (auto simp: heap_inv_def)
  have sz: "16 \<le> sl" "16 \<le> s" "16 \<le> sr" "sl \<le> p" using c p by (auto simp: chunk_def)
  have so: "same_outside p (p + s) ?m ?m1" using set_flag_chunk(2)[OF c(2), of MM_FLAG_HOLE] by (simp add: MM_FLAG_HOLE_def)
  have l: "chunk ?m1 (p - sl) sl False" using chunk_same[OF so, of "p - sl" sl] c(1) sz by simp
  have r: "chunk ?m1 (p + s) sr False" using chunk_same[OF so, of "p + s" sr] c(3) by simp
  have "p - sl + sl - 8 = p - 8" using sz by simp
  then have lf: "fheader ?m1 (p - 8) = p - sl" "hflag ?m1 (p - sl) \<noteq> MM_FLAG_HOLE"
    using l by (auto simp: chunk_def MM_FLAG_HOLE_def MM_FLAG_BLOCK_def)
  have rf: "hflag ?m1 (p + s) \<noteq> MM_FLAG_HOLE" using r by (auto simp: chunk_def MM_FLAG_HOLE_def MM_FLAG_BLOCK_def)
  have m: "magic ?m p = MM_MAGIC" "magic ?m (p + s - 8) = MM_MAGIC" "hsize ?m p = s" using c(2) by (auto simp: chunk_def)
  have a: "add32 (p + s - 8) 8 = p + s" "sub32 p 8 = p - 8" "sub32 (p + 8) 8 = p" "sub32 (add32 p s) 8 = p + s - 8"
    using e sz by auto
  have ne: "p + s \<noteq> hend h" using e sz by simp
  show ?thesis using m a lf rf ne unfolding heap_free_def Let_def HDR_def by simp
qed


text \<open>A small heap in memory: three blocks, a hole and a block of 32 bytes each.\<close>

fun build :: "nat \<Rightarrow> (nat \<times> bool) list \<Rightarrow> memory \<Rightarrow> memory" where
  "build a [] m = m"
| "build a ((s, hole) # cs) m = build (a + s) cs (put_chunk a s (if hole then MM_FLAG_HOLE else MM_FLAG_BLOCK) m)"

lemma build_outside: "\<forall>(s, b) \<in> set cs. 16 \<le> s \<Longrightarrow> same_outside a (a + total cs) m (build a cs m)"
proof (induction a cs m rule: build.induct)
  case (2 a s hole cs m)
  have so: "same_outside (a + s) (a + s + total cs) (put_chunk a s (if hole then MM_FLAG_HOLE else MM_FLAG_BLOCK) m)
      (build (a + s) cs (put_chunk a s (if hole then MM_FLAG_HOLE else MM_FLAG_BLOCK) m))" using 2 by simp
  have "16 \<le> s" using 2(2) by simp
  from same_outside_trans[OF same_outside_put_chunk(1)[OF this] so, of a "a + (s + total cs)"] show ?case by (simp add: add.assoc)
qed simp

lemma chunks_build:
  "\<forall>(s, b) \<in> set cs. 16 \<le> s \<and> s < 2 ^ 31 \<Longrightarrow> a + total cs < 2 ^ 32 \<Longrightarrow> chunks (build a cs m) a cs (a + total cs)"
proof (induction a cs m rule: build.induct)
  case (2 a s hole cs m)
  let ?f = "if hole then MM_FLAG_HOLE else MM_FLAG_BLOCK"
  have s: "16 \<le> s" "s < 2 ^ 31" "a + s < 2 ^ 32" using 2(2,3) by auto
  have "chunk (put_chunk a s ?f m) a s hole"
    using chunk_put_chunk[OF s, of MM_FLAG_HOLE m] chunk_put_chunk[OF s, of MM_FLAG_BLOCK m]
    by (cases hole) (simp_all add: MM_FLAG_HOLE_def MM_FLAG_BLOCK_def)
  moreover have "same_outside (a + s) (a + s + total cs) (put_chunk a s ?f m) (build (a + s) cs (put_chunk a s ?f m))"
    using 2(2) by (intro build_outside) auto
  ultimately have "chunk (build (a + s) cs (put_chunk a s ?f m)) a s hole" using chunk_same by auto
  then show ?case using 2 by (simp add: add.assoc)
qed simp

definition demo_blocks :: heap where
  "demo_blocks = \<lparr>hmem = build 0x1000 [(32, False), (32, False), (32, False), (32, True), (32, False)] (\<lambda>_. 0),
     entries = [0x1060], hstart = 0x1000, hend = 0x10A0, memend = 0x10000\<rparr>"

lemma demo_blocks_inv:
  "heap_inv demo_blocks [(32, False), (32, False), (32, False), (32, True), (32, False)]" "sorted_index demo_blocks"
proof -
  have "chunks (build 0x1000 [(32, False), (32, False), (32, False), (32, True), (32, False)] (\<lambda>_. 0)) 0x1000
      [(32, False), (32, False), (32, False), (32, True), (32, False)]
      (0x1000 + total [(32, False), (32, False), (32, False), (32, True), (32, False)])"
    by (rule chunks_build) auto
  then show "heap_inv demo_blocks [(32, False), (32, False), (32, False), (32, True), (32, False)]"
    unfolding heap_inv_def demo_blocks_def by (simp del: build.simps chunks.simps)
  show "sorted_index demo_blocks" by (simp add: sorted_index_def demo_blocks_def)
qed


text \<open>
  Releasing a block in front of a hole merges the two, but leaves the footer of the merged hole
  pointing to the old hole's header inside it: the result is not a well-formed chunk, and the next
  release behind it will merge with the stale header instead of the hole in the index.
\<close>

lemma heap_free_stale_footer:
  assumes inv: "heap_inv h (xs @ (sl, False) # (s, False) # (sr, True) # (sx, False) # ys)"
    and p: "p = hstart h + total xs + sl" and big: "s + sr < 2 ^ 31"
  shows "hsize (hmem (heap_free (p + 8) h)) p = s + sr \<and>
    fheader (hmem (heap_free (p + 8) h)) (p + (s + sr) - 8) = p + s \<and>
    \<not> chunk (hmem (heap_free (p + 8) h)) p (s + sr) True"
proof -
  let ?m = "hmem h" and ?m1 = "set_flag p MM_FLAG_HOLE (hmem h)"
  let ?m2 = "set_size p (s + sr) ?m1"
  have c: "chunk ?m (p - sl) sl False" "chunk ?m p s False" "chunk ?m (p + s) sr True" "chunk ?m (p + s + sr) sx False"
      "chunks ?m (p + s + sr + sx) ys (hend h)"
    using inv p by (auto simp: heap_inv_def add.assoc)
  have e: "p + s + sr + sx \<le> hend h" "hend h < 2 ^ 32" using chunks_end[OF c(5)] inv by (auto simp: heap_inv_def)
  have sz: "16 \<le> sl" "16 \<le> s" "16 \<le> sr" "16 \<le> sx" "sl \<le> p" using c p by (auto simp: chunk_def)
  have so: "same_outside p (p + s) ?m ?m1" using set_flag_chunk(2)[OF c(2), of MM_FLAG_HOLE] by (simp add: MM_FLAG_HOLE_def)
  have so2: "same_outside p (p + s) ?m ?m2" unfolding set_size_def using so sz by (intro same_outside_store) auto
  have l: "chunk ?m1 (p - sl) sl False" using chunk_same[OF so, of "p - sl" sl] c(1) sz by simp
  have r: "chunk ?m1 (p + s) sr True" using chunk_same[OF so, of "p + s" sr] c(3) by simp
  have r2: "chunk ?m2 (p + s) sr True" using chunk_same[OF so2, of "p + s" sr] c(3) by simp
  have "p - sl + sl - 8 = p - 8" using sz by simp
  then have lf: "fheader ?m1 (p - 8) = p - sl" "hflag ?m1 (p - sl) \<noteq> MM_FLAG_HOLE"
    using l by (auto simp: chunk_def MM_FLAG_HOLE_def MM_FLAG_BLOCK_def)
  have rf: "hflag ?m1 (p + s) = MM_FLAG_HOLE" "magic ?m1 (p + s) = MM_MAGIC" "hsize ?m1 (p + s) = sr" "hsize ?m2 (p + s) = sr"
    using r r2 by (auto simp: chunk_def)
  have m: "magic ?m p = MM_MAGIC" "magic ?m (p + s - 8) = MM_MAGIC" "hsize ?m p = s" using c(2) by (auto simp: chunk_def)
  have hs: "hsize ?m1 p = s" using set_flag_chunk(1)[OF c(2), of MM_FLAG_HOLE] by (simp add: chunk_def MM_FLAG_HOLE_def)
  have a: "add32 (p + s - 8) 8 = p + s" "sub32 p 8 = p - 8" "sub32 (p + 8) 8 = p" "sub32 (add32 p s) 8 = p + s - 8"
    "sub32 (add32 (p + s) sr) 8 = p + s + sr - 8" "add32 (p + s + sr - 8) 8 = p + s + sr" "add32 s sr = s + sr"
    using e sz by auto
  have ne: "p + s + sr \<noteq> hend h" using e sz by simp
  define h3 where "h3 = heap_del_entry (heap_find_entry (p + s) (h\<lparr>hmem := ?m2\<rparr>)) (h\<lparr>hmem := ?m2\<rparr>)"
  have h3: "hmem h3 = ?m2" "hend h3 = hend h" by (simp_all add: h3_def heap_del_entry_def split: option.splits)
  have "heap_free (p + 8) h = heap_add_entry p h3"
    using m a lf rf hs ne h3 unfolding heap_free_def Let_def HDR_def by (simp add: h3_def)
  then have hm: "hmem (heap_free (p + 8) h) = ?m2" using h3 by (simp add: heap_add_entry_def)
  have "fheader ?m2 (p + (s + sr) - 8) = p + s" using r2 by (simp add: chunk_def add.assoc)
  moreover have "hsize ?m2 p = s + sr"
    using set_size_flag(1)[OF big, of MM_FLAG_HOLE p ?m] by (simp add: MM_FLAG_HOLE_def)
  ultimately show ?thesis using sz by (simp add: hm chunk_def)
qed

lemma heap_free_stale_footer_witness:
  "hsize (hmem (heap_free 0x1048 demo_blocks)) 0x1040 = 64 \<and> fheader (hmem (heap_free 0x1048 demo_blocks)) 0x1078 = 0x1060"
proof -
  have st: "hstart demo_blocks = 0x1000" by (simp add: demo_blocks_def)
  have i: "heap_inv demo_blocks ([(32, False)] @ (32, False) # (32, False) # (32, True) # (32, False) # [])"
    using demo_blocks_inv(1) by simp
  from heap_free_stale_footer[OF i, of "0x1040"] show ?thesis by (simp add: st)
qed

section \<open>Page aligned allocation\<close>

lemma carve_aligned_pos:
  assumes "entries h ! i = p" "p mod PAGE = 0xFF8" "PAGE \<le> p" "p + PAGE < 2 ^ 32"
  shows "fst (heap_carve n True i h) = p + 8"
  using assms by (simp add: heap_carve_def Let_def split_def HDR_def PAGE_def div_greater_zero_iff)

lemma carve_aligned_mem:
  assumes p: "entries h = [p]" "p mod PAGE = 0xFF8" "PAGE \<le> p" "p + PAGE < 2 ^ 32"
    and s: "hsize (hmem h) p = s" "2 * (n + 16) < s" "s < 2 ^ 31" "p + s < 2 ^ 32" "p + s \<le> hend h"
  shows "\<exists>h1. heap_carve n True 0 h = (p + 8, h1) \<and> entries h1 = [p, p + (n + 16)] \<and> hsize (hmem h1) p = n + 16"
proof -
  let ?q = "p + (n + 16)" and ?r = "s - (n + 16)"
  let ?m1 = "set_flag p MM_FLAG_HOLE (set_size p 0 (hmem h))"
  let ?m2 = "set_fheader (p - 8) p (set_magic p (set_magic (p - 8) ?m1))"
  have p8: "8 \<le> p" using p(3) by (simp add: PAGE_def)
  have np: "sub32 (sub32 (add32 p PAGE) (p mod PAGE)) HDR = p" using p by (simp add: HDR_def PAGE_def)
  have "hsize (set_size p 0 (hmem h)) p = 0"
    using size_word[of 0 "hflag (hmem h) p"] hflag_le[of "hmem h" p] by (simp add: set_size_def hsize_def)
  then have "hsize ?m1 p = 0"
    using size_word[of 0 MM_FLAG_HOLE] unfolding set_flag_def by (simp add: hsize_def[of "store32 _ _ _"] MM_FLAG_HOLE_def)
  moreover obtain t where "p = 8 + t" using p8 le_Suc_ex by blast
  ultimately have h2: "hsize ?m2 p = 0" unfolding set_fheader_def set_magic_def by (simp add: hsize_hflag_store)
  let ?m3 = "put_chunk p (n + 16) MM_FLAG_BLOCK ?m2"
  let ?m5 = "put_hole ?q ?r ?m3"
  have pc: "put_chunk p (n + 16) MM_FLAG_BLOCK ?m2 =
      set_fheader (p + 8 + n) p (set_magic p (set_magic (p + 8 + n) (set_size p (n + 16) (set_flag p MM_FLAG_BLOCK ?m2))))"
  proof -
    have "p + (n + 16) - 8 = p + 8 + n" by simp
    then show ?thesis by (simp only: put_chunk_def)
  qed
  have q: "hsize (set_size ?q ?r (set_flag ?q MM_FLAG_HOLE m)) ?q = ?r" for m
    using set_size_flag(1)[of ?r MM_FLAG_HOLE] s by (simp add: MM_FLAG_HOLE_def)
  have nf: "?q + ?r - 8 < hend h" using s by simp
  have "heap_carve n True 0 h = (p + 8, h\<lparr>entries := add_entry ?m5 ?q [p], hmem := ?m5\<rparr>)"
    unfolding pc using p s np h2 nf q p8
    by (simp add: heap_carve_def Let_def put_hole_def HDR_def PAGE_def div_greater_zero_iff heap_add_entry_def)
  moreover have "same_outside ?q (p + s) ?m3 ?m5" using same_outside_put_chunk(2)[of ?r ?q] s(2) by simp
  then have "chunk ?m5 p (n + 16) False"
    using chunk_put_chunk[of "n + 16" p MM_FLAG_BLOCK ?m2] chunk_same[of ?q "p + s" ?m3 ?m5 p "n + 16" False] s
    by (simp add: MM_FLAG_BLOCK_def)
  moreover have "chunk ?m5 ?q ?r True" using s by (intro chunk_put_hole) auto
  ultimately show ?thesis using s by (simp add: chunk_def)
qed

text \<open>
  Page aligned allocation from a hole whose payload is already aligned does not remove the hole
  from the index: two allocations in a row without a release in between return the same block.
\<close>

lemma heap_malloc_aligned_twice:
  assumes p: "entries h = [p]" "p mod PAGE = 0xFF8" "PAGE \<le> p" "p + PAGE < 2 ^ 32" and n: "0 < n"
    and s: "hsize (hmem h) p = s" "2 * (n + 16) < s" "s < 2 ^ 31" "p + s < 2 ^ 32" "p + s \<le> hend h"
  shows "\<exists>h1 h2. heap_malloc n True h = Some (p + 8, h1) \<and> heap_malloc n True h1 = Some (p + 8, h2)"
proof -
  have al: "(p + 8) mod PAGE = 0"
  proof -
    have "(p + 8) mod PAGE = (p mod PAGE + 8) mod PAGE" by (simp add: mod_add_left_eq)
    then show ?thesis using p(2) by (simp add: PAGE_def)
  qed
  have f: "fits m (n + 16) True p" if "n + 16 \<le> hsize m p" for m
    using that al p(4) s(2,3) by (simp add: fits_def Let_def HDR_def int32_def PAGE_def)
  have m: "heap_malloc n True g = Some (heap_carve n True 0 g)"
    if "entries g = p # es" "n + 16 \<le> hsize (hmem g) p" for g es
    using that f n s(2,3) by (subst heap_malloc.simps) (simp add: Let_def find_smallest_hole_def)
  obtain h1 where h1: "heap_carve n True 0 h = (p + 8, h1)" "entries h1 = [p, p + (n + 16)]" "hsize (hmem h1) p = n + 16"
    using carve_aligned_mem[OF p s] by blast
  have "heap_malloc n True h = Some (p + 8, h1)" using m[of h] p(1) s h1(1) by simp
  moreover have "heap_malloc n True h1 = Some (p + 8, snd (heap_carve n True 0 h1))"
    using m[of h1] h1(2,3) carve_aligned_pos[of h1 0 p n] p by (simp add: prod_eq_iff)
  ultimately show ?thesis by blast
qed

lemma heap_malloc_aligned_twice_witness:
  "\<exists>h1 h2. heap_malloc 64 True \<lparr>hmem = build 0x1FD8 [(32, False), (0x2000, True)] (\<lambda>_. 0), entries = [0x1FF8],
      hstart = 0x1FD8, hend = 0x3FF8, memend = 0x10000\<rparr> = Some (0x2000, h1) \<and> heap_malloc 64 True h1 = Some (0x2000, h2)"
proof -
  let ?m = "build 0x1FD8 [(32, False), (0x2000, True)] (\<lambda>_. 0)"
  let ?h = "\<lparr>hmem = ?m, entries = [0x1FF8], hstart = 0x1FD8, hend = 0x3FF8, memend = 0x10000\<rparr>"
  have "chunks ?m 0x1FD8 [(32, False), (0x2000, True)] (0x1FD8 + total [(32, False), (0x2000, True)])"
    by (rule chunks_build) auto
  then have "hsize ?m 0x1FF8 = 0x2000" by (simp add: chunk_def del: build.simps)
  then have "\<exists>h1 h2. heap_malloc 64 True ?h = Some (0x1FF8 + 8, h1) \<and> heap_malloc 64 True h1 = Some (0x1FF8 + 8, h2)"
    by (intro heap_malloc_aligned_twice[where s = "0x2000"]) (simp_all add: PAGE_def del: build.simps)
  then show ?thesis by (simp del: build.simps)
qed

end
