(* ===== verification/Boot.thy ===== *)
theory Boot
  imports Initrdfs Heap
begin

text \<open>
  What the kernel takes from the boot loader: \<^verbatim>\<open>read_multiboot_info\<close> of \<^verbatim>\<open>src/kernel/main.c\<close>, with the structures of
  \<^verbatim>\<open>src/include/multiboot.h\<close> in physical memory; the rounding to frames is that of theory \<open>Heap\<close>. The strings the loader points to are the parameter \<open>strs\<close>. \<open>None\<close> is a copy behind the end
  of a buffer.
\<close>

definition ASSUMED_WORKING_MEMEND :: nat where "ASSUMED_WORKING_MEMEND = 0x1000000"
definition IPC_MEMSIZE :: nat where "IPC_MEMSIZE = 0x400000"
definition BOOT_MODULE_STRLEN :: nat where "BOOT_MODULE_STRLEN = 256"
definition NR_BOOT_MODULES :: nat where "NR_BOOT_MODULES = 4"

text \<open>The 255 bytes of a module's string are followed by one byte of padding, which the code uses as well.\<close>

record boot_module =
  bm_addr :: nat
  bm_size :: nat
  bm_string :: cstr

record boot =
  kernel_cmdline :: cstr
  boot_modules :: "boot_module list"
  boot_modules_count :: nat
  memory_end :: nat
  working_memstart :: nat
  initrd_location :: nat
  kmalloc_pos :: nat

definition empty_module :: boot_module where
  "empty_module = \<lparr>bm_addr = 0, bm_size = 0, bm_string = replicate BOOT_MODULE_STRLEN NUL\<rparr>"

definition boot_start :: boot where
  "boot_start = \<lparr>kernel_cmdline = replicate 256 NUL, boot_modules = replicate NR_BOOT_MODULES empty_module, boot_modules_count = 0, memory_end = 0,
     working_memstart = 0, initrd_location = 0, kmalloc_pos = 0\<rparr>"

text \<open>The description of module \<open>i\<close> has 16 bytes.\<close>

definition read_module :: "memory \<Rightarrow> (nat \<Rightarrow> cstr) \<Rightarrow> nat \<Rightarrow> nat \<Rightarrow> boot_module option" where
  "read_module m strs mods i = do {
     let p = mods + 16 * i;
     s \<leftarrow> strncpy (replicate BOOT_MODULE_STRLEN NUL) (strs (load32 m (p + 8))) (word_of_nat BOOT_MODULE_STRLEN);
     Some \<lparr>bm_addr = load32 m p, bm_size = sub32 (load32 m (p + 4)) (load32 m p), bm_string = s[BOOT_MODULE_STRLEN - 1 := NUL]\<rparr>
   }"

fun read_modules :: "memory \<Rightarrow> (nat \<Rightarrow> cstr) \<Rightarrow> nat \<Rightarrow> nat list \<Rightarrow> boot \<Rightarrow> boot option" where
  "read_modules m strs mods [] b = Some b"
| "read_modules m strs mods (i # is) b = do {
     x \<leftarrow> read_module m strs mods i;
     read_modules m strs mods is
       (b\<lparr>boot_modules := (boot_modules b)[i := x], initrd_location := (if load32 m (bm_addr x) = INITRD_MAGIC then bm_addr x else initrd_location b)\<rparr>)
   }"

definition read_multiboot_info :: "memory \<Rightarrow> (nat \<Rightarrow> cstr) \<Rightarrow> nat \<Rightarrow> nat \<Rightarrow> boot \<Rightarrow> boot option" where
  "read_multiboot_info m strs kernel_end mbd b0 = do {
     let flags = load32 m mbd;
     let b1 = b0\<lparr>memory_end := (if odd flags then load32 m (mbd + 8) * 1024 mod 2 ^ 32 else ASSUMED_WORKING_MEMEND)\<rparr>;
     b2 \<leftarrow> (if odd (flags div 4)
            then map_option (\<lambda>s. b1\<lparr>kernel_cmdline := s[255 := NUL]\<rparr>) (strncpy (kernel_cmdline b1) (strs (load32 m (mbd + 16))) 256)
            else Some b1);
     b3 \<leftarrow> (if odd (flags div 8)
            then (let n = load32 m (mbd + 20); n' = (if n > NR_BOOT_MODULES then NR_BOOT_MODULES else n)
                  in read_modules m strs (load32 m (mbd + 24)) [0..<n']
                       (b2\<lparr>boot_modules := replicate NR_BOOT_MODULES empty_module, boot_modules_count := n'\<rparr>))
            else Some b2);
     let w = ASSERT_ALIGN (if boot_modules_count b3 \<noteq> 0
                       then (let x = boot_modules b3 ! (boot_modules_count b3 - 1) in add32 (bm_addr x) (bm_size x)) else kernel_end);
     Some (b3\<lparr>working_memstart := w, kmalloc_pos := add32 w IPC_MEMSIZE\<rparr>)
   }"

section \<open>Memory above the modules\<close>

lemma align_ok: "v + 0x1000 < 2 ^ 32 \<Longrightarrow> v \<le> ASSERT_ALIGN v \<and> ASSERT_ALIGN v < v + 0x1000 \<and> ASSERT_ALIGN v mod 0x1000 = 0"
proof -
  assume v: "v + 0x1000 < 2 ^ 32"
  have d: "v - v mod 0x1000 = v div 0x1000 * 0x1000" "v mod 0x1000 < 0x1000" by (simp_all add: minus_mod_eq_div_mult)
  show ?thesis
  proof (cases "v mod 0x1000 = 0")
    case True
    then show ?thesis by (auto simp: ASSERT_ALIGN_def PAGE_def)
  next
    case False
    have "ASSERT_ALIGN v = v - v mod 0x1000 + 0x1000" using False v by (simp add: ASSERT_ALIGN_def PAGE_def)
    moreover have "(v - v mod 0x1000 + 0x1000) mod 0x1000 = 0" unfolding d(1) by simp
    moreover have "v mod 0x1000 \<le> v" by simp
    ultimately show ?thesis using False d(2) by (intro conjI) (linarith | simp)+
  qed
qed

lemma read_modules_ok:
  assumes "\<And>i. i \<in> set is \<Longrightarrow> read_module m strs mods i = Some (x i)" "distinct is" "\<And>i. i \<in> set is \<Longrightarrow> i < length (boot_modules b)"
  shows "\<exists>b'. read_modules m strs mods is b = Some b' \<and> length (boot_modules b') = length (boot_modules b) \<and>
    (\<forall>i. boot_modules b' ! i = (if i \<in> set is then x i else boot_modules b ! i)) \<and> boot_modules_count b' = boot_modules_count b \<and>
    memory_end b' = memory_end b \<and> kernel_cmdline b' = kernel_cmdline b"
  using assms
proof (induction "is" arbitrary: b)
  case (Cons i js)
  let ?b = "b\<lparr>boot_modules := (boot_modules b)[i := x i],
      initrd_location := (if load32 m (bm_addr (x i)) = INITRD_MAGIC then bm_addr (x i) else initrd_location b)\<rparr>"
  have "\<exists>b'. read_modules m strs mods js ?b = Some b' \<and> length (boot_modules b') = length (boot_modules ?b) \<and>
    (\<forall>i. boot_modules b' ! i = (if i \<in> set js then x i else boot_modules ?b ! i)) \<and> boot_modules_count b' = boot_modules_count ?b \<and>
    memory_end b' = memory_end ?b \<and> kernel_cmdline b' = kernel_cmdline ?b"
    by (rule Cons.IH) (use Cons.prems in auto)
  then obtain b' where b': "read_modules m strs mods js ?b = Some b'" "length (boot_modules b') = length (boot_modules b)"
      "\<And>k. boot_modules b' ! k = (if k \<in> set js then x k else (boot_modules b)[i := x i] ! k)" "boot_modules_count b' = boot_modules_count b"
      "memory_end b' = memory_end b" "kernel_cmdline b' = kernel_cmdline b" by auto
  have "boot_modules b' ! k = (if k \<in> set (i # js) then x k else boot_modules b ! k)" for k
    using b'(3)[of k] Cons.prems(3)[of i] by (cases "k = i") auto
  then show ?case using b' Cons.prems(1)[of i] by simp
qed simp

text \<open>
  At most four modules that lie one behind the other: the memory the kernel manages begins at a frame boundary behind all of them, and
  the early allocator behind the area for shared memory.
\<close>

lemma boot_memory_above_modules:
  assumes "odd (load32 m mbd div 8)" "even (load32 m mbd div 4)" "load32 m (mbd + 20) = n" "0 < n" "n \<le> NR_BOOT_MODULES" "load32 m (mbd + 24) = mods"
    and "\<And>i. i < n \<Longrightarrow> terminated (strs (load32 m (mods + 16 * i + 8))) \<and> length (content (strs (load32 m (mods + 16 * i + 8)))) < BOOT_MODULE_STRLEN"
    and "\<And>i. i < n \<Longrightarrow> load32 m (mods + 16 * i) \<le> load32 m (mods + 16 * i + 4)"
    and "\<And>i. i + 1 < n \<Longrightarrow> load32 m (mods + 16 * i + 4) \<le> load32 m (mods + 16 * (i + 1))"
    and "load32 m (mods + 16 * (n - 1) + 4) + 0x401000 < 2 ^ 32"
  shows "\<exists>b. read_multiboot_info m strs kernel_end mbd boot_start = Some b \<and> working_memstart b mod 0x1000 = 0 \<and>
    (\<forall>i < n. load32 m (mods + 16 * i + 4) \<le> working_memstart b) \<and> kmalloc_pos b = working_memstart b + IPC_MEMSIZE"
proof -
  let ?s = "\<lambda>i. strs (load32 m (mods + 16 * i + 8))"
  let ?t = "\<lambda>i. content (?s i) @ replicate (BOOT_MODULE_STRLEN - length (content (?s i))) NUL"
  let ?x = "\<lambda>i. \<lparr>bm_addr = load32 m (mods + 16 * i), bm_size = sub32 (load32 m (mods + 16 * i + 4)) (load32 m (mods + 16 * i)),
    bm_string = (?t i)[BOOT_MODULE_STRLEN - 1 := NUL]\<rparr>"
  have u: "unat (word_of_nat BOOT_MODULE_STRLEN :: uint) = 256" by (simp add: BOOT_MODULE_STRLEN_def)
  have rm: "read_module m strs mods i = Some (?x i)" if "i < n" for i
  proof -
    have "strncpy (replicate BOOT_MODULE_STRLEN NUL) (?s i) (word_of_nat BOOT_MODULE_STRLEN) = Some (?t i)"
      using assms(7)[OF that] strncpy_fits[of "?s i" "word_of_nat BOOT_MODULE_STRLEN" "replicate BOOT_MODULE_STRLEN NUL"] u
      by (simp add: BOOT_MODULE_STRLEN_def)
    then show ?thesis by (simp add: read_module_def Let_def)
  qed
  let ?b = "boot_start\<lparr>memory_end := (if odd (load32 m mbd) then load32 m (mbd + 8) * 1024 mod 2 ^ 32 else ASSUMED_WORKING_MEMEND),
      boot_modules := replicate NR_BOOT_MODULES empty_module, boot_modules_count := n\<rparr>"
  have "\<exists>b'. read_modules m strs mods [0..<n] ?b = Some b' \<and> length (boot_modules b') = length (boot_modules ?b) \<and>
    (\<forall>i. boot_modules b' ! i = (if i \<in> set [0..<n] then ?x i else boot_modules ?b ! i)) \<and> boot_modules_count b' = boot_modules_count ?b \<and>
    memory_end b' = memory_end ?b \<and> kernel_cmdline b' = kernel_cmdline ?b"
    by (rule read_modules_ok) (use rm assms(5) in auto)
  then obtain b where b: "read_modules m strs mods [0..<n] ?b = Some b" "boot_modules_count b = n" "boot_modules b ! (n - 1) = ?x (n - 1)"
    using assms(4) by auto
  let ?e = "load32 m (mods + 16 * (n - 1) + 4)"
  have l: "add32 (bm_addr (?x (n - 1))) (bm_size (?x (n - 1))) = ?e" using assms(4) assms(8)[of "n - 1"] assms(10) by simp
  have w: "?e \<le> ASSERT_ALIGN ?e" "ASSERT_ALIGN ?e < ?e + 0x1000" "ASSERT_ALIGN ?e mod 0x1000 = 0" using align_ok[of ?e] assms(10) by auto
  have below: "load32 m (mods + 16 * (n - 1 - k) + 4) \<le> ?e" if "k < n" for k
    using that
  proof (induction k)
    case (Suc k)
    then have k: "n - 1 - Suc k + 1 = n - 1 - k" "n - 1 - Suc k + 1 < n" "n - 1 - k < n" "k < n" by simp_all
    have "load32 m (mods + 16 * (n - 1 - Suc k) + 4) \<le> load32 m (mods + 16 * (n - 1 - k))" using assms(9)[OF k(2)] unfolding k(1) .
    also have "\<dots> \<le> load32 m (mods + 16 * (n - 1 - k) + 4)" by (rule assms(8)[OF k(3)])
    also have "\<dots> \<le> ?e" by (rule Suc.IH[OF k(4)])
    finally show ?case .
  qed simp
  have all: "load32 m (mods + 16 * i + 4) \<le> ASSERT_ALIGN ?e" if "i < n" for i
    using below[of "n - 1 - i"] that w(1) by simp
  have "read_multiboot_info m strs kernel_end mbd boot_start =
      Some (b\<lparr>working_memstart := ASSERT_ALIGN ?e, kmalloc_pos := add32 (ASSERT_ALIGN ?e) IPC_MEMSIZE\<rparr>)"
    using b l assms(1-6) by (simp add: read_multiboot_info_def Let_def not_less)
  moreover have "add32 (ASSERT_ALIGN ?e) IPC_MEMSIZE = ASSERT_ALIGN ?e + IPC_MEMSIZE" using w(2) assms(10) by (simp add: IPC_MEMSIZE_def)
  ultimately show ?thesis using w(3) all by auto
qed

end
