(* ===== verification/Spec2Isabelle.thy ===== *)
theory Spec2Isabelle
  imports Keyboard Paging Mkinitrd Dts Syscalls Ramdisk Serial Floppy Acpi Ata Usr NishCmd Boot
begin

text \<open>
  A verification development for Nupkux, a small Unix-like kernel for 32-bit PCs written in C (\<^verbatim>\<open>src/src/\<close>), with its user
  programs (\<^verbatim>\<open>src/usr/\<close>) and the host tool that builds its initial ram disk (\<^verbatim>\<open>src/tools/mkinitrd/\<close>). File names in the theories are
  relative to \<^verbatim>\<open>src/src/\<close> and begin there with \<^verbatim>\<open>src/\<close>.

  \<^bold>\<open>The program.\<close> The kernel starts on a text screen (\<^verbatim>\<open>kernel/ktextio.c\<close>), sets up descriptor tables and interrupts
  (\<^verbatim>\<open>kernel/dts.c\<close>), a frame bitmap with page tables (\<^verbatim>\<open>mm/paging.c\<close>) and a heap (\<^verbatim>\<open>mm/mm.c\<close>). Processes (\<^verbatim>\<open>kernel/task.c\<close>,
  \<^verbatim>\<open>sched.c\<close>, \<^verbatim>\<open>exit.c\<close>) are switched by the timer (\<^verbatim>\<open>kernel/time.c\<close>) and enter the kernel through system calls
  (\<^verbatim>\<open>kernel/syscall.c\<close>). A virtual filesystem (\<^verbatim>\<open>fs/\<close>) caches inodes, resolves path names, keeps the mounts and dispatches to
  filesystems: the initial ram disk, the device filesystem, in which drivers register, and a read-only ext2. A new program is read by
  \<^verbatim>\<open>fs/exec.c\<close> and \<^verbatim>\<open>kernel/elf.c\<close>. A small shell (\<^verbatim>\<open>kernel/nish.c\<close>) is one of the devices; the user's shell writes its lines to it.

  \<^bold>\<open>Conventions.\<close> Structures are records, enumerations are datatypes, machine integers are words or naturals with the
  reduction modulo a power of two written out. A pointer to an object the claims are about is a number, and the objects live in a store
  (inodes, files, device handles, page tables); flat memory is a function from addresses to bytes. A result \<open>None\<close> is an access through
  a null or dangling pointer, outside an array, or a loop that does not end. What the processor or a device answers (port input, the
  registers a switch saves, the memory \<^verbatim>\<open>malloc\<close> returns where its contents matter) is an argument of the model.

  \<^bold>\<open>The theories\<close>, in the order they build on each other:
  \<^item> \<open>Prelude\<close>: C types, error codes, generic lemmas. \<open>Memory\<close>: byte-addressed memory and 32-bit address arithmetic.
  \<^item> \<open>CString\<close> (\<^verbatim>\<open>lib/string.c\<close>, \<^verbatim>\<open>lib/memory.c\<close>): what each routine computes; \<open>strcmp\<close> decides an order, \<open>strtok\<close> yields the
    tokens of a reference tokenizer; where \<open>strncpy\<close> and \<open>strncmp\<close> go wrong.
  \<^item> \<open>Vsprintf\<close> (\<^verbatim>\<open>lib/vsprintf.c\<close>): the formatter with every flag and conversion; the width of numbers, decimal output.
  \<^item> \<open>Tty\<close> (\<^verbatim>\<open>drivers/tty/tty.c\<close>): line ring, escape parser, window; an invariant that no output leaves. \<open>Keyboard\<close>
    (\<^verbatim>\<open>drivers/tty/kbd.c\<close>, \<^verbatim>\<open>keymap.h\<close>): the interrupt handler and the ring buffer, which refines a bounded queue.
  \<^item> \<open>Paging\<close> (\<^verbatim>\<open>mm/paging.c\<close>): frames, tables, directories; a clone copies the pages, and freeing it restores the bitmap.
  \<^item> \<open>Heap\<close> (\<^verbatim>\<open>mm/mm.c\<close>): blocks and holes in a byte memory with an index sorted by size; an invariant of the layout, best fit,
    the release of a block, and what happens when the memory is exhausted.
  \<^item> \<open>Vfs\<close> (\<^verbatim>\<open>fs/vfs/\<close>): the inode cache with its counts. \<open>Namei\<close> (\<^verbatim>\<open>fs/namei.c\<close>): path resolution, mount links, the references
    it leaks. \<open>Files\<close> (\<^verbatim>\<open>fs/open.c\<close>, \<^verbatim>\<open>fcntl.c\<close>, \<^verbatim>\<open>read_write.c\<close>): descriptors and reference counts. \<open>Mount\<close> (\<^verbatim>\<open>fs/mount.c\<close>,
    \<^verbatim>\<open>kernel/sys.c\<close>): mounting, the failure of every unmount, reboot.
  \<^item> \<open>Directory\<close>: the contract of filesystems whose directories are tables. \<open>Initrdfs\<close> (\<^verbatim>\<open>fs/initrdfs/\<close>), \<open>Mkinitrd\<close>
    (\<^verbatim>\<open>tools/mkinitrd/main.c\<close>: the kernel finds in the image every file the tool put there), \<open>Devfs\<close> (\<^verbatim>\<open>fs/devfs/\<close>: registered devices
    are found, removed ones are gone), \<open>Ext2\<close> (\<^verbatim>\<open>fs/ext2/\<close>: which bytes a read delivers).
  \<^item> \<open>Tasks\<close> (\<^verbatim>\<open>kernel/task.c\<close>, \<^verbatim>\<open>sched.c\<close>, \<^verbatim>\<open>exit.c\<close>): the table, scheduling, signals, fork, exit, wait; waiting tasks get their
    turn. \<open>Processes\<close>: the invariant between tasks and open files over every sequence of calls and timer interrupts.
  \<^item> \<open>Timekeeping\<close> (\<^verbatim>\<open>kernel/time.c\<close>): the clock agrees with the Gregorian calendar. \<open>Dts\<close> (\<^verbatim>\<open>kernel/dts.c\<close>): the tables as
    the processor decodes them. \<open>Ktextio\<close> (\<^verbatim>\<open>kernel/ktextio.c\<close>): output stays in the video memory.
  \<^item> \<open>Exec\<close> (the stack of a new program), \<open>Elf\<close> (its segments) and \<open>Execve\<close> (both together, \<^verbatim>\<open>fs/exec.c\<close>): the program starts
    with its arguments and its image in place.
  \<^item> \<open>Syscalls\<close> (\<^verbatim>\<open>kernel/syscall.c\<close>, \<^verbatim>\<open>include/unistd.h\<close>): the table, the interrupt handler and the user's wrappers over all of
    the above; whatever programs do, the current task stays alive and the file counts exact.
  \<^item> \<open>Drivers\<close> (\<^verbatim>\<open>drivers/drivers.c\<close>, \<^verbatim>\<open>pseudo.c\<close>, \<^verbatim>\<open>urandom.c\<close>): the lock of a device is exclusive. \<open>Ramdisk\<close>
    (\<^verbatim>\<open>drivers/ramdisk.c\<close>): written sectors are read back, and ext2 on top of it. \<open>Ports\<close>: the hardware as a parameter. \<open>Serial\<close>
    (\<^verbatim>\<open>drivers/serial.c\<close>): a write sends its bytes. \<open>Floppy\<close> (\<^verbatim>\<open>drivers/fdc/\<close>): transfers stay on a track and return. \<open>Ata\<close>
    (\<^verbatim>\<open>drivers/ata/ata.c\<close>, \<^verbatim>\<open>pc_speaker.c\<close>): registers and data of a transfer. \<open>Acpi\<close> (\<^verbatim>\<open>drivers/acpi.c\<close>): the power-off uses the
    values the firmware's tables describe.
  \<^item> \<open>Boot\<close> (\<^verbatim>\<open>kernel/main.c\<close>): the data of the boot loader; the memory the kernel manages lies above the modules.
  \<^item> \<open>Nish\<close> and \<open>NishCmd\<close> (\<^verbatim>\<open>kernel/nish.c\<close>): lines, words and commands of the built-in shell; what \<^verbatim>\<open>ls\<close> lists, why \<^verbatim>\<open>exec\<close>
    hangs. \<open>Usr\<close> (\<^verbatim>\<open>usr/sh\<close>, \<^verbatim>\<open>usr/init\<close>, \<^verbatim>\<open>usr/getty\<close>): a
    typed line reaches that shell as it was edited, and getty's descriptors.

  \<^bold>\<open>Interfaces.\<close> Four contracts are locales, each interpreted on the model. \<open>bounded_queue\<close> (theory \<open>Keyboard\<close>) is the queue of the
  last characters that a terminal's input ring buffer implements. \<open>directory\<close> and its extension \<open>fs_directory\<close> (theory \<open>Directory\<close>) say
  what path resolution may expect of a filesystem that keeps its directories as tables; \<open>Initrdfs\<close> and \<open>Devfs\<close> interpret them.
  \<open>block_device\<close> (theory \<open>Ext2\<close>) is what the filesystem relies on from its device; \<open>Ramdisk\<close> interprets it.

  \<^bold>\<open>Bounds and fuel.\<close> Loops are structural recursions, or functions with a measure taken from the code's own bound (the 64
  tasks, the 16 arguments, the 128 polls of the floppy controller, the 32-bit counter of \<^verbatim>\<open>strncpy\<close>). Loops the code does not bound are
  \<open>partial_function (option)\<close>, and what is claimed of them includes that they return: \<open>heap_malloc\<close> where a hole fits (and that it never
  returns where the memory is exhausted), \<open>resolve_mount\<close> and \<open>getdentry\<close> along mount links (and that a cycle never ends), \<open>mem_strlen\<close>,
  \<open>vec_len\<close>, \<open>stack_pages\<close> and \<open>seg_pages\<close> for programs that can be started, \<open>wait_thre\<close>, \<open>wait_rbf\<close> and \<open>ata_wait\<close> for devices that
  become ready, \<open>rw_tries\<close> for a drive that reports no changed disk (and that it never returns with an empty drive), \<open>acpi_scan\<close> for
  tables in order (and that it never ends on others).

  \<^bold>\<open>Not modelled.\<close> The assembler sources (boot code, interrupt stubs, switches of stack and page directory), the order in which
  \<^verbatim>\<open>kernel/main.c\<close> calls the set-up functions, delays, and the random numbers of \<^verbatim>\<open>drivers/urandom.c\<close>, which are
  computed in extended floating point; of the heap the bump
  allocator that serves before it exists; the C library under \<^verbatim>\<open>usr/libc\<close>, whose \<^verbatim>\<open>vsprintf.c\<close> and \<^verbatim>\<open>string.c\<close> repeat those of the
  kernel, and the banners the user programs print.
\<close>

end
